(* ===== verification/Resql_Prelude.thy ===== *)
theory Resql_Prelude
  imports Main "HOL-Library.Word"
begin

text \<open>
  The shared vocabulary of the development: the machine integers and byte strings of the C code,
  the return codes of \<^verbatim>\<open>src/src/rs.h\<close>, the little-endian byte images of the integers
  and the list lemmas on reading and overwriting a memory region that the components share.

  Positions and sizes are natural numbers with the wrap-around of the C expression written out
  (\<open>add32\<close>, \<open>sub32\<close>); values that are only stored, compared and encoded are words.
\<close>

unbundle bit_operations_syntax

type_synonym u8 = "8 word"
type_synonym u16 = "16 word"
type_synonym u32 = "32 word"
type_synonym u64 = "64 word"
type_synonym bytes = "8 word list"

text \<open>A C string is the bytes before its terminator; the null pointer is \<^term>\<open>None\<close>.\<close>

type_synonym cstring = "8 word list"

named_theorems buf_simps and codec_simps

section \<open>Return codes\<close>

datatype rs_rc =
    RS_OK | RS_ERROR | RS_DONE | RS_NOOP | RS_RETRY | RS_NONBLOCK | RS_ENOENT | RS_EMPTY
  | RS_INVALID | RS_PARTIAL | RS_EXISTS | RS_TIMEOUT | RS_INPROGRESS | RS_NOTFOUND | RS_FULL
  | RS_FATAL | RS_FAIL | RS_SQL_ERROR | RS_SNAPSHOT | RS_REJECT

section \<open>Wrapping arithmetic on sizes and positions\<close>

definition add32 :: "nat \<Rightarrow> nat \<Rightarrow> nat" where
  "add32 a b = (a + b) mod 2 ^ 32"

definition sub32 :: "nat \<Rightarrow> nat \<Rightarrow> nat" where
  "sub32 a b = (a + 2 ^ 32 - b) mod 2 ^ 32"

definition add64 :: "nat \<Rightarrow> nat \<Rightarrow> nat" where
  "add64 a b = (a + b) mod 2 ^ 64"

definition sub64 :: "nat \<Rightarrow> nat \<Rightarrow> nat" where
  "sub64 a b = (a + 2 ^ 64 - b) mod 2 ^ 64"

abbreviation UINT32_MAX :: nat where
  "UINT32_MAX \<equiv> 2 ^ 32 - 1"

abbreviation UINT64_MAX :: nat where
  "UINT64_MAX \<equiv> 2 ^ 64 - 1"

lemma add32_small [simp]: "a + b < 2 ^ 32 \<Longrightarrow> add32 a b = a + b"
  by (simp add: add32_def)

lemma add32_less [simp]: "add32 a b < 2 ^ 32"
  by (simp add: add32_def)

lemma sub32_small [simp]: "b \<le> a \<Longrightarrow> a < 2 ^ 32 \<Longrightarrow> sub32 a b = a - b"
proof -
  assume h: "b \<le> a" "a < 2 ^ 32"
  then have "sub32 a b = ((a - b) + 2 ^ 32) mod 2 ^ 32"
    unfolding sub32_def by (metis Nat.add_diff_assoc2)
  also have "\<dots> = (a - b) mod 2 ^ 32" by (rule mod_add_self2)
  also have "\<dots> = a - b" using h by (intro mod_less) linarith
  finally show "sub32 a b = a - b" .
qed

lemma sub32_less [simp]: "sub32 a b < 2 ^ 32"
  by (simp add: sub32_def)

lemma add64_small [simp]: "a + b < 2 ^ 64 \<Longrightarrow> add64 a b = a + b"
  by (simp add: add64_def)

lemma add64_less [simp]: "add64 a b < 2 ^ 64"
  by (simp add: add64_def)

lemma sub64_small [simp]: "b \<le> a \<Longrightarrow> a < 2 ^ 64 \<Longrightarrow> sub64 a b = a - b"
proof -
  assume h: "b \<le> a" "a < 2 ^ 64"
  then have "sub64 a b = ((a - b) + 2 ^ 64) mod 2 ^ 64"
    unfolding sub64_def by (metis Nat.add_diff_assoc2)
  also have "\<dots> = (a - b) mod 2 ^ 64" by (rule mod_add_self2)
  also have "\<dots> = a - b" using h by (intro mod_less) linarith
  finally show "sub64 a b = a - b" .
qed

section \<open>Little-endian byte images\<close>

text \<open>
  The bytes the C code stores with \<^verbatim>\<open>p[i] = (unsigned char) (v >> 8 * i)\<close> and reads back
  with \<^verbatim>\<open>p[0] << 0 | p[1] << 8 | ...\<close>.
\<close>

definition le16 :: "u16 \<Rightarrow> bytes" where
  "le16 v = [ucast v, ucast (drop_bit 8 v)]"

definition le32 :: "u32 \<Rightarrow> bytes" where
  "le32 v = [ucast v, ucast (drop_bit 8 v), ucast (drop_bit 16 v), ucast (drop_bit 24 v)]"

definition le64 :: "u64 \<Rightarrow> bytes" where
  "le64 v =
     [ucast v, ucast (drop_bit 8 v), ucast (drop_bit 16 v), ucast (drop_bit 24 v),
      ucast (drop_bit 32 v), ucast (drop_bit 40 v), ucast (drop_bit 48 v), ucast (drop_bit 56 v)]"

definition de16 :: "bytes \<Rightarrow> u16" where
  "de16 p = ucast (p ! 0) OR push_bit 8 (ucast (p ! 1))"

definition de32 :: "bytes \<Rightarrow> u32" where
  "de32 p = ucast (p ! 0) OR push_bit 8 (ucast (p ! 1)) OR push_bit 16 (ucast (p ! 2))
     OR push_bit 24 (ucast (p ! 3))"

definition de64 :: "bytes \<Rightarrow> u64" where
  "de64 p = ucast (p ! 0) OR push_bit 8 (ucast (p ! 1)) OR push_bit 16 (ucast (p ! 2))
     OR push_bit 24 (ucast (p ! 3)) OR push_bit 32 (ucast (p ! 4)) OR push_bit 40 (ucast (p ! 5))
     OR push_bit 48 (ucast (p ! 6)) OR push_bit 56 (ucast (p ! 7))"

lemma length_le [simp]: "length (le16 a) = 2" "length (le32 b) = 4" "length (le64 c) = 8"
  by (simp_all add: le16_def le32_def le64_def)

lemma le_nonempty [simp]: "le16 a \<noteq> []" "le32 b \<noteq> []" "le64 c \<noteq> []"
  by (simp_all add: le16_def le32_def le64_def)

lemma bit_push_ucast_drop:
  fixes v :: "'a::len word"
  assumes "k + 8 \<le> LENGTH('a)"
  shows "bit (push_bit k (ucast (ucast (drop_bit k v) :: u8) :: 'a word)) n \<longleftrightarrow>
    k \<le> n \<and> n < k + 8 \<and> bit v n"
  using assms by (auto simp: bit_simps)

lemmas bit_push_ucast = bit_push_ucast_drop [of 0, simplified]

lemma de16_le16_append [simp]: "de16 (le16 v @ xs) = v"
proof (rule bit_word_eqI)
  fix n assume "n < LENGTH(16)"
  then have "n < 8 \<or> 8 \<le> n \<and> n < 16" by simp linarith
  then show "bit (de16 (le16 v @ xs)) n = bit v n"
    by (auto simp: de16_def le16_def bit_or_iff bit_push_ucast_drop bit_push_ucast)
qed

lemma de32_le32_append [simp]: "de32 (le32 v @ xs) = v"
proof (rule bit_word_eqI)
  fix n assume "n < LENGTH(32)"
  then have "n < 8 \<or> 8 \<le> n \<and> n < 16 \<or> 16 \<le> n \<and> n < 24 \<or> 24 \<le> n \<and> n < 32" by simp linarith
  then show "bit (de32 (le32 v @ xs)) n = bit v n"
    by (auto simp: de32_def le32_def bit_or_iff bit_push_ucast_drop bit_push_ucast)
qed

lemma de64_le64_append [simp]: "de64 (le64 v @ xs) = v"
proof (rule bit_word_eqI)
  fix n assume "n < LENGTH(64)"
  then have "n < 8 \<or> 8 \<le> n \<and> n < 16 \<or> 16 \<le> n \<and> n < 24 \<or> 24 \<le> n \<and> n < 32 \<or>
      32 \<le> n \<and> n < 40 \<or> 40 \<le> n \<and> n < 48 \<or> 48 \<le> n \<and> n < 56 \<or> 56 \<le> n \<and> n < 64"
    by simp linarith
  then show "bit (de64 (le64 v @ xs)) n = bit v n"
    by (auto simp: de64_def le64_def bit_or_iff bit_push_ucast_drop bit_push_ucast)
qed

lemmas de_le [simp] =
  de16_le16_append [where xs = "[]", simplified] de32_le32_append [where xs = "[]", simplified]
  de64_le64_append [where xs = "[]", simplified]

lemma bit_push_byte:
  fixes b :: u8
  assumes "m + 8 \<le> LENGTH('a::len)"
  shows "bit (push_bit m (ucast b) :: 'a word) n \<longleftrightarrow> m \<le> n \<and> n < m + 8 \<and> bit b (n - m)"
  using assms by (auto simp: bit_simps dest: bit_imp_le_length)

lemma bit_byte: "8 \<le> n \<Longrightarrow> \<not> bit (b :: u8) n"
  by (auto dest: bit_imp_le_length)

lemma byte_eqI:
  fixes x y :: u8
  assumes "\<And>n. n < 8 \<Longrightarrow> bit x n = bit y n"
  shows "x = y"
  using assms by (intro bit_word_eqI) simp

lemma byte_de64:
  "ucast (de64 p) = p ! 0" "ucast (drop_bit 8 (de64 p)) = p ! 1" "ucast (drop_bit 16 (de64 p)) = p ! 2"
  "ucast (drop_bit 24 (de64 p)) = p ! 3" "ucast (drop_bit 32 (de64 p)) = p ! 4"
  "ucast (drop_bit 40 (de64 p)) = p ! 5" "ucast (drop_bit 48 (de64 p)) = p ! 6"
  "ucast (drop_bit 56 (de64 p)) = p ! 7"
  by (rule byte_eqI, simp add: de64_def bit_or_iff bit_push_byte bit_byte bit_ucast_iff bit_drop_bit_eq)+

lemma byte_de32:
  "ucast (de32 p) = p ! 0" "ucast (drop_bit 8 (de32 p)) = p ! 1" "ucast (drop_bit 16 (de32 p)) = p ! 2"
  "ucast (drop_bit 24 (de32 p)) = p ! 3"
  by (rule byte_eqI, simp add: de32_def bit_or_iff bit_push_byte bit_byte bit_ucast_iff bit_drop_bit_eq)+

lemma byte_de16:
  "ucast (de16 p) = p ! 0" "ucast (drop_bit 8 (de16 p)) = p ! 1" 
  by (rule byte_eqI, simp add: de16_def bit_or_iff bit_push_byte bit_byte bit_ucast_iff bit_drop_bit_eq)+

lemma take_nths: "length p \<ge> 4 \<Longrightarrow> take 4 p = [p ! 0, p ! 1, p ! 2, p ! 3]"
  "length p \<ge> 8 \<Longrightarrow> take 8 p = [p ! 0, p ! 1, p ! 2, p ! 3, p ! 4, p ! 5, p ! 6, p ! 7]"
  by (auto simp: list_eq_iff_nth_eq less_Suc_eq_0_disj numeral_eq_Suc nth_Cons' min_def)

lemma le32_de32: "length p \<ge> 4 \<Longrightarrow> le32 (de32 p) = take 4 p"
  by (simp add: le32_def byte_de32 take_nths)

lemma le64_de64: "length p \<ge> 8 \<Longrightarrow> le64 (de64 p) = take 8 p"
  by (simp add: le64_def byte_de64 take_nths)

section \<open>Memory regions\<close>

definition slice :: "'a list \<Rightarrow> nat \<Rightarrow> nat \<Rightarrow> 'a list" where
  "slice m a n = take n (drop a m)"

definition write_at :: "'a list \<Rightarrow> nat \<Rightarrow> 'a list \<Rightarrow> 'a list" where
  "write_at m a xs = take a m @ xs @ drop (a + length xs) m"

definition cstr_at :: "bytes \<Rightarrow> nat \<Rightarrow> cstring" where
  "cstr_at m a = takeWhile (\<lambda>c. c \<noteq> 0) (drop a m)"

lemma length_slice [simp]: "a + n \<le> length m \<Longrightarrow> length (slice m a n) = n"
  by (simp add: slice_def)

lemma slice_0 [simp]: "slice m a 0 = []"
  by (simp add: slice_def)

lemma slice_add: "slice m a (n + k) = slice m a n @ slice m (a + n) k"
  by (metis slice_def take_add drop_drop add.commute)

lemma slice_prefix:
  assumes "slice m a n = xs @ ys"
  shows "slice m a (length xs) = xs"
proof -
  have "length (xs @ ys) \<le> n" using assms by (metis length_take min.cobounded2 slice_def)
  then have "slice m a (length xs) = take (length xs) (slice m a n)"
    by (simp add: slice_def min_def)
  then show ?thesis using assms by simp
qed

lemma slice_suffix:
  assumes "slice m a n = xs @ ys"
  shows "slice m (a + length xs) (n - length xs) = ys"
proof -
  have "slice m (a + length xs) (n - length xs) = drop (length xs) (slice m a n)"
    by (simp add: slice_def drop_take add.commute)
  then show ?thesis using assms by simp
qed

lemma drop_of_slice:
  assumes "slice m a n = xs @ ys" and "a + n \<le> length m"
  shows "\<exists>zs. drop a m = xs @ zs"
  using assms unfolding slice_def by (metis append.assoc append_take_drop_id)

lemma length_write_at [simp]: "a + length xs \<le> length m \<Longrightarrow> length (write_at m a xs) = length m"
  by (simp add: write_at_def)

lemma write_at_Nil [simp]: "write_at m a [] = m"
  by (simp add: write_at_def)

lemma slice_write_at_before:
  assumes "b + n \<le> a" and "a \<le> length m"
  shows "slice (write_at m a xs) b n = slice m b n"
proof -
  have "slice (write_at m a xs) b n = take n (drop b (take a m))"
    using assms by (simp add: slice_def write_at_def)
  also have "\<dots> = slice m b n"
    using assms by (simp add: slice_def drop_take)
  finally show ?thesis .
qed

lemma slice_write_at_same:
  "a \<le> length m \<Longrightarrow> slice (write_at m a xs) a (length xs) = xs"
  by (simp add: slice_def write_at_def)

lemma slice_write_at_after:
  assumes "a + length xs \<le> b" and "a + length xs \<le> length m"
  shows "slice (write_at m a xs) b n = slice m b n"
  using assms by (simp add: slice_def write_at_def)

lemma cstr_at_terminated:
  assumes "0 \<notin> set s" and "drop a m = s @ 0 # zs"
  shows "cstr_at m a = s"
proof -
  have "\<And>c. c \<in> set s \<Longrightarrow> c \<noteq> 0" using assms(1) by auto
  then have "takeWhile (\<lambda>c. c \<noteq> 0) (s @ 0 # zs) = s @ takeWhile (\<lambda>c. c \<noteq> 0) (0 # zs)"
    by (rule takeWhile_append2)
  then show ?thesis using assms(2) by (simp add: cstr_at_def)
qed

lemma unat_word_of_nat_small [simp]:
  "n < 2 ^ 32 \<Longrightarrow> unat (word_of_nat n :: u32) = n"
  "n < 2 ^ 64 \<Longrightarrow> unat (word_of_nat n :: u64) = n"
  by (simp_all add: unat_of_nat)

definition the_default :: "'a \<Rightarrow> 'a option \<Rightarrow> 'a" where
  "the_default d x = (case x of None \<Rightarrow> d | Some y \<Rightarrow> y)"

lemma the_default_simps [simp]: "the_default d None = d" "the_default d (Some x) = x"
  by (simp_all add: the_default_def)

end
