(* ===== verification/Sc_Buf.thy ===== *)
theory Sc_Buf
  imports Resql_Prelude
begin

text \<open>
  The byte buffer of \<^verbatim>\<open>src/lib/sc/sc_buf.c\<close>: its state, its read, write and cursor
  operations, the well-formedness invariant they keep, and the contract the codecs rely on:
  a buffer is a queue of bytes (\<open>sc_buf_data\<close>) to which every \<open>put\<close> appends the image of its
  argument and from which the matching \<open>get\<close> takes it off again (locale \<open>buf_item\<close>).

  The memory is a byte list that is at least as long as the capacity: a buffer wrapped around a
  region of a larger object (\<open>sc_buf_wrap\<close>) sees the bytes behind its region, as the C pointer
  does. \<^verbatim>\<open>sc_buf_realloc\<close> is \<^verbatim>\<open>rs_realloc\<close>, which aborts the process instead of returning
  null; the bytes it adds are uninitialised in C and zero here (no operation reads them before
  they are written). \<^verbatim>\<open>sizeof\<close> is a 64-bit value, so \<^verbatim>\<open>pos + sizeof(*val)\<close> does not
  wrap, while \<^verbatim>\<open>wpos + len\<close> on two \<^verbatim>\<open>uint32_t\<close> does.
\<close>

section \<open>State and operations\<close>

record sc_buf =
  mem :: bytes
  cap :: nat
  limit :: nat
  rpos :: nat
  wpos :: nat
  err :: u32
  ref :: bool

definition SC_BUF_MAX :: nat where "SC_BUF_MAX = 4294967295"
definition SC_BUF_CORRUPT :: u32 where "SC_BUF_CORRUPT = 1"
definition SC_BUF_OOM :: u32 where "SC_BUF_OOM = 3"
definition SC_BUF_REF :: nat where "SC_BUF_REF = 8"
definition SC_BUF_DATA :: nat where "SC_BUF_DATA = 16"
definition SC_BUF_READ :: nat where "SC_BUF_READ = 24"

definition sc_buf_wrap :: "bytes \<Rightarrow> nat \<Rightarrow> nat \<Rightarrow> sc_buf" where
  "sc_buf_wrap data len flag =
     \<lparr>mem = data, cap = len,
      limit = (if flag AND SC_BUF_REF \<noteq> 0 then len else SC_BUF_MAX),
      rpos = 0,
      wpos = (if flag AND SC_BUF_DATA \<noteq> 0 then len else 0),
      err = 0,
      ref = (flag AND SC_BUF_REF \<noteq> 0)\<rparr>"

definition sc_buf_init :: "nat \<Rightarrow> sc_buf" where
  "sc_buf_init c = sc_buf_wrap (replicate c 0) c 0"

definition sc_buf_term :: "sc_buf \<Rightarrow> sc_buf" where
  "sc_buf_term b = sc_buf_init 0"

definition sc_buf_limit :: "sc_buf \<Rightarrow> nat \<Rightarrow> sc_buf" where
  "sc_buf_limit b l = b\<lparr>limit := l\<rparr>"

definition round_4096 :: "nat \<Rightarrow> nat" where
  "round_4096 n = (add32 n 4095 div 4096) * 4096"

definition sc_buf_reserve :: "sc_buf \<Rightarrow> nat \<Rightarrow> bool \<times> sc_buf" where
  "sc_buf_reserve b len =
     (if add32 (wpos b) len > cap b then
        if ref b then (False, b\<lparr>err := err b OR SC_BUF_OOM\<rparr>)
        else let size = round_4096 (add32 (cap b) len) in
          if size > limit b \<or> cap b \<ge> SC_BUF_MAX - 4096
          then (False, b\<lparr>err := err b OR SC_BUF_OOM\<rparr>)
          else (True, b\<lparr>mem := take size (mem b) @ replicate (size - length (mem b)) 0, cap := size\<rparr>)
      else (True, b))"

definition sc_buf_valid :: "sc_buf \<Rightarrow> bool" where
  "sc_buf_valid b \<longleftrightarrow> err b = 0"

definition sc_buf_quota :: "sc_buf \<Rightarrow> nat" where
  "sc_buf_quota b = sub32 (cap b) (wpos b)"

definition sc_buf_size :: "sc_buf \<Rightarrow> nat" where
  "sc_buf_size b = sub32 (wpos b) (rpos b)"

definition sc_buf_clear :: "sc_buf \<Rightarrow> sc_buf" where
  "sc_buf_clear b = b\<lparr>rpos := 0, wpos := 0, err := 0\<rparr>"

definition sc_buf_mark_read :: "sc_buf \<Rightarrow> nat \<Rightarrow> sc_buf" where
  "sc_buf_mark_read b len = b\<lparr>rpos := add32 (rpos b) len\<rparr>"

definition sc_buf_mark_write :: "sc_buf \<Rightarrow> nat \<Rightarrow> sc_buf" where
  "sc_buf_mark_write b len = b\<lparr>wpos := add32 (wpos b) len\<rparr>"

definition sc_buf_set_rpos :: "sc_buf \<Rightarrow> nat \<Rightarrow> sc_buf" where
  "sc_buf_set_rpos b pos =
     (let b' = (if pos > wpos b then b\<lparr>err := err b OR SC_BUF_CORRUPT\<rparr> else b) in b'\<lparr>rpos := pos\<rparr>)"

definition sc_buf_set_wpos :: "sc_buf \<Rightarrow> nat \<Rightarrow> sc_buf" where
  "sc_buf_set_wpos b pos =
     (let b' = (if pos > cap b then b\<lparr>err := err b OR SC_BUF_CORRUPT\<rparr> else b) in b'\<lparr>wpos := pos\<rparr>)"

definition sc_buf_compact :: "sc_buf \<Rightarrow> sc_buf" where
  "sc_buf_compact b =
     (let b' = (if rpos b = wpos b then b\<lparr>rpos := 0, wpos := 0\<rparr> else b) in
      if rpos b' \<noteq> 0 then
        let copy = sub32 (wpos b') (rpos b') in
        b'\<lparr>mem := write_at (mem b') 0 (slice (mem b') (rpos b') copy), rpos := 0, wpos := copy\<rparr>
      else b')"

definition sc_buf_shrink :: "sc_buf \<Rightarrow> nat \<Rightarrow> bool \<times> sc_buf" where
  "sc_buf_shrink b len =
     (let b' = sc_buf_compact b in
      if len > cap b' \<or> wpos b' \<ge> len then (True, b')
      else let n = round_4096 len in
        (True, b'\<lparr>mem := take n (mem b') @ replicate (n - length (mem b')) 0, cap := n\<rparr>))"

subsection \<open>Reading at a position\<close>

definition sc_buf_peek_8_pos :: "sc_buf \<Rightarrow> nat \<Rightarrow> nat \<times> u8 \<times> sc_buf" where
  "sc_buf_peek_8_pos b pos =
     (if pos + 1 > wpos b then (0, 0, b\<lparr>err := err b OR SC_BUF_CORRUPT\<rparr>)
      else (1, mem b ! pos, b))"

definition sc_buf_peek_16_pos :: "sc_buf \<Rightarrow> nat \<Rightarrow> nat \<times> u16 \<times> sc_buf" where
  "sc_buf_peek_16_pos b pos =
     (if pos + 2 > wpos b then (0, 0, b\<lparr>err := err b OR SC_BUF_CORRUPT\<rparr>)
      else (2, de16 (drop pos (mem b)), b))"

definition sc_buf_peek_32_pos :: "sc_buf \<Rightarrow> nat \<Rightarrow> nat \<times> u32 \<times> sc_buf" where
  "sc_buf_peek_32_pos b pos =
     (if pos + 4 > wpos b then (0, 0, b\<lparr>err := err b OR SC_BUF_CORRUPT\<rparr>)
      else (4, de32 (drop pos (mem b)), b))"

definition sc_buf_peek_64_pos :: "sc_buf \<Rightarrow> nat \<Rightarrow> nat \<times> u64 \<times> sc_buf" where
  "sc_buf_peek_64_pos b pos =
     (if pos + 8 > wpos b then (0, 0, b\<lparr>err := err b OR SC_BUF_CORRUPT\<rparr>)
      else (8, de64 (drop pos (mem b)), b))"

definition sc_buf_peek_8_at :: "sc_buf \<Rightarrow> nat \<Rightarrow> u8 \<times> sc_buf" where
  "sc_buf_peek_8_at b pos = snd (sc_buf_peek_8_pos b pos)"

definition sc_buf_peek_16_at :: "sc_buf \<Rightarrow> nat \<Rightarrow> u16 \<times> sc_buf" where
  "sc_buf_peek_16_at b pos = snd (sc_buf_peek_16_pos b pos)"

definition sc_buf_peek_32_at :: "sc_buf \<Rightarrow> nat \<Rightarrow> u32 \<times> sc_buf" where
  "sc_buf_peek_32_at b pos = snd (sc_buf_peek_32_pos b pos)"

definition sc_buf_peek_64_at :: "sc_buf \<Rightarrow> nat \<Rightarrow> u64 \<times> sc_buf" where
  "sc_buf_peek_64_at b pos = snd (sc_buf_peek_64_pos b pos)"

definition sc_buf_peek_8 :: "sc_buf \<Rightarrow> u8 \<times> sc_buf" where
  "sc_buf_peek_8 b = sc_buf_peek_8_at b (rpos b)"

definition sc_buf_peek_16 :: "sc_buf \<Rightarrow> u16 \<times> sc_buf" where
  "sc_buf_peek_16 b = sc_buf_peek_16_at b (rpos b)"

definition sc_buf_peek_32 :: "sc_buf \<Rightarrow> u32 \<times> sc_buf" where
  "sc_buf_peek_32 b = sc_buf_peek_32_at b (rpos b)"

definition sc_buf_peek_64 :: "sc_buf \<Rightarrow> u64 \<times> sc_buf" where
  "sc_buf_peek_64 b = sc_buf_peek_64_at b (rpos b)"

text \<open>The bytes copied to \<^verbatim>\<open>dest\<close> are the second component.\<close>

definition sc_buf_peek_data :: "sc_buf \<Rightarrow> nat \<Rightarrow> nat \<Rightarrow> nat \<times> bytes \<times> sc_buf" where
  "sc_buf_peek_data b pos len =
     (if err b \<noteq> 0 \<or> add32 pos len > wpos b
      then (0, replicate len 0, b\<lparr>err := err b OR SC_BUF_CORRUPT\<rparr>)
      else (len, slice (mem b) pos len, b))"

subsection \<open>Writing at a position\<close>

definition sc_buf_set_8_pos :: "sc_buf \<Rightarrow> nat \<Rightarrow> u8 \<Rightarrow> nat \<times> sc_buf" where
  "sc_buf_set_8_pos b pos val =
     (if err b \<noteq> 0 \<or> pos + 1 > cap b then (0, b\<lparr>err := err b OR SC_BUF_CORRUPT\<rparr>)
      else (1, b\<lparr>mem := write_at (mem b) pos [val]\<rparr>))"

definition sc_buf_set_16_pos :: "sc_buf \<Rightarrow> nat \<Rightarrow> u16 \<Rightarrow> nat \<times> sc_buf" where
  "sc_buf_set_16_pos b pos val =
     (if err b \<noteq> 0 \<or> pos + 2 > cap b then (0, b\<lparr>err := err b OR SC_BUF_CORRUPT\<rparr>)
      else (2, b\<lparr>mem := write_at (mem b) pos (le16 val)\<rparr>))"

definition sc_buf_set_32_pos :: "sc_buf \<Rightarrow> nat \<Rightarrow> u32 \<Rightarrow> nat \<times> sc_buf" where
  "sc_buf_set_32_pos b pos val =
     (if err b \<noteq> 0 \<or> pos + 4 > cap b then (0, b\<lparr>err := err b OR SC_BUF_CORRUPT\<rparr>)
      else (4, b\<lparr>mem := write_at (mem b) pos (le32 val)\<rparr>))"

definition sc_buf_set_64_pos :: "sc_buf \<Rightarrow> nat \<Rightarrow> u64 \<Rightarrow> nat \<times> sc_buf" where
  "sc_buf_set_64_pos b pos val =
     (if err b \<noteq> 0 \<or> pos + 8 > cap b then (0, b\<lparr>err := err b OR SC_BUF_CORRUPT\<rparr>)
      else (8, b\<lparr>mem := write_at (mem b) pos (le64 val)\<rparr>))"

definition sc_buf_set_8_at :: "sc_buf \<Rightarrow> nat \<Rightarrow> u8 \<Rightarrow> sc_buf" where
  "sc_buf_set_8_at b pos val = snd (sc_buf_set_8_pos b pos val)"

definition sc_buf_set_16_at :: "sc_buf \<Rightarrow> nat \<Rightarrow> u16 \<Rightarrow> sc_buf" where
  "sc_buf_set_16_at b pos val = snd (sc_buf_set_16_pos b pos val)"

definition sc_buf_set_32_at :: "sc_buf \<Rightarrow> nat \<Rightarrow> u32 \<Rightarrow> sc_buf" where
  "sc_buf_set_32_at b pos val = snd (sc_buf_set_32_pos b pos val)"

definition sc_buf_set_64_at :: "sc_buf \<Rightarrow> nat \<Rightarrow> u64 \<Rightarrow> sc_buf" where
  "sc_buf_set_64_at b pos val = snd (sc_buf_set_64_pos b pos val)"

definition sc_buf_set_8 :: "sc_buf \<Rightarrow> u8 \<Rightarrow> sc_buf" where
  "sc_buf_set_8 b val = sc_buf_set_8_at b (wpos b) val"

definition sc_buf_set_16 :: "sc_buf \<Rightarrow> u16 \<Rightarrow> sc_buf" where
  "sc_buf_set_16 b val = sc_buf_set_16_at b (wpos b) val"

definition sc_buf_set_32 :: "sc_buf \<Rightarrow> u32 \<Rightarrow> sc_buf" where
  "sc_buf_set_32 b val = sc_buf_set_32_at b (wpos b) val"

definition sc_buf_set_64 :: "sc_buf \<Rightarrow> u64 \<Rightarrow> sc_buf" where
  "sc_buf_set_64 b val = sc_buf_set_64_at b (wpos b) val"

text \<open>\<^verbatim>\<open>src\<close> and \<^verbatim>\<open>len\<close> are one argument, the bytes at \<^verbatim>\<open>src\<close>.\<close>

definition sc_buf_set_data :: "sc_buf \<Rightarrow> nat \<Rightarrow> bytes \<Rightarrow> nat \<times> sc_buf" where
  "sc_buf_set_data b offset src =
     (if err b \<noteq> 0 \<or> add32 offset (length src) > cap b
      then (0, b\<lparr>err := err b OR SC_BUF_CORRUPT\<rparr>)
      else if length src = 0 then (0, b)
      else (length src, b\<lparr>mem := write_at (mem b) offset src\<rparr>))"

subsection \<open>Reading at the read cursor\<close>

definition sc_buf_get_8 :: "sc_buf \<Rightarrow> u8 \<times> sc_buf" where
  "sc_buf_get_8 b =
     (let (n, v, b') = sc_buf_peek_8_pos b (rpos b) in (v, b'\<lparr>rpos := add32 (rpos b') n\<rparr>))"

definition sc_buf_get_bool :: "sc_buf \<Rightarrow> bool \<times> sc_buf" where
  "sc_buf_get_bool b = (let (v, b') = sc_buf_get_8 b in (v \<noteq> 0, b'))"

definition sc_buf_get_16 :: "sc_buf \<Rightarrow> u16 \<times> sc_buf" where
  "sc_buf_get_16 b =
     (let (n, v, b') = sc_buf_peek_16_pos b (rpos b) in (v, b'\<lparr>rpos := add32 (rpos b') n\<rparr>))"

definition sc_buf_get_32 :: "sc_buf \<Rightarrow> u32 \<times> sc_buf" where
  "sc_buf_get_32 b =
     (let (n, v, b') = sc_buf_peek_32_pos b (rpos b) in (v, b'\<lparr>rpos := add32 (rpos b') n\<rparr>))"

definition sc_buf_get_64 :: "sc_buf \<Rightarrow> u64 \<times> sc_buf" where
  "sc_buf_get_64 b =
     (let (n, v, b') = sc_buf_peek_64_pos b (rpos b) in (v, b'\<lparr>rpos := add32 (rpos b') n\<rparr>))"

text \<open>A \<^verbatim>\<open>double\<close> is its 64-bit image, which \<^verbatim>\<open>memcpy\<close> moves unchanged.\<close>

definition sc_buf_get_double :: "sc_buf \<Rightarrow> u64 \<times> sc_buf" where
  "sc_buf_get_double b = sc_buf_get_64 b"

text \<open>
  The pointer \<^verbatim>\<open>sc_buf_get_str\<close> returns is the offset of the string in the memory
  (\<open>sc_buf_get_str_pos\<close>); \<open>sc_buf_get_str\<close> is the C string found there. \<^verbatim>\<open>len\<close> is an
  \<^verbatim>\<open>int\<close>, so the test for the null string is a test for \<open>-1\<close>, and
  \<^verbatim>\<open>b->rpos + len + 1\<close> is computed modulo \<open>2 ^ 32\<close>.
\<close>

definition sc_buf_get_str_pos :: "sc_buf \<Rightarrow> nat option \<times> sc_buf" where
  "sc_buf_get_str_pos b =
     (let (len, b1) = sc_buf_get_32 b in
      if len = - 1 then (None, b1)
      else if add32 (add32 (rpos b1) (unat len)) 1 > wpos b1
      then (None, b1\<lparr>err := err b1 OR SC_BUF_CORRUPT\<rparr>)
      else (Some (rpos b1), b1\<lparr>rpos := add32 (rpos b1) (add32 (unat len) 1)\<rparr>))"

definition sc_buf_get_str :: "sc_buf \<Rightarrow> cstring option \<times> sc_buf" where
  "sc_buf_get_str b =
     (let (p, b') = sc_buf_get_str_pos b in (map_option (cstr_at (mem b')) p, b'))"

definition sc_buf_get_blob :: "sc_buf \<Rightarrow> nat \<Rightarrow> bytes option \<times> sc_buf" where
  "sc_buf_get_blob b len =
     (if len = 0 then (None, b)
      else if add32 (rpos b) len > wpos b then (None, b\<lparr>err := err b OR SC_BUF_CORRUPT\<rparr>)
      else (Some (slice (mem b) (rpos b) len), b\<lparr>rpos := add32 (rpos b) len\<rparr>))"

definition sc_buf_get_data :: "sc_buf \<Rightarrow> nat \<Rightarrow> bytes \<times> sc_buf" where
  "sc_buf_get_data b len =
     (if add32 (rpos b) len > wpos b
      then (replicate len 0, b\<lparr>err := err b OR SC_BUF_CORRUPT\<rparr>)
      else let (n, d, b') = sc_buf_peek_data b (rpos b) len in
        (d, b'\<lparr>rpos := add32 (rpos b') n\<rparr>))"

subsection \<open>Writing at the write cursor\<close>

definition sc_buf_put_raw :: "sc_buf \<Rightarrow> bytes \<Rightarrow> sc_buf" where
  "sc_buf_put_raw b ptr =
     (let (ok, b1) = sc_buf_reserve b (length ptr) in
      if \<not> ok then b1
      else let (n, b2) = sc_buf_set_data b1 (wpos b1) ptr in b2\<lparr>wpos := add32 (wpos b2) n\<rparr>)"

definition sc_buf_put_8 :: "sc_buf \<Rightarrow> u8 \<Rightarrow> sc_buf" where
  "sc_buf_put_8 b val =
     (let (ok, b1) = sc_buf_reserve b 1 in
      if \<not> ok then b1
      else let (n, b2) = sc_buf_set_8_pos b1 (wpos b1) val in b2\<lparr>wpos := add32 (wpos b2) n\<rparr>)"

definition sc_buf_put_bool :: "sc_buf \<Rightarrow> bool \<Rightarrow> sc_buf" where
  "sc_buf_put_bool b val = sc_buf_put_8 b (if val then 1 else 0)"

definition sc_buf_put_16 :: "sc_buf \<Rightarrow> u16 \<Rightarrow> sc_buf" where
  "sc_buf_put_16 b val =
     (let (ok, b1) = sc_buf_reserve b 2 in
      if \<not> ok then b1
      else let (n, b2) = sc_buf_set_16_pos b1 (wpos b1) val in b2\<lparr>wpos := add32 (wpos b2) n\<rparr>)"

definition sc_buf_put_32 :: "sc_buf \<Rightarrow> u32 \<Rightarrow> sc_buf" where
  "sc_buf_put_32 b val =
     (let (ok, b1) = sc_buf_reserve b 4 in
      if \<not> ok then b1
      else let (n, b2) = sc_buf_set_32_pos b1 (wpos b1) val in b2\<lparr>wpos := add32 (wpos b2) n\<rparr>)"

definition sc_buf_put_64 :: "sc_buf \<Rightarrow> u64 \<Rightarrow> sc_buf" where
  "sc_buf_put_64 b val =
     (let (ok, b1) = sc_buf_reserve b 8 in
      if \<not> ok then b1
      else let (n, b2) = sc_buf_set_64_pos b1 (wpos b1) val in b2\<lparr>wpos := add32 (wpos b2) n\<rparr>)"

definition sc_buf_put_double :: "sc_buf \<Rightarrow> u64 \<Rightarrow> sc_buf" where
  "sc_buf_put_double b val = sc_buf_put_64 b val"

definition sc_buf_put_str :: "sc_buf \<Rightarrow> cstring option \<Rightarrow> sc_buf" where
  "sc_buf_put_str b str =
     (case str of
        None \<Rightarrow> sc_buf_put_32 b (- 1)
      | Some s \<Rightarrow>
          if length s \<ge> UINT32_MAX then b\<lparr>err := err b OR SC_BUF_CORRUPT\<rparr>
          else sc_buf_put_raw (sc_buf_put_32 b (word_of_nat (length s))) (s @ [0]))"

text \<open>The bytes at \<^verbatim>\<open>str\<close> may contain zeros here: \<^verbatim>\<open>len\<close> is given by the caller.\<close>

definition sc_buf_put_str_len :: "sc_buf \<Rightarrow> bytes option \<Rightarrow> sc_buf" where
  "sc_buf_put_str_len b str =
     (case str of
        None \<Rightarrow> sc_buf_put_32 b (- 1)
      | Some s \<Rightarrow>
          sc_buf_put_8 (sc_buf_put_raw (sc_buf_put_32 b (word_of_nat (length s))) s) 0)"

definition sc_buf_put_blob :: "sc_buf \<Rightarrow> bytes \<Rightarrow> sc_buf" where
  "sc_buf_put_blob b ptr = sc_buf_put_raw (sc_buf_put_32 b (word_of_nat (length ptr))) ptr"

definition sc_buf_move :: "sc_buf \<Rightarrow> sc_buf \<Rightarrow> sc_buf \<times> sc_buf" where
  "sc_buf_move dest src =
     (let quota = sc_buf_quota dest;
          size = sc_buf_size src;
          copy = (if quota < size then quota else size)
      in (sc_buf_put_raw dest (slice (mem src) (rpos src) copy),
          src\<lparr>rpos := add32 (rpos src) copy\<rparr>))"

text \<open>
  Formatted output. \<^verbatim>\<open>vsnprintf(dst, quota, ...)\<close> returns the length of the formatted text
  \<open>s\<close> and stores its first \<open>quota - 1\<close> bytes and a terminator, or nothing when \<open>quota\<close> is 0.
  The format and its arguments are one argument, the formatted text; it is \<open>None\<close> when
  \<^verbatim>\<open>vsnprintf\<close> reports an encoding error.
\<close>

definition vsnprintf_at :: "bytes \<Rightarrow> nat \<Rightarrow> nat \<Rightarrow> cstring \<Rightarrow> bytes" where
  "vsnprintf_at m dst quota s =
     (if quota = 0 then m else write_at m dst (take (quota - 1) s @ [0]))"

definition sc_buf_put_text :: "sc_buf \<Rightarrow> cstring option \<Rightarrow> sc_buf" where
  "sc_buf_put_text b fmt =
     (case fmt of
        None \<Rightarrow> sc_buf_set_wpos (b\<lparr>err := err b OR SC_BUF_CORRUPT\<rparr>) 0
      | Some s \<Rightarrow>
        let off = (if sc_buf_size b > 0 then 1 else 0);
            b1 = b\<lparr>mem := vsnprintf_at (mem b) (wpos b - off) (sc_buf_quota b) s\<rparr> in
        if length s \<ge> sc_buf_quota b then
          let (ok, b2) = sc_buf_reserve b1 (add32 (length s) 1) in
          if \<not> ok then sc_buf_set_wpos b2 0
          else let b3 = b2\<lparr>mem := vsnprintf_at (mem b2) (wpos b2 - off) (sc_buf_quota b2) s\<rparr> in
            if length s \<ge> sc_buf_quota b2 then sc_buf_set_wpos (b3\<lparr>err := SC_BUF_OOM\<rparr>) 0
            else sc_buf_mark_write b3 (length s + 1 - off)
        else sc_buf_mark_write b1 (length s + 1 - off))"

definition sc_buf_put_fmt :: "sc_buf \<Rightarrow> cstring option \<Rightarrow> sc_buf" where
  "sc_buf_put_fmt b fmt =
     (case fmt of
        None \<Rightarrow> b\<lparr>err := err b OR SC_BUF_CORRUPT\<rparr>
      | Some s \<Rightarrow>
        let pos = wpos b;
            quota = (if sc_buf_quota b > 4 then sc_buf_quota b - 4 else 0);
            b1 = b\<lparr>mem := vsnprintf_at (mem b) (wpos b + 4) quota s\<rparr> in
        if length s \<ge> quota then
          let (ok, b2) = sc_buf_reserve b1 (add32 (length s) 4) in
          if \<not> ok then b2
          else let quota2 = sub32 (sc_buf_quota b2) 4;
                   b3 = b2\<lparr>mem := vsnprintf_at (mem b2) (wpos b2 + 4) quota2 s\<rparr> in
            if length s \<ge> quota2 then b3\<lparr>err := err b3 OR SC_BUF_OOM\<rparr>
            else sc_buf_mark_write (sc_buf_set_32_at b3 pos (word_of_nat (length s))) (length s + 5)
        else sc_buf_mark_write (sc_buf_set_32_at b1 pos (word_of_nat (length s))) (length s + 5))"

subsection \<open>Encoded lengths\<close>

definition sc_buf_blob_len :: "nat \<Rightarrow> nat" where
  "sc_buf_blob_len len = add32 len 4"

definition sc_buf_str_len :: "cstring option \<Rightarrow> nat" where
  "sc_buf_str_len str = (case str of None \<Rightarrow> 4 | Some s \<Rightarrow> add32 5 (length s))"

section \<open>Invariant and abstraction\<close>

definition sc_buf_wf :: "sc_buf \<Rightarrow> bool" where
  "sc_buf_wf b \<longleftrightarrow>
     rpos b \<le> wpos b \<and> wpos b \<le> cap b \<and> cap b \<le> length (mem b) \<and> cap b < 2 ^ 32"

text \<open>What has been written, and what of it is still to be read.\<close>

definition sc_buf_contents :: "sc_buf \<Rightarrow> bytes" where
  "sc_buf_contents b = take (wpos b) (mem b)"

definition sc_buf_data :: "sc_buf \<Rightarrow> bytes" where
  "sc_buf_data b = drop (rpos b) (sc_buf_contents b)"

lemma sc_buf_wfD:
  assumes "sc_buf_wf b"
  shows "rpos b \<le> wpos b" "wpos b \<le> cap b" "cap b \<le> length (mem b)" "cap b < 2 ^ 32"
    "wpos b < 2 ^ 32" "rpos b < 2 ^ 32" "wpos b \<le> length (mem b)"
  using assms by (auto simp: sc_buf_wf_def)

lemma length_contents [simp]: "sc_buf_wf b \<Longrightarrow> length (sc_buf_contents b) = wpos b"
  by (simp add: sc_buf_contents_def sc_buf_wf_def)

lemma length_data: "sc_buf_wf b \<Longrightarrow> length (sc_buf_data b) = wpos b - rpos b"
  by (simp add: sc_buf_data_def)

lemma sc_buf_size_data: "sc_buf_wf b \<Longrightarrow> sc_buf_size b = length (sc_buf_data b)"
  using sc_buf_wfD [of b] by (simp add: sc_buf_size_def length_data)

lemma drop_mem_data:
  "sc_buf_wf b \<Longrightarrow> drop (rpos b) (mem b) = sc_buf_data b @ drop (wpos b) (mem b)"
  by (simp add: sc_buf_data_def sc_buf_contents_def sc_buf_wf_def)
     (metis append_take_drop_id drop_append length_take min.absorb2 le_trans diff_is_0_eq drop_0)

lemma wf_err [simp]: "sc_buf_wf (b\<lparr>err := e\<rparr>) = sc_buf_wf b"
  by (simp add: sc_buf_wf_def)

lemma contents_upd [simp]:
  "sc_buf_contents (b\<lparr>err := e\<rparr>) = sc_buf_contents b"
  "sc_buf_contents (b\<lparr>rpos := r\<rparr>) = sc_buf_contents b"
  by (simp_all add: sc_buf_contents_def)

lemma data_err [simp]: "sc_buf_data (b\<lparr>err := e\<rparr>) = sc_buf_data b"
  by (simp add: sc_buf_data_def)

lemma err_or_nonzero [simp]:
  "(e OR SC_BUF_OOM = 0) = False" "(e OR SC_BUF_CORRUPT = 0) = False"
  by (simp_all add: SC_BUF_OOM_def SC_BUF_CORRUPT_def or_eq_0_iff)

subsection \<open>Growth\<close>

text \<open>
  \<open>room b k n\<close>: \<open>k\<close> further writes of \<open>n\<close> bytes in all succeed, either within the capacity or,
  for a buffer that owns its memory, by growing: each growth rounds up to a multiple of 4096.
\<close>

definition room :: "sc_buf \<Rightarrow> nat \<Rightarrow> nat \<Rightarrow> bool" where
  "room b k n \<longleftrightarrow> err b = 0 \<and>
     (wpos b + n \<le> cap b \<or>
      (\<not> ref b \<and> cap b + n + 4096 * k \<le> limit b \<and> cap b + n + 4096 * k < SC_BUF_MAX - 4096))"

lemma round_4096_bounds:
  assumes "n + 4095 < 2 ^ 32"
  shows "n \<le> round_4096 n" "round_4096 n \<le> n + 4095"
  using assms div_mult_mod_eq [of "n + 4095" 4096] mod_less_divisor [of 4096 "n + 4095"]
  by (simp_all add: round_4096_def)

lemma round_4096_less: "round_4096 n < 2 ^ 32"
proof -
  have "add32 n 4095 < 2 ^ 32" by (simp add: add32_def)
  then show ?thesis unfolding round_4096_def
    using div_mult_mod_eq [of "add32 n 4095" 4096] by linarith
qed

text \<open>
  \<open>tame b k n\<close>: \<open>k\<close> further writes of \<open>n\<close> bytes in all keep the 32-bit arithmetic of
  \<^verbatim>\<open>sc_buf_reserve\<close> from wrapping around, whether or not they succeed.
\<close>

definition tame :: "sc_buf \<Rightarrow> nat \<Rightarrow> nat \<Rightarrow> bool" where
  "tame b k n \<longleftrightarrow> sc_buf_wf b \<and>
     (wpos b + n \<le> cap b \<or>
      (if ref b then wpos b + n < 2 ^ 32 else cap b + n + 4096 * k < 2 ^ 32))"

lemma room_tame: "sc_buf_wf b \<Longrightarrow> room b k n \<Longrightarrow> tame b k n"
  by (auto simp: room_def tame_def SC_BUF_MAX_def sc_buf_wf_def)

text \<open>
  \<open>emits j b b' xs\<close>: \<open>b'\<close> comes from \<open>b\<close> by \<open>j\<close> writes of the bytes \<open>xs\<close> in all. The error flag of
  \<open>b'\<close> is clear only if all of them were appended, and otherwise what had been written before
  is still there; with room for them they do succeed.
\<close>

definition emits :: "nat \<Rightarrow> sc_buf \<Rightarrow> sc_buf \<Rightarrow> bytes \<Rightarrow> bool" where
  "emits j b b' xs \<longleftrightarrow> (\<forall>k n. tame b (j + k) (length xs + n) \<longrightarrow>
     tame b' k n \<and> rpos b' = rpos b \<and> ref b' = ref b \<and> limit b' = limit b \<and>
     (ref b \<longrightarrow> cap b' = cap b \<and> length (mem b') = length (mem b)) \<and>
     (err b' = 0 \<longrightarrow> err b = 0 \<and> sc_buf_contents b' = sc_buf_contents b @ xs) \<and>
     (\<exists>zs. sc_buf_contents b' = sc_buf_contents b @ zs) \<and>
     (room b (j + k) (length xs + n) \<longrightarrow> room b' k n))"

lemma emits_refl: "emits 0 b b []"
  by (simp add: emits_def)

lemma emits_trans:
  assumes 1: "emits i a b xs" and 2: "emits j b c ys"
  shows "emits (i + j) a c (xs @ ys)"
  unfolding emits_def
proof (intro allI impI)
  fix k n
  assume t: "tame a (i + j + k) (length (xs @ ys) + n)"
  note A = 1 [unfolded emits_def, rule_format, of "j + k" "length ys + n"]
  have B: "tame b (j + k) (length ys + n)"
    using A t by (simp add: add.assoc)
  note C = 2 [unfolded emits_def, rule_format, OF B]
  show "tame c k n \<and> rpos c = rpos a \<and> ref c = ref a \<and> limit c = limit a \<and>
     (ref a \<longrightarrow> cap c = cap a \<and> length (mem c) = length (mem a)) \<and>
     (err c = 0 \<longrightarrow> err a = 0 \<and> sc_buf_contents c = sc_buf_contents a @ xs @ ys) \<and>
     (\<exists>zs. sc_buf_contents c = sc_buf_contents a @ zs) \<and>
     (room a (i + j + k) (length (xs @ ys) + n) \<longrightarrow> room c k n)"
    using A C t by (auto simp: add.assoc)
qed

lemma sc_buf_reserve_cases:
  assumes "tame b 1 n"
  obtains (fits) "wpos b + n \<le> cap b" "sc_buf_reserve b n = (True, b)"
  | (grow) "cap b < wpos b + n" "\<not> ref b" "cap b + n \<le> round_4096 (cap b + n)"
      "round_4096 (cap b + n) \<le> cap b + n + 4095" "round_4096 (cap b + n) \<le> limit b"
      "sc_buf_reserve b n = (True, b\<lparr>mem := take (round_4096 (cap b + n)) (mem b) @
         replicate (round_4096 (cap b + n) - length (mem b)) 0, cap := round_4096 (cap b + n)\<rparr>)"
  | (full) "cap b < wpos b + n" "\<not> room b 1 n"
      "sc_buf_reserve b n = (False, b\<lparr>err := err b OR SC_BUF_OOM\<rparr>)"
proof -
  have w: "sc_buf_wf b" and "wpos b + n < 2 ^ 32"
    and c: "\<not> ref b \<Longrightarrow> cap b < wpos b + n \<Longrightarrow> cap b + n + 4095 < 2 ^ 32"
    using assms by (auto simp: tame_def sc_buf_wf_def split: if_splits)
  then have [simp]: "add32 (wpos b) n = wpos b + n"
    and "\<not> ref b \<Longrightarrow> cap b < wpos b + n \<Longrightarrow> add32 (cap b) n = cap b + n" by simp_all
  note r = round_4096_bounds [OF c]
  show thesis
  proof (cases "wpos b + n \<le> cap b")
    case True
    then show ?thesis by (intro fits) (simp_all add: sc_buf_reserve_def)
  next
    case False
    show ?thesis
    proof (cases "ref b \<or> round_4096 (cap b + n) > limit b \<or> cap b \<ge> SC_BUF_MAX - 4096")
      case True
      have "\<not> room b 1 n" using True False r by (auto simp: room_def)
      then show ?thesis using True False c
        by (intro full) (auto simp: sc_buf_reserve_def)
    next
      case *: False
      then show ?thesis using False c r
        by (intro grow) (auto simp: sc_buf_reserve_def Let_def)
    qed
  qed
qed

subsection \<open>The one write all others are\<close>

definition append_bytes :: "sc_buf \<Rightarrow> bytes \<Rightarrow> sc_buf" where
  "append_bytes b xs =
     (let (ok, b1) = sc_buf_reserve b (length xs) in
      if \<not> ok then b1
      else if err b1 \<noteq> 0 \<or> wpos b1 + length xs > cap b1
      then b1\<lparr>err := err b1 OR SC_BUF_CORRUPT\<rparr>
      else b1\<lparr>mem := write_at (mem b1) (wpos b1) xs, wpos := wpos b1 + length xs\<rparr>)"

lemma emits_err:
  assumes "\<not> room b 1 (length xs)"
  shows "emits 1 b (b\<lparr>err := err b OR SC_BUF_OOM\<rparr>) xs" "emits 1 b (b\<lparr>err := err b OR SC_BUF_CORRUPT\<rparr>) xs"
  using assms by (auto simp: emits_def tame_def room_def)

lemma emits_write:
  assumes "err b = 0" "wpos b + length xs \<le> cap b"
  shows "emits 1 b (b\<lparr>mem := write_at (mem b) (wpos b) xs, wpos := wpos b + length xs\<rparr>) xs"
  using assms
  by (auto simp: emits_def tame_def room_def sc_buf_wf_def sc_buf_contents_def write_at_def
      split: if_splits)

lemma emits_grow:
  assumes "\<not> ref b" "cap b < wpos b + n" "cap b + n \<le> c" "c \<le> cap b + n + 4095" "length xs = n"
  shows "emits 1 b (b\<lparr>mem := m, cap := c,
      mem := write_at (take c (mem b) @ replicate (c - length (mem b)) 0) (wpos b) xs,
      wpos := wpos b + n\<rparr>) xs \<or> err b \<noteq> 0"
  using assms
  by (auto simp: emits_def tame_def room_def sc_buf_wf_def sc_buf_contents_def write_at_def
      min_def split: if_splits)

lemma emits_append_bytes: "emits 1 b (append_bytes b xs) xs"
proof (cases "tame b 1 (length xs)")
  case t: True
  then show ?thesis
  proof (cases rule: sc_buf_reserve_cases)
    case fits
    then show ?thesis
      using emits_write [of b xs] emits_err(2) [of b xs] by (auto simp: append_bytes_def room_def)
  next
    case grow
    show ?thesis
    proof (cases "err b = 0")
      case True
      have "wpos b + length xs \<le> round_4096 (cap b + length xs)"
        using grow t by (simp add: tame_def sc_buf_wf_def)
      then show ?thesis using emits_grow [OF grow(2,1,3,4) refl] grow True
        by (simp add: append_bytes_def)
    next
      case False
      then show ?thesis using grow
        by (auto simp: append_bytes_def emits_def tame_def room_def sc_buf_wf_def
            sc_buf_contents_def min_def)
    qed
  next
    case full
    then show ?thesis using emits_err(1) [of b xs] by (simp add: append_bytes_def)
  qed
next
  case False
  then show ?thesis by (auto simp: emits_def tame_def)
qed

lemma reserve_pos:
  assumes "tame b 1 n" "sc_buf_reserve b n = (ok, b1)"
  shows "wpos b1 = wpos b" "cap b1 < 2 ^ 32"
  using assms(1)
  by (cases rule: sc_buf_reserve_cases;
      use assms in \<open>auto simp: tame_def sc_buf_wf_def round_4096_less [simplified]\<close>)+

lemma reserve_add32:
  assumes "tame b 1 n"
  shows "add32 (wpos (snd (sc_buf_reserve b n))) 0 = wpos (snd (sc_buf_reserve b n))"
    "wpos (snd (sc_buf_reserve b n)) + m \<le> cap (snd (sc_buf_reserve b n)) \<Longrightarrow>
       add32 (wpos (snd (sc_buf_reserve b n))) m = wpos (snd (sc_buf_reserve b n)) + m"
proof -
  have "wpos b < 2 ^ 32" using assms by (auto simp: tame_def sc_buf_wf_def)
  then show "add32 (wpos (snd (sc_buf_reserve b n))) 0 = wpos (snd (sc_buf_reserve b n))"
    and "wpos (snd (sc_buf_reserve b n)) + m \<le> cap (snd (sc_buf_reserve b n)) \<Longrightarrow>
       add32 (wpos (snd (sc_buf_reserve b n))) m = wpos (snd (sc_buf_reserve b n)) + m"
    using reserve_pos [OF assms surjective_pairing] by simp_all
qed

lemma put_append_bytes:
  "tame b 1 1 \<Longrightarrow> sc_buf_put_8 b v8 = append_bytes b [v8]"
  "tame b 1 2 \<Longrightarrow> sc_buf_put_16 b v16 = append_bytes b (le16 v16)"
  "tame b 1 4 \<Longrightarrow> sc_buf_put_32 b v32 = append_bytes b (le32 v32)"
  "tame b 1 8 \<Longrightarrow> sc_buf_put_64 b v64 = append_bytes b (le64 v64)"
  subgoal using reserve_add32(1) [of b 1] reserve_add32(2) [of b 1 1]
    by (auto simp: sc_buf_put_8_def append_bytes_def sc_buf_set_8_pos_def split: prod.splits)
  subgoal using reserve_add32(1) [of b 2] reserve_add32(2) [of b 2 2]
    by (auto simp: sc_buf_put_16_def append_bytes_def sc_buf_set_16_pos_def split: prod.splits)
  subgoal using reserve_add32(1) [of b 4] reserve_add32(2) [of b 4 4]
    by (auto simp: sc_buf_put_32_def append_bytes_def sc_buf_set_32_pos_def split: prod.splits)
  subgoal using reserve_add32(1) [of b 8] reserve_add32(2) [of b 8 8]
    by (auto simp: sc_buf_put_64_def append_bytes_def sc_buf_set_64_pos_def split: prod.splits)
  done

lemma put_raw_append_bytes:
  assumes "tame b 1 (length xs)"
  shows "sc_buf_put_raw b xs = append_bytes b xs"
proof -
  obtain ok b1 where r: "sc_buf_reserve b (length xs) = (ok, b1)" by force
  have "wpos b + length xs < 2 ^ 32"
    using assms by (auto simp: tame_def sc_buf_wf_def split: if_splits)
  then show ?thesis
    using r reserve_pos [OF assms r]
    by (auto simp: sc_buf_put_raw_def append_bytes_def sc_buf_set_data_def)
qed

lemma tame_mono: "tame b k n \<Longrightarrow> j \<le> k \<Longrightarrow> m \<le> n \<Longrightarrow> tame b j m"
  by (auto simp: tame_def split: if_splits)

lemma emits_when_tame:
  assumes "tame b j (length xs) \<Longrightarrow> emits j b b' xs"
  shows "emits j b b' xs"
proof (cases "tame b j (length xs)")
  case False
  then have "\<not> tame b (j + k) (length xs + n)" for k n
    using tame_mono [of b "j + k" "length xs + n" j "length xs"] by auto
  then show ?thesis by (simp add: emits_def)
qed (rule assms)

lemma emits_raw: "emits 1 b (sc_buf_put_raw b xs) xs"
  by (rule emits_when_tame) (simp add: put_raw_append_bytes emits_append_bytes del: One_nat_def)

lemma emits_8: "emits 1 b (sc_buf_put_8 b v) [v]"
  by (rule emits_when_tame) (use put_append_bytes(1) [of b v] emits_append_bytes [of b "[v]"] in simp)

lemma emits_16: "emits 1 b (sc_buf_put_16 b v) (le16 v)"
  by (rule emits_when_tame) (simp add: put_append_bytes emits_append_bytes del: One_nat_def)

lemma emits_32: "emits 1 b (sc_buf_put_32 b v) (le32 v)"
  by (rule emits_when_tame) (simp add: put_append_bytes emits_append_bytes del: One_nat_def)

lemma emits_64: "emits 1 b (sc_buf_put_64 b v) (le64 v)"
  by (rule emits_when_tame) (simp add: put_append_bytes emits_append_bytes del: One_nat_def)

definition enc_str :: "cstring option \<Rightarrow> bytes" where
  "enc_str str = (case str of None \<Rightarrow> le32 (- 1) | Some s \<Rightarrow> le32 (word_of_nat (length s)) @ s @ [0])"

definition enc_blob :: "bytes \<Rightarrow> bytes" where
  "enc_blob xs = le32 (word_of_nat (length xs)) @ xs"

definition enc_bool :: "bool \<Rightarrow> bytes" where
  "enc_bool v = [if v then 1 else 0]"

lemma emits_mono: "emits i b b' xs \<Longrightarrow> i \<le> j \<Longrightarrow> emits j b b' xs"
  unfolding emits_def
proof (intro allI impI)
  fix k n
  assume e: "\<forall>k n. tame b (i + k) (length xs + n) \<longrightarrow>
     tame b' k n \<and> rpos b' = rpos b \<and> ref b' = ref b \<and> limit b' = limit b \<and>
     (ref b \<longrightarrow> cap b' = cap b \<and> length (mem b') = length (mem b)) \<and>
     (err b' = 0 \<longrightarrow> err b = 0 \<and> sc_buf_contents b' = sc_buf_contents b @ xs) \<and>
     (\<exists>zs. sc_buf_contents b' = sc_buf_contents b @ zs) \<and>
     (room b (i + k) (length xs + n) \<longrightarrow> room b' k n)"
    and ij: "i \<le> j" and t: "tame b (j + k) (length xs + n)"
  have "tame b (i + k) (length xs + n)" using t ij by (auto simp: tame_def split: if_splits)
  moreover have "room b (j + k) (length xs + n) \<Longrightarrow> room b (i + k) (length xs + n)"
    using ij by (auto simp: room_def)
  ultimately show "tame b' k n \<and> rpos b' = rpos b \<and> ref b' = ref b \<and> limit b' = limit b \<and>
     (ref b \<longrightarrow> cap b' = cap b \<and> length (mem b') = length (mem b)) \<and>
     (err b' = 0 \<longrightarrow> err b = 0 \<and> sc_buf_contents b' = sc_buf_contents b @ xs) \<and>
     (\<exists>zs. sc_buf_contents b' = sc_buf_contents b @ zs) \<and>
     (room b (j + k) (length xs + n) \<longrightarrow> room b' k n)"
    using e by blast
qed

lemma emits_bool: "emits 1 b (sc_buf_put_bool b v) (enc_bool v)"
  by (simp add: sc_buf_put_bool_def enc_bool_def emits_8 del: One_nat_def)

lemma emits_str:
  assumes "\<forall>s. str = Some s \<longrightarrow> length s < UINT32_MAX"
  shows "emits 2 b (sc_buf_put_str b str) (enc_str str)"
proof (cases str)
  case None
  then show ?thesis
    using emits_mono [OF emits_32] by (simp add: sc_buf_put_str_def enc_str_def)
next
  case (Some s)
  then show ?thesis
    using assms emits_trans [OF emits_32 emits_raw, of b _ "s @ [0]"]
    by (auto simp: sc_buf_put_str_def enc_str_def numeral_2_eq_2)
qed

lemma emits_blob: "emits 2 b (sc_buf_put_blob b xs) (enc_blob xs)"
  using emits_trans [OF emits_32 emits_raw, of b _ xs]
  by (auto simp: sc_buf_put_blob_def enc_blob_def numeral_2_eq_2)

lemma emits_str_len: "emits 3 b (sc_buf_put_str_len b (Some s)) (enc_str (Some s))"
  using emits_trans [OF emits_trans [OF emits_32 emits_raw] emits_8, of b _ s 0]
  by (simp add: sc_buf_put_str_len_def enc_str_def eval_nat_numeral)

section \<open>Reading back\<close>

text \<open>Every read of a well-formed item only moves the read cursor.\<close>

definition adv :: "sc_buf \<Rightarrow> nat \<Rightarrow> sc_buf" where
  "adv b n = b\<lparr>rpos := rpos b + n\<rparr>"

lemma adv_simps [buf_simps]:
  "err (adv b n) = err b" "wpos (adv b n) = wpos b" "cap (adv b n) = cap b" "ref (adv b n) = ref b"
  "mem (adv b n) = mem b" "rpos (adv b n) = rpos b + n" "limit (adv b n) = limit b"
  "adv (adv b m) n = adv b (m + n)"
  by (simp_all add: adv_def add.assoc)

lemma adv_0 [simp]: "adv b 0 = b"
  by (simp add: adv_def)

lemma data_adv [buf_simps]: "sc_buf_data (adv b n) = drop n (sc_buf_data b)"
  by (simp add: sc_buf_data_def adv_def add.commute)

lemma wf_adv [buf_simps]:
  "sc_buf_wf b \<Longrightarrow> n \<le> length (sc_buf_data b) \<Longrightarrow> sc_buf_wf (adv b n)"
  by (auto simp: adv_def sc_buf_wf_def length_data)

lemma contents_adv [buf_simps]: "sc_buf_contents (adv b n) = sc_buf_contents b"
  by (simp add: adv_def)

lemma take_data_slice:
  "sc_buf_wf b \<Longrightarrow> n \<le> length (sc_buf_data b) \<Longrightarrow> slice (mem b) (rpos b) n = take n (sc_buf_data b)"
  by (simp add: slice_def drop_mem_data)

lemma de16_append: "length xs \<ge> 2 \<Longrightarrow> de16 (xs @ ys) = de16 xs"
  by (auto simp: de16_def nth_append)

lemma de32_append: "length xs \<ge> 4 \<Longrightarrow> de32 (xs @ ys) = de32 xs"
  by (auto simp: de32_def nth_append)

lemma de64_append: "length xs \<ge> 8 \<Longrightarrow> de64 (xs @ ys) = de64 xs"
  by (auto simp: de64_def nth_append)

lemma get_fixed:
  assumes "sc_buf_wf b"
  shows "1 \<le> length (sc_buf_data b) \<Longrightarrow> sc_buf_get_8 b = (hd (sc_buf_data b), adv b 1)"
    "2 \<le> length (sc_buf_data b) \<Longrightarrow> sc_buf_get_16 b = (de16 (sc_buf_data b), adv b 2)"
    "4 \<le> length (sc_buf_data b) \<Longrightarrow> sc_buf_get_32 b = (de32 (sc_buf_data b), adv b 4)"
    "8 \<le> length (sc_buf_data b) \<Longrightarrow> sc_buf_get_64 b = (de64 (sc_buf_data b), adv b 8)"
proof -
  note w = sc_buf_wfD [OF assms] length_data [OF assms]
  note d = drop_mem_data [OF assms]
  have h: "1 \<le> length (sc_buf_data b) \<Longrightarrow> mem b ! rpos b = hd (sc_buf_data b)"
  proof -
    assume "1 \<le> length (sc_buf_data b)"
    then have "sc_buf_data b \<noteq> []" "rpos b < length (mem b)" using w by auto
    then show ?thesis using hd_drop_conv_nth [of "rpos b" "mem b"] d by simp
  qed
  show "1 \<le> length (sc_buf_data b) \<Longrightarrow> sc_buf_get_8 b = (hd (sc_buf_data b), adv b 1)"
    using h w by (auto simp: sc_buf_get_8_def sc_buf_peek_8_pos_def adv_def)
  show "2 \<le> length (sc_buf_data b) \<Longrightarrow> sc_buf_get_16 b = (de16 (sc_buf_data b), adv b 2)"
    using w by (auto simp: sc_buf_get_16_def sc_buf_peek_16_pos_def adv_def d de16_append)
  show "4 \<le> length (sc_buf_data b) \<Longrightarrow> sc_buf_get_32 b = (de32 (sc_buf_data b), adv b 4)"
    using w by (auto simp: sc_buf_get_32_def sc_buf_peek_32_pos_def adv_def d de32_append)
  show "8 \<le> length (sc_buf_data b) \<Longrightarrow> sc_buf_get_64 b = (de64 (sc_buf_data b), adv b 8)"
    using w by (auto simp: sc_buf_get_64_def sc_buf_peek_64_pos_def adv_def d de64_append)
qed

lemma get_bool:
  "sc_buf_wf b \<Longrightarrow> 1 \<le> length (sc_buf_data b) \<Longrightarrow>
     sc_buf_get_bool b = (hd (sc_buf_data b) \<noteq> 0, adv b 1)"
  by (simp add: sc_buf_get_bool_def get_fixed del: One_nat_def)

lemma get_blob:
  assumes "sc_buf_wf b" "n \<le> length (sc_buf_data b)"
  shows "sc_buf_get_blob b n = (if n = 0 then None else Some (take n (sc_buf_data b)), adv b n)"
  using sc_buf_wfD [OF assms(1)] assms
  by (auto simp: sc_buf_get_blob_def adv_def length_data take_data_slice)

lemma get_data:
  assumes "sc_buf_wf b" "err b = 0" "n \<le> length (sc_buf_data b)"
  shows "sc_buf_get_data b n = (take n (sc_buf_data b), adv b n)"
  using sc_buf_wfD [OF assms(1)] assms
  by (auto simp: sc_buf_get_data_def sc_buf_peek_data_def adv_def length_data take_data_slice)

definition str_ok :: "cstring option \<Rightarrow> bool" where
  "str_ok str = (case str of None \<Rightarrow> True | Some s \<Rightarrow> length s < UINT32_MAX \<and> 0 \<notin> set s)"

lemma get_str:
  assumes w: "sc_buf_wf b" and d: "sc_buf_data b = enc_str str @ rest" and ok: "str_ok str"
  shows "sc_buf_get_str b = (str, adv b (length (enc_str str)))"
proof (cases str)
  case None
  then show ?thesis
    using get_fixed(3) [OF w] d by (simp add: enc_str_def sc_buf_get_str_def sc_buf_get_str_pos_def)
next
  case (Some s)
  have g: "sc_buf_get_32 b = (word_of_nat (length s), adv b 4)"
    using get_fixed(3) [OF w] d Some by (simp add: enc_str_def)
  have n: "length s < UINT32_MAX" and z: "0 \<notin> set s" using ok Some by (simp_all add: str_ok_def)
  then have u: "unat (word_of_nat (length s) :: u32) = length s"
    by simp
  have m: "(word_of_nat (length s) :: u32) \<noteq> - 1"
  proof
    assume "(word_of_nat (length s) :: u32) = - 1"
    then have "length s = unat (- 1 :: u32)" using u by simp
    then show False using n by (simp add: unsigned_minus_1_eq_mask mask_eq_exp_minus_1)
  qed
  have l: "rpos b + 4 + length s + 1 \<le> wpos b"
    using length_data [OF w] d Some sc_buf_wfD(1) [OF w] by (simp add: enc_str_def)
  have "drop (rpos b + 4) (mem b) = s @ [0] @ rest @ drop (wpos b) (mem b)"
    using drop_mem_data [OF w] d Some
    by (simp add: enc_str_def add.commute [of _ 4] flip: drop_drop)
  then have c: "cstr_at (mem b) (rpos b + 4) = s"
    using cstr_at_terminated [OF z] by simp
  show ?thesis
    using g u m l c n sc_buf_wfD(5) [OF w] Some
    by (simp add: sc_buf_get_str_def sc_buf_get_str_pos_def enc_str_def adv_def)
qed

section \<open>The codec contract\<close>

fun get_all :: "('a \<Rightarrow> sc_buf \<Rightarrow> 'a \<times> sc_buf) \<Rightarrow> 'a list \<Rightarrow> sc_buf \<Rightarrow> 'a list \<times> sc_buf" where
  "get_all get [] b = ([], b)"
| "get_all get (v # vs) b =
     (let (x, b1) = get v b; (xs, b2) = get_all get vs b1 in (x # xs, b2))"

text \<open>
  An item type of the wire format: \<open>put\<close> appends the image \<open>enc v\<close> in at most \<open>writes\<close> writes,
  and \<open>get\<close> takes it off the front of the unread data. The first argument of \<open>get\<close> tells the
  kind of item to read, where the type has several.
\<close>

locale buf_item =
  fixes enc :: "'a \<Rightarrow> bytes"
    and ok :: "'a \<Rightarrow> bool"
    and writes :: nat
    and put :: "sc_buf \<Rightarrow> 'a \<Rightarrow> sc_buf"
    and get :: "'a \<Rightarrow> sc_buf \<Rightarrow> 'a \<times> sc_buf"
  assumes put_emits: "ok v \<Longrightarrow> emits writes b (put b v) (enc v)"
    and get_enc: "ok v \<Longrightarrow> sc_buf_wf b \<Longrightarrow> err b = 0 \<Longrightarrow> sc_buf_data b = enc v @ rest \<Longrightarrow>
       get v b = (v, adv b (length (enc v)))"
begin

lemma emits_foldl:
  assumes "\<forall>v \<in> set vs. ok v"
  shows "emits (writes * length vs) b (foldl put b vs) (concat (map enc vs))"
  using assms
proof (induction vs arbitrary: b)
  case Nil
  then show ?case by (simp add: emits_refl)
next
  case (Cons v vs)
  then show ?case using emits_trans [OF put_emits [of v b] Cons.IH] by simp
qed

lemma get_all_enc:
  assumes "\<forall>v \<in> set vs. ok v" "sc_buf_wf b" "err b = 0" "sc_buf_data b = concat (map enc vs) @ rest"
  shows "get_all get vs b = (vs, adv b (length (concat (map enc vs))))"
  using assms
proof (induction vs arbitrary: b)
  case Nil
  then show ?case by simp
next
  case (Cons v vs)
  then have g: "get v b = (v, adv b (length (enc v)))"
    using get_enc [of v b "concat (map enc vs) @ rest"] by simp
  have "get_all get vs (adv b (length (enc v))) =
      (vs, adv (adv b (length (enc v))) (length (concat (map enc vs))))"
    using Cons.prems by (intro Cons.IH) (simp_all add: buf_simps)
  then show ?case using g by (simp add: buf_simps)
qed

lemma fifo:
  assumes "\<forall>v \<in> set vs. ok v"
    and "tame b (writes * length vs) (length (concat (map enc vs)))"
    and "room b (writes * length vs) (length (concat (map enc vs)))"
    and "sc_buf_data b = []"
  shows "fst (get_all get vs (foldl put b vs)) = vs"
    "sc_buf_data (snd (get_all get vs (foldl put b vs))) = []"
    "sc_buf_valid (foldl put b vs)"
proof -
  let ?b = "foldl put b vs"
  have e: "tame ?b 0 0" "room ?b 0 0" "rpos ?b = rpos b"
    "err ?b = 0 \<Longrightarrow> sc_buf_contents ?b = sc_buf_contents b @ concat (map enc vs)"
    using emits_foldl [OF assms(1), unfolded emits_def, rule_format, of b 0 0] assms(2,3) by simp_all
  then have v: "err ?b = 0" by (simp add: room_def)
  have "rpos b = wpos b"
    using assms(2,4) length_data [of b] by (simp add: tame_def sc_buf_wf_def)
  then have d: "sc_buf_data ?b = concat (map enc vs)"
    using e v assms(2) by (simp add: sc_buf_data_def tame_def)
  have w: "sc_buf_wf ?b" using e(1) by (simp add: tame_def)
  have "get_all get vs ?b = (vs, adv ?b (length (concat (map enc vs))))"
    using get_all_enc [OF assms(1) w v, of "[]"] d by simp
  then show "fst (get_all get vs ?b) = vs" "sc_buf_data (snd (get_all get vs ?b)) = []"
    "sc_buf_valid ?b"
    using d v by (simp_all add: buf_simps sc_buf_valid_def)
qed

end

text \<open>The wire format's item types.\<close>

datatype field =
    F8 u8 | F16 u16 | F32 u32 | F64 u64 | FBool bool | FDouble u64
  | FStr "cstring option" | FBlob bytes | FRaw bytes

fun enc_field :: "field \<Rightarrow> bytes" where
  "enc_field (F8 v) = [v]"
| "enc_field (F16 v) = le16 v"
| "enc_field (F32 v) = le32 v"
| "enc_field (F64 v) = le64 v"
| "enc_field (FBool v) = enc_bool v"
| "enc_field (FDouble v) = le64 v"
| "enc_field (FStr v) = enc_str v"
| "enc_field (FBlob v) = enc_blob v"
| "enc_field (FRaw v) = v"

fun field_ok :: "field \<Rightarrow> bool" where
  "field_ok (FStr v) = str_ok v"
| "field_ok (FBlob v) = (v \<noteq> [] \<and> length v < 2 ^ 32)"
| "field_ok _ = True"

fun put_field :: "sc_buf \<Rightarrow> field \<Rightarrow> sc_buf" where
  "put_field b (F8 v) = sc_buf_put_8 b v"
| "put_field b (F16 v) = sc_buf_put_16 b v"
| "put_field b (F32 v) = sc_buf_put_32 b v"
| "put_field b (F64 v) = sc_buf_put_64 b v"
| "put_field b (FBool v) = sc_buf_put_bool b v"
| "put_field b (FDouble v) = sc_buf_put_double b v"
| "put_field b (FStr v) = sc_buf_put_str b v"
| "put_field b (FBlob v) = sc_buf_put_blob b v"
| "put_field b (FRaw v) = sc_buf_put_raw b v"

fun get_field :: "field \<Rightarrow> sc_buf \<Rightarrow> field \<times> sc_buf" where
  "get_field (F8 _) b = map_prod F8 id (sc_buf_get_8 b)"
| "get_field (F16 _) b = map_prod F16 id (sc_buf_get_16 b)"
| "get_field (F32 _) b = map_prod F32 id (sc_buf_get_32 b)"
| "get_field (F64 _) b = map_prod F64 id (sc_buf_get_64 b)"
| "get_field (FBool _) b = map_prod FBool id (sc_buf_get_bool b)"
| "get_field (FDouble _) b = map_prod FDouble id (sc_buf_get_double b)"
| "get_field (FStr _) b = map_prod FStr id (sc_buf_get_str b)"
| "get_field (FBlob _) b =
     (let (len, b1) = sc_buf_get_32 b; (v, b2) = sc_buf_get_blob b1 (unat len)
      in (FBlob (the_default [] v), b2))"
| "get_field (FRaw v) b = map_prod FRaw id (sc_buf_get_data b (length v))"

interpretation field: buf_item enc_field field_ok 2 put_field get_field
proof
  fix v b
  assume "field_ok v"
  then show "emits 2 b (put_field b v) (enc_field v)"
    by (cases v)
       (auto simp: str_ok_def sc_buf_put_double_def emits_blob split: option.splits
         intro: emits_mono [OF emits_8] emits_mono [OF emits_16] emits_mono [OF emits_32]
           emits_mono [OF emits_64] emits_mono [OF emits_bool] emits_mono [OF emits_raw] emits_str)
next
  fix v b rest
  assume "field_ok v" "sc_buf_wf b" "err b = 0" "sc_buf_data b = enc_field v @ rest"
  then show "get_field v b = (v, adv b (length (enc_field v)))"
    by (cases v)
       (simp_all add: get_fixed get_bool get_str [of b _ rest] get_data get_blob buf_simps
         sc_buf_get_double_def enc_bool_def enc_blob_def)
qed

section \<open>Arbitrary input\<close>

text \<open>
  Reading never leaves the buffer, whatever bytes it holds: the read cursor stays at or before
  the write cursor, nothing is modified, and an error once raised stays.
\<close>

definition read_step :: "sc_buf \<Rightarrow> sc_buf \<Rightarrow> bool" where
  "read_step b b' \<longleftrightarrow> sc_buf_wf b' \<and> mem b' = mem b \<and> wpos b' = wpos b \<and> cap b' = cap b \<and>
     ref b' = ref b \<and> limit b' = limit b \<and> (err b \<noteq> 0 \<longrightarrow> err b' \<noteq> 0)"

lemma read_step_trans [trans]: "read_step a b \<Longrightarrow> read_step b c \<Longrightarrow> read_step a c"
  by (auto simp: read_step_def)

lemma read_step_get [intro]:
  assumes "sc_buf_wf b"
  shows "read_step b (snd (sc_buf_get_8 b))" "read_step b (snd (sc_buf_get_16 b))"
    "read_step b (snd (sc_buf_get_32 b))" "read_step b (snd (sc_buf_get_64 b))"
  using sc_buf_wfD [OF assms] assms
  by (auto simp: read_step_def sc_buf_get_8_def sc_buf_get_16_def sc_buf_get_32_def
      sc_buf_get_64_def sc_buf_peek_8_pos_def sc_buf_peek_16_pos_def sc_buf_peek_32_pos_def
      sc_buf_peek_64_pos_def sc_buf_wf_def)

lemma read_step_bool: "sc_buf_wf b \<Longrightarrow> read_step b (snd (sc_buf_get_bool b))"
  using read_step_get(1) [of b] by (auto simp: sc_buf_get_bool_def split: prod.splits)

lemma add32_assoc: "add32 (add32 a b) c = add32 a (add32 b c)"
  by (simp add: add32_def mod_simps add.assoc)

lemma read_step_str_pos: "sc_buf_wf b \<Longrightarrow> read_step b (snd (sc_buf_get_str_pos b))"
  using read_step_get(3) [of b]
  by (auto simp: sc_buf_get_str_pos_def read_step_def sc_buf_wf_def add32_assoc
      split: prod.splits if_splits)

lemma read_step_str: "sc_buf_wf b \<Longrightarrow> read_step b (snd (sc_buf_get_str b))"
  using read_step_str_pos [of b] by (auto simp: sc_buf_get_str_def split: prod.splits)

lemma read_step_blob: "sc_buf_wf b \<Longrightarrow> read_step b (snd (sc_buf_get_blob b n))"
  by (auto simp: sc_buf_get_blob_def read_step_def sc_buf_wf_def)

lemma read_step_data: "sc_buf_wf b \<Longrightarrow> read_step b (snd (sc_buf_get_data b n))"
  by (auto simp: sc_buf_get_data_def sc_buf_peek_data_def read_step_def sc_buf_wf_def)

lemma read_step_field: "sc_buf_wf b \<Longrightarrow> read_step b (snd (get_field f b))"
proof (cases f)
  case (FBlob x)
  assume w: "sc_buf_wf b"
  obtain len b1 where g: "sc_buf_get_32 b = (len, b1)" by force
  then have r: "read_step b b1" using read_step_get(3) [OF w] by simp
  then have "read_step b1 (snd (sc_buf_get_blob b1 (unat len)))"
    by (intro read_step_blob) (simp add: read_step_def)
  then show ?thesis using read_step_trans [OF r] g FBlob by (auto split: prod.splits)
qed (use read_step_get [of b] read_step_bool [of b] read_step_str [of b] read_step_data [of b]
     in \<open>auto simp: sc_buf_get_double_def\<close>)

lemma read_step_get_all: "sc_buf_wf b \<Longrightarrow> read_step b (snd (get_all get_field fs b))"
proof (induction fs arbitrary: b)
  case Nil
  then show ?case by (simp add: read_step_def)
next
  case (Cons f fs)
  obtain x b1 where g: "get_field f b = (x, b1)" by force
  then have r: "read_step b b1" using read_step_field [OF Cons.prems, of f] by simp
  then have "read_step b1 (snd (get_all get_field fs b1))"
    by (intro Cons.IH) (simp add: read_step_def)
  then show ?case using read_step_trans [OF r] g by (auto split: prod.splits)
qed

section \<open>Compaction\<close>

lemma compact_eq:
  assumes "sc_buf_wf b"
  obtains m where
    "sc_buf_compact b = b\<lparr>mem := m, rpos := 0, wpos := length (sc_buf_data b)\<rparr>"
    "length m = length (mem b)" "take (length (sc_buf_data b)) m = sc_buf_data b"
proof (cases "rpos b = wpos b")
  case True
  then have "sc_buf_data b = []" using length_data [OF assms] by simp
  then show ?thesis using that [of "mem b"] True by (simp add: sc_buf_compact_def)
next
  case False
  note w = sc_buf_wfD [OF assms] and l = length_data [OF assms]
  have s: "slice (mem b) (rpos b) (wpos b - rpos b) = sc_buf_data b"
    using take_data_slice [OF assms, of "wpos b - rpos b"] l by simp
  show ?thesis
  proof (cases "rpos b = 0")
    case True
    have "take (wpos b) (mem b) = sc_buf_data b" using s True by (simp add: slice_def)
    moreover have "b = b\<lparr>mem := mem b, rpos := 0, wpos := wpos b\<rparr>" using True by simp
    ultimately show ?thesis
      using that [of "mem b"] True False l by (simp add: sc_buf_compact_def)
  next
    case 2: False
    then show ?thesis
      using that [of "write_at (mem b) 0 (sc_buf_data b)"] False w l s
      by (simp add: sc_buf_compact_def write_at_def Let_def)
  qed
qed

lemma compact_data:
  assumes "sc_buf_wf b"
  shows "sc_buf_data (sc_buf_compact b) = sc_buf_data b" "rpos (sc_buf_compact b) = 0"
    "wpos (sc_buf_compact b) = length (sc_buf_data b)" "cap (sc_buf_compact b) = cap b"
    "err (sc_buf_compact b) = err b" "sc_buf_wf (sc_buf_compact b)"
    "ref (sc_buf_compact b) = ref b" "limit (sc_buf_compact b) = limit b"
proof -
  obtain m where m: "sc_buf_compact b = b\<lparr>mem := m, rpos := 0, wpos := length (sc_buf_data b)\<rparr>"
    "length m = length (mem b)" "take (length (sc_buf_data b)) m = sc_buf_data b"
    by (rule compact_eq [OF assms])
  show "sc_buf_data (sc_buf_compact b) = sc_buf_data b"
    unfolding m(1) sc_buf_data_def [of "b\<lparr>mem := _, rpos := _, wpos := _\<rparr>"]
    using m(3) by (simp add: sc_buf_contents_def)
  show "sc_buf_wf (sc_buf_compact b)"
    using sc_buf_wfD [OF assms] length_data [OF assms] by (simp add: m(1,2) sc_buf_wf_def)
  show "rpos (sc_buf_compact b) = 0" "wpos (sc_buf_compact b) = length (sc_buf_data b)"
    "cap (sc_buf_compact b) = cap b" "err (sc_buf_compact b) = err b"
    "ref (sc_buf_compact b) = ref b" "limit (sc_buf_compact b) = limit b"
    by (simp_all add: m(1))
qed

lemma shrink_data:
  assumes "sc_buf_wf b" "n + 4095 < 2 ^ 32"
  shows "sc_buf_data (snd (sc_buf_shrink b n)) = sc_buf_data b"
    "sc_buf_wf (snd (sc_buf_shrink b n))"
proof -
  let ?c = "sc_buf_compact b"
  note r = round_4096_bounds [OF assms(2)] and c = compact_data [OF assms(1)]
  note w = sc_buf_wfD [OF c(6)]
  consider "snd (sc_buf_shrink b n) = ?c"
    | "wpos ?c < n" "snd (sc_buf_shrink b n) = ?c\<lparr>mem := take (round_4096 n) (mem ?c) @
        replicate (round_4096 n - length (mem ?c)) 0, cap := round_4096 n\<rparr>"
    by (cases "n > cap ?c \<or> n \<le> wpos ?c") (auto simp: sc_buf_shrink_def Let_def)
  then have "sc_buf_data (snd (sc_buf_shrink b n)) = sc_buf_data b \<and>
    sc_buf_wf (snd (sc_buf_shrink b n))"
  proof cases
    case 1
    then show ?thesis using c by simp
  next
    case 2
    have "wpos ?c \<le> round_4096 n" using 2(1) r(1) by simp
    then have "sc_buf_data (snd (sc_buf_shrink b n)) = sc_buf_data b"
      using 2(2) w c(1) by (simp add: sc_buf_data_def sc_buf_contents_def min_def)
    moreover have "sc_buf_wf (snd (sc_buf_shrink b n))"
      using 2 w r round_4096_less [of n] by (simp add: sc_buf_wf_def)
    ultimately show ?thesis by simp
  qed
  then show "sc_buf_data (snd (sc_buf_shrink b n)) = sc_buf_data b"
    "sc_buf_wf (snd (sc_buf_shrink b n))" by simp_all
qed

section \<open>Moving between buffers\<close>

lemma emits_data:
  assumes "emits j b b' xs" "tame b j (length xs)" "err b' = 0"
  shows "sc_buf_data b' = sc_buf_data b @ xs" "sc_buf_wf b'" "err b = 0" "rpos b' = rpos b"
    "sc_buf_contents b' = sc_buf_contents b @ xs" "wpos b' = wpos b + length xs" "ref b' = ref b"
    "ref b \<Longrightarrow> cap b' = cap b" "ref b \<Longrightarrow> length (mem b') = length (mem b)" "limit b' = limit b"
proof -
  have e: "tame b' 0 0" "rpos b' = rpos b" "sc_buf_contents b' = sc_buf_contents b @ xs"
    "err b = 0" "ref b' = ref b" "ref b \<Longrightarrow> cap b' = cap b" "limit b' = limit b"
    "ref b \<Longrightarrow> length (mem b') = length (mem b)"
    using assms(1) [unfolded emits_def, rule_format, of 0 0] assms(2,3) by simp_all
  have w: "sc_buf_wf b" "sc_buf_wf b'" using e(1) assms(2) by (simp_all add: tame_def)
  show "sc_buf_wf b'" "err b = 0" "rpos b' = rpos b" "ref b' = ref b" "limit b' = limit b"
    "sc_buf_contents b' = sc_buf_contents b @ xs" "ref b \<Longrightarrow> cap b' = cap b"
    "ref b \<Longrightarrow> length (mem b') = length (mem b)"
    using e w by simp_all
  show "sc_buf_data b' = sc_buf_data b @ xs"
    using e w sc_buf_wfD(1) [OF w(1)] by (simp add: sc_buf_data_def)
  show "wpos b' = wpos b + length xs"
    using e(3) length_contents [OF w(1)] length_contents [OF w(2)]
    by (metis length_append)
qed

lemma emits_room:
  assumes "emits j b b' xs" "tame b j (length xs)" "room b j (length xs)"
  shows "err b' = 0"
  using assms(1) [unfolded emits_def, rule_format, of 0 0] assms(2,3) by (simp add: room_def)

text \<open>
  \<^verbatim>\<open>sc_buf_move\<close> never grows the destination: it moves as many bytes as fit. No byte is
  lost or duplicated.
\<close>

lemma move_data:
  fixes dest src :: sc_buf
  assumes w: "sc_buf_wf dest" "sc_buf_wf src" and e: "err dest = 0"
  defines "n \<equiv> min (cap dest - wpos dest) (length (sc_buf_data src))"
  shows "sc_buf_data (fst (sc_buf_move dest src)) = sc_buf_data dest @ take n (sc_buf_data src)"
    "sc_buf_data (snd (sc_buf_move dest src)) = drop n (sc_buf_data src)"
    "cap (fst (sc_buf_move dest src)) = cap dest" "err (fst (sc_buf_move dest src)) = 0"
proof -
  note wd = sc_buf_wfD [OF w(1)] and ws = sc_buf_wfD [OF w(2)]
  have c: "(if sc_buf_quota dest < sc_buf_size src then sc_buf_quota dest else sc_buf_size src) = n"
    using wd sc_buf_size_data [OF w(2)] by (auto simp: n_def sc_buf_quota_def)
  have n: "n \<le> length (sc_buf_data src)" "wpos dest + n \<le> cap dest" "rpos src + n < 2 ^ 32"
    using wd ws length_data [OF w(2)] by (auto simp: n_def)
  have s: "slice (mem src) (rpos src) n = take n (sc_buf_data src)"
    by (rule take_data_slice [OF w(2) n(1)])
  have m: "sc_buf_move dest src =
      (dest\<lparr>mem := write_at (mem dest) (wpos dest) (take n (sc_buf_data src)), wpos := wpos dest + n\<rparr>,
       adv src n)"
    using n wd e
    by (simp add: sc_buf_move_def c s adv_def sc_buf_put_raw_def sc_buf_reserve_def sc_buf_set_data_def)
  have "take (wpos dest + n) (write_at (mem dest) (wpos dest) (take n (sc_buf_data src))) =
      take (wpos dest) (mem dest) @ take n (sc_buf_data src)"
    using n wd by (simp add: write_at_def min_def)
  then show "sc_buf_data (fst (sc_buf_move dest src)) = sc_buf_data dest @ take n (sc_buf_data src)"
    using wd by (simp add: m sc_buf_data_def sc_buf_contents_def)
  show "sc_buf_data (snd (sc_buf_move dest src)) = drop n (sc_buf_data src)"
    by (simp add: m buf_simps)
  show "cap (fst (sc_buf_move dest src)) = cap dest" "err (fst (sc_buf_move dest src)) = 0"
    using e by (simp_all add: m)
qed

section \<open>Reserving and patching\<close>

lemma reserve_room:
  assumes "tame b 1 n" "room b 1 n"
  obtains b1 where "sc_buf_reserve b n = (True, b1)" "wpos b1 = wpos b" "rpos b1 = rpos b"
    "ref b1 = ref b" "limit b1 = limit b" "err b1 = 0" "sc_buf_contents b1 = sc_buf_contents b"
    "wpos b + n \<le> cap b1" "sc_buf_wf b1" "ref b \<Longrightarrow> b1 = b"
  using assms(1)
proof (cases rule: sc_buf_reserve_cases)
  case fits
  then show ?thesis using that [of b] assms by (simp add: room_def tame_def)
next
  case grow
  let ?c = "round_4096 (cap b + n)"
  have w: "sc_buf_wf b" using assms(1) by (simp add: tame_def)
  show ?thesis
    using that [OF grow(6)] grow sc_buf_wfD [OF w] assms(2) round_4096_less [of "cap b + n"]
    by (simp add: room_def sc_buf_contents_def sc_buf_wf_def min_def)
next
  case full
  then show ?thesis using assms(2) by simp
qed

lemma set_32_at_ok:
  assumes "sc_buf_wf b" "err b = 0" "pos + 4 \<le> wpos b"
  shows "sc_buf_set_32_at b pos v = b\<lparr>mem := write_at (mem b) pos (le32 v)\<rparr>"
    "sc_buf_wf (sc_buf_set_32_at b pos v)"
    "sc_buf_contents (sc_buf_set_32_at b pos v) = write_at (sc_buf_contents b) pos (le32 v)"
  using assms
  by (simp_all add: sc_buf_set_32_at_def sc_buf_set_32_pos_def sc_buf_wf_def sc_buf_contents_def
      write_at_def drop_take min_def)

lemma peek_32_ok:
  assumes "sc_buf_wf b" "4 \<le> length (sc_buf_data b)"
  shows "sc_buf_peek_32 b = (de32 (sc_buf_data b), b)"
  using sc_buf_wfD [OF assms(1)] length_data [OF assms(1)] drop_mem_data [OF assms(1)] assms(2)
  by (auto simp: sc_buf_peek_32_def sc_buf_peek_32_at_def sc_buf_peek_32_pos_def de32_append)

lemma peek_32_short:
  assumes "sc_buf_wf b" "length (sc_buf_data b) < 4"
  shows "sc_buf_peek_32 b = (0, b\<lparr>err := err b OR SC_BUF_CORRUPT\<rparr>)"
  using sc_buf_wfD [OF assms(1)] length_data [OF assms(1)] assms(2)
  by (auto simp: sc_buf_peek_32_def sc_buf_peek_32_at_def sc_buf_peek_32_pos_def)

section \<open>Properties\<close>

text \<open>
  C13: A buffer is a FIFO of typed items. Whatever sequence of integers, booleans, strings, blobs
  and raw bytes is written to a drained buffer with room for it, reading items of the same
  kinds yields the values in order, drains the buffer again, and no write fails.
\<close>

theorem sc_buf_fifo:
  assumes "\<forall>v \<in> set vs. field_ok v"
    and "tame b (2 * length vs) (length (concat (map enc_field vs)))"
    and "room b (2 * length vs) (length (concat (map enc_field vs)))"
    and "sc_buf_data b = []"
  shows "fst (get_all get_field vs (foldl put_field b vs)) = vs \<and>
     sc_buf_data (snd (get_all get_field vs (foldl put_field b vs))) = [] \<and>
     sc_buf_valid (foldl put_field b vs)"
  using field.fifo [OF assms] by blast

theorem sc_buf_fifo_witness:
  "fst (get_all get_field [F32 7, FStr (Some [104, 105]), FStr None, FBool True, FBlob [1, 2]]
     (foldl put_field (sc_buf_init 16) [F32 7, FStr (Some [104, 105]), FStr None, FBool True, FBlob [1, 2]])) =
   [F32 7, FStr (Some [104, 105]), FStr None, FBool True, FBlob [1, 2]]"
  using sc_buf_fifo [of "[F32 7, FStr (Some [104, 105]), FStr None, FBool True, FBlob [1, 2]]" "sc_buf_init 16"]
  by (simp add: sc_buf_init_def sc_buf_wrap_def tame_def room_def sc_buf_wf_def sc_buf_data_def
      sc_buf_contents_def str_ok_def enc_str_def enc_bool_def enc_blob_def SC_BUF_MAX_def)



text \<open>
  C15: Reading is safe on arbitrary bytes. Whatever the buffer holds and whatever sequence of
  kinds is read, the cursors stay ordered within the capacity, no byte is changed, and an error
  once raised stays raised.
\<close>

theorem sc_buf_get_safe:
  assumes "sc_buf_wf b"
  shows "read_step b (snd (get_all get_field fs b))"
  by (rule read_step_get_all [OF assms])

theorem sc_buf_get_safe_witness:
  "read_step (sc_buf_wrap [255, 255, 255, 254] 4 SC_BUF_READ)
     (snd (get_all get_field [FStr None, F64 0] (sc_buf_wrap [255, 255, 255, 254] 4 SC_BUF_READ)))"
  by (rule sc_buf_get_safe) (simp add: sc_buf_wf_def sc_buf_wrap_def)

text \<open>
  \<^verbatim>\<open>sc_buf_move\<close> hands over a prefix of the source's unread bytes, as long as the
  destination has quota for, without growing the destination; together the two hold the same bytes in the same order.
\<close>

theorem sc_buf_move_conserves:
  assumes "sc_buf_wf dest" "sc_buf_wf src" "err dest = 0"
  shows "sc_buf_data (fst (sc_buf_move dest src)) @ sc_buf_data (snd (sc_buf_move dest src)) =
      sc_buf_data dest @ sc_buf_data src \<and>
    length (sc_buf_data (fst (sc_buf_move dest src))) =
      length (sc_buf_data dest) + min (sc_buf_quota dest) (sc_buf_size src) \<and>
    cap (fst (sc_buf_move dest src)) = cap dest \<and> sc_buf_valid (fst (sc_buf_move dest src))"
  using move_data [OF assms] sc_buf_wfD [OF assms(1)] sc_buf_size_data [OF assms(2)]
  by (simp add: sc_buf_quota_def sc_buf_valid_def)

theorem sc_buf_move_conserves_witness:
  "sc_buf_data (fst (sc_buf_move (sc_buf_init 2) (sc_buf_wrap [1, 2, 3] 3 SC_BUF_READ))) = [1, 2] \<and>
   length (sc_buf_data (fst (sc_buf_move (sc_buf_init 2) (sc_buf_wrap [1, 2, 3] 3 SC_BUF_READ)))) = 2"
proof -
  have "sc_buf_wf (sc_buf_init 2)" "sc_buf_wf (sc_buf_wrap [1, 2, 3] 3 SC_BUF_READ)" "err (sc_buf_init 2) = 0"
    by (simp_all add: sc_buf_wf_def sc_buf_init_def sc_buf_wrap_def)
  note sc_buf_move_conserves [OF this]
  moreover have "sc_buf_data (fst (sc_buf_move (sc_buf_init 2) (sc_buf_wrap [1, 2, 3] 3 SC_BUF_READ))) = [1, 2]"
    by (simp add: sc_buf_move_def sc_buf_init_def sc_buf_wrap_def SC_BUF_READ_def SC_BUF_REF_def
        SC_BUF_DATA_def sc_buf_quota_def sc_buf_size_def sc_buf_put_raw_def sc_buf_reserve_def
        sc_buf_set_data_def slice_def write_at_def sc_buf_data_def sc_buf_contents_def)
  ultimately show ?thesis by simp
qed

end
