(* ===== verification/Sc_Crc32.thy ===== *)
theory Sc_Crc32
  imports Resql_Prelude
begin

text \<open>
  The CRC-32C checksum of \<^verbatim>\<open>src/lib/sc/sc_crc32.c\<close>: the table construction and the
  table-driven loop that takes eight bytes at a time, for little-endian machines. The loop's
  behaviour depends on the alignment of the data, so the address of the first byte is an
  argument. The table version is shown equal to the bit-at-a-time definition of the checksum.
\<close>

section \<open>Definitions\<close>

definition POLY :: u32 where "POLY = 0x82f63b78"

definition crc_bit :: "u32 \<Rightarrow> u32" where
  "crc_bit crc = (if crc AND 1 \<noteq> 0 then drop_bit 1 crc XOR POLY else drop_bit 1 crc)"

primrec crc_bits :: "nat \<Rightarrow> u32 \<Rightarrow> u32" where
  "crc_bits 0 crc = crc"
| "crc_bits (Suc n) crc = crc_bits n (crc_bit crc)"

text \<open>Row 0 holds the effect of one byte; each further row that of one more zero byte.\<close>

definition crc_table_row0 :: "u32 list" where
  "crc_table_row0 = map (\<lambda>n. crc_bits 8 (word_of_nat n)) [0..<256]"

definition crc_table_next :: "u32 \<Rightarrow> u32" where
  "crc_table_next crc = crc_table_row0 ! unat (crc AND 0xff) XOR drop_bit 8 crc"

primrec crc_table_row :: "nat \<Rightarrow> u32 list" where
  "crc_table_row 0 = crc_table_row0"
| "crc_table_row (Suc k) = map crc_table_next (crc_table_row k)"

definition crc32_init_sw_le :: "u32 list list" where
  "crc32_init_sw_le = map crc_table_row [0..<8]"

definition crc32_byte :: "u32 list list \<Rightarrow> u32 \<Rightarrow> u8 \<Rightarrow> u32" where
  "crc32_byte T crc b = T ! 0 ! unat ((crc XOR ucast b) AND 0xff) XOR drop_bit 8 crc"

definition crc32_word :: "u32 list list \<Rightarrow> u64 \<Rightarrow> u64 \<Rightarrow> u64" where
  "crc32_word T crcw w =
     (let x = crcw XOR w in
      ucast (T ! 7 ! unat (x AND 0xff)) XOR
      ucast (T ! 6 ! unat (drop_bit 8 x AND 0xff)) XOR
      ucast (T ! 5 ! unat (drop_bit 16 x AND 0xff)) XOR
      ucast (T ! 4 ! unat (drop_bit 24 x AND 0xff)) XOR
      ucast (T ! 3 ! unat (drop_bit 32 x AND 0xff)) XOR
      ucast (T ! 2 ! unat (drop_bit 40 x AND 0xff)) XOR
      ucast (T ! 1 ! unat (drop_bit 48 x AND 0xff)) XOR
      ucast (T ! 0 ! unat (drop_bit 56 x)))"

fun crc32_head :: "u32 list list \<Rightarrow> nat \<Rightarrow> u32 \<Rightarrow> bytes \<Rightarrow> u32 \<times> bytes" where
  "crc32_head T addr crc [] = (crc, [])"
| "crc32_head T addr crc (b # bs) =
     (if addr mod 8 \<noteq> 0 then crc32_head T (addr + 1) (crc32_byte T crc b) bs else (crc, b # bs))"

function crc32_body :: "u32 list list \<Rightarrow> u64 \<Rightarrow> bytes \<Rightarrow> u64 \<times> bytes" where
  "crc32_body T crcw bs =
     (if length bs \<ge> 8 then crc32_body T (crc32_word T crcw (de64 bs)) (drop 8 bs) else (crcw, bs))"
  by auto
termination by (relation "measure (\<lambda>(T, w, bs). length bs)") auto

declare crc32_body.simps [simp del]

definition crc32_sw_le :: "u32 list list \<Rightarrow> nat \<Rightarrow> u32 \<Rightarrow> bytes \<Rightarrow> u32" where
  "crc32_sw_le T addr crc buf =
     (let (c1, r1) = crc32_head T addr (NOT crc) buf;
          (c2, r2) = (if length r1 \<ge> 8
                      then let (w, r) = crc32_body T (ucast c1) r1 in (ucast w, r)
                      else (c1, r1))
      in NOT (foldl (crc32_byte T) c2 r2))"

text \<open>
  \<^verbatim>\<open>sc_crc32\<close> after \<^verbatim>\<open>sc_crc32_init\<close>, on data at an aligned address; the alignment does
  not matter, as shown below.
\<close>

definition sc_crc32 :: "u32 \<Rightarrow> bytes \<Rightarrow> u32" where
  "sc_crc32 crc buf = crc32_sw_le crc32_init_sw_le 0 crc buf"

text \<open>The reference: the reflected CRC with the Castagnoli polynomial, one bit at a time.\<close>

definition crc32c_ref :: "u32 \<Rightarrow> bytes \<Rightarrow> u32" where
  "crc32c_ref crc buf = NOT (foldl (\<lambda>c b. crc_bits 8 (c XOR ucast b)) (NOT crc) buf)"

section \<open>Linearity\<close>

lemma crc_bit_alt: "crc_bit c = (if bit c 0 then drop_bit 1 c XOR POLY else drop_bit 1 c)"
  by (simp add: crc_bit_def and_one_eq bit_0 odd_iff_mod_2_eq_one)

lemma crc_bit_xor: "crc_bit (x XOR y) = crc_bit x XOR crc_bit y"
  by (rule bit_word_eqI)
     (cases "bit x 0"; cases "bit y 0"; auto simp: crc_bit_alt bit_xor_iff bit_drop_bit_eq)

lemma crc_bits_xor: "crc_bits n (x XOR y) = crc_bits n x XOR crc_bits n y"
  by (induction n arbitrary: x y) (simp_all add: crc_bit_xor)

lemma crc_bits_add: "crc_bits (m + n) x = crc_bits n (crc_bits m x)"
  by (induction m arbitrary: x) simp_all

lemma crc_bit_push:
  assumes "take_bit m y = y" "Suc n + m \<le> 32"
  shows "crc_bit (push_bit (Suc n) y) = push_bit n y"
proof -
  have y: "bit y k \<Longrightarrow> k < m" for k
    using assms(1) bit_take_bit_iff [of m y k] by simp
  have "\<not> bit (push_bit (Suc n) y) 0" by (simp add: bit_push_bit_iff del: push_bit_Suc)
  then have "crc_bit (push_bit (Suc n) y) = drop_bit 1 (push_bit (Suc n) y)"
    by (simp only: crc_bit_alt if_False)
  also have "\<dots> = push_bit n y"
    using assms(2)
    by (intro bit_word_eqI)
       (auto simp: bit_drop_bit_eq bit_push_bit_iff simp del: push_bit_Suc dest: y)
  finally show ?thesis .
qed

lemma crc_bits_push: "take_bit m y = y \<Longrightarrow> n + m \<le> 32 \<Longrightarrow> crc_bits n (push_bit n y) = y"
  by (induction n) (simp_all add: crc_bit_push [of m] del: push_bit_Suc)

lemma mask_ff: "(0xff :: 'a :: len word) = mask 8"
  by (simp add: mask_eq_exp_minus_1)

lemma low_byte_split: "(x :: u32) = (x AND 0xff) XOR push_bit 8 (drop_bit 8 x)"
  by (rule bit_word_eqI) (auto simp: mask_ff bit_simps)

lemma crc8_split: "crc_bits 8 x = crc_bits 8 (x AND 0xff) XOR drop_bit 8 x"
proof -
  have t: "take_bit 24 (drop_bit 8 x) = drop_bit 8 x"
    by (rule bit_word_eqI) (auto simp: bit_simps dest: bit_imp_le_length)
  have "crc_bits 8 x = crc_bits 8 ((x AND 0xff) XOR push_bit 8 (drop_bit 8 x))"
    using low_byte_split [of x] by simp
  then show ?thesis by (simp add: crc_bits_xor crc_bits_push [OF t])
qed

section \<open>The tables\<close>

lemma unat_and_ff: "unat (x AND 0xff :: 'a :: len word) < 256"
proof -
  have "unat (x AND 0xff) = take_bit 8 (unat x)"
    unfolding mask_ff by (simp flip: take_bit_eq_mask add: unsigned_take_bit_eq)
  then show ?thesis using take_bit_nat_less_exp [of 8 "unat x"] by simp
qed

lemma table_row0: "crc_table_row0 ! unat (x AND 0xff) = crc_bits 8 (x AND 0xff)"
  using unat_and_ff [of x] by (simp add: crc_table_row0_def)

lemma table_next: "crc_table_next crc = crc_bits 8 crc"
  unfolding crc_table_next_def table_row0 by (rule crc8_split [symmetric])

lemma length_table_row: "length (crc_table_row k) = 256"
  by (induction k) (simp_all add: crc_table_row0_def)

lemma table_row: "n < 256 \<Longrightarrow> crc_table_row k ! n = crc_bits (8 * Suc k) (word_of_nat n)"
proof (induction k)
  case 0
  then show ?case by (simp add: crc_table_row0_def)
next
  case (Suc k)
  have "crc_table_row (Suc k) ! n = crc_bits 8 (crc_bits (8 * Suc k) (word_of_nat n))"
    using Suc length_table_row [of k] by (simp add: table_next)
  then show ?case by (simp only: crc_bits_add [symmetric] mult_Suc_right [of 8 "Suc k"] add.commute)
qed

lemma table_lookup:
  assumes "k < 8"
  shows "crc32_init_sw_le ! k ! unat (x AND 0xff) = crc_bits (8 * Suc k) (ucast (x AND 0xff))"
  using assms unat_and_ff [of x] table_row [of "unat (x AND 0xff)" k]
  by (simp add: crc32_init_sw_le_def of_nat_unat)

lemma crc32_byte_eq: "crc32_byte crc32_init_sw_le crc b = crc_bits 8 (crc XOR ucast b)"
proof -
  have "drop_bit 8 (crc XOR ucast b) = drop_bit 8 crc"
    by (rule bit_word_eqI) (auto simp: bit_simps dest: bit_imp_le_length)
  then show ?thesis
    unfolding crc32_byte_def table_lookup [of 0, simplified]
    using crc8_split [of "crc XOR ucast b"] by simp
qed

section \<open>Eight bytes at a time\<close>

lemma byte_of_crc_split:
  "(c :: u32) = (c AND 0xff) XOR push_bit 8 (drop_bit 8 c AND 0xff) XOR
     push_bit 16 (drop_bit 16 c AND 0xff) XOR push_bit 24 (drop_bit 24 c AND 0xff)"
  by (rule bit_word_eqI) (auto simp: mask_ff bit_simps)

lemma take_byte: "take_bit 8 (x AND 0xff) = (x AND 0xff :: u32)"
  by (rule bit_word_eqI) (auto simp: mask_ff bit_simps)

lemma crc_bits_byte_push:
  assumes "n \<le> 24"
  shows "crc_bits (n + m) (push_bit n (x AND 0xff)) = crc_bits m (x AND 0xff)"
  using crc_bits_push [OF take_byte, of n x] assms by (simp add: crc_bits_add)

lemma crc_bits_64:
  "crc_bits 64 c = crc_bits 64 (c AND 0xff) XOR crc_bits 56 (drop_bit 8 c AND 0xff) XOR
     crc_bits 48 (drop_bit 16 c AND 0xff) XOR crc_bits 40 (drop_bit 24 c AND 0xff)"
proof -
  have "crc_bits 64 c = crc_bits 64 ((c AND 0xff) XOR push_bit 8 (drop_bit 8 c AND 0xff) XOR
     push_bit 16 (drop_bit 16 c AND 0xff) XOR push_bit 24 (drop_bit 24 c AND 0xff))"
    using byte_of_crc_split [of c] by simp
  also have "\<dots> = crc_bits 64 (c AND 0xff) XOR crc_bits 56 (drop_bit 8 c AND 0xff) XOR
     crc_bits 48 (drop_bit 16 c AND 0xff) XOR crc_bits 40 (drop_bit 24 c AND 0xff)"
    using crc_bits_byte_push [of 8 56 "drop_bit 8 c"] crc_bits_byte_push [of 16 48 "drop_bit 16 c"]
      crc_bits_byte_push [of 24 40 "drop_bit 24 c"]
    by (simp only: crc_bits_xor) simp
  finally show ?thesis .
qed

lemma foldl_8:
  "foldl (\<lambda>c b. crc_bits 8 (c XOR ucast b)) c [b0, b1, b2, b3, b4, b5, b6, b7] =
     crc_bits 64 c XOR crc_bits 64 (ucast b0) XOR crc_bits 56 (ucast b1) XOR crc_bits 48 (ucast b2) XOR
     crc_bits 40 (ucast b3) XOR crc_bits 32 (ucast b4) XOR crc_bits 24 (ucast b5) XOR
     crc_bits 16 (ucast b6) XOR crc_bits 8 (ucast b7)"
  by (simp only: foldl.simps crc_bits_xor) (simp flip: crc_bits_add add: xor.assoc)

text \<open>The bytes of the checksum combined with eight bytes of data.\<close>

lemma and_ff_ucast: "(x :: u64) AND 0xff = ucast (ucast x :: u8)"
  by (rule bit_word_eqI) (auto simp: mask_ff bit_simps)

lemma and_ff_ucast32: "(x :: u32) AND 0xff = ucast (ucast x :: u8)"
  by (rule bit_word_eqI) (auto simp: mask_ff bit_simps)

lemma byte_high_ucast: "drop_bit 56 (x :: u64) = drop_bit 56 x AND 0xff"
  by (rule bit_word_eqI) (auto simp: mask_ff bit_simps dest: bit_imp_le_length)

lemma byte_xor:
  "ucast (drop_bit k (x XOR y :: u64)) = (ucast (drop_bit k x) XOR ucast (drop_bit k y) :: u8)"
  by (rule bit_word_eqI) (auto simp: bit_simps)

lemma byte_ucast_crc:
  fixes c :: u32
  assumes "k + 8 \<le> 32"
  shows "(ucast (drop_bit k (ucast c :: u64)) :: u8) = ucast (drop_bit k c)"
  using assms by (intro bit_word_eqI) (auto simp: bit_simps dest: bit_imp_le_length)

lemma byte_ucast_crc_high:
  fixes c :: u32
  assumes "32 \<le> k"
  shows "(ucast (drop_bit k (ucast c :: u64)) :: u8) = 0"
  using assms by (intro bit_word_eqI) (auto simp: bit_simps dest: bit_imp_le_length)

lemma crc_bytes:
  fixes c :: u32
  shows "(ucast (ucast c :: u64) :: u8) = ucast c"
    "(ucast (drop_bit 8 (ucast c :: u64)) :: u8) = ucast (drop_bit 8 c)"
    "(ucast (drop_bit 16 (ucast c :: u64)) :: u8) = ucast (drop_bit 16 c)"
    "(ucast (drop_bit 24 (ucast c :: u64)) :: u8) = ucast (drop_bit 24 c)"
    "(ucast (drop_bit 32 (ucast c :: u64)) :: u8) = 0"
    "(ucast (drop_bit 40 (ucast c :: u64)) :: u8) = 0"
    "(ucast (drop_bit 48 (ucast c :: u64)) :: u8) = 0"
    "(ucast (drop_bit 56 (ucast c :: u64)) :: u8) = 0"
  using byte_ucast_crc [of 0 c] byte_ucast_crc [of 8 c] byte_ucast_crc [of 16 c]
    byte_ucast_crc [of 24 c] byte_ucast_crc_high [of _ c] by simp_all

lemma crc32_word_eq:
  assumes "length p \<ge> 8"
  shows "crc32_word crc32_init_sw_le (ucast c) (de64 p) =
    ucast (foldl (\<lambda>c b. crc_bits 8 (c XOR ucast b)) c (take 8 p))"
proof -
  let ?x = "ucast c XOR de64 p :: u64"
  have look: "crc32_init_sw_le ! k ! unat (y AND 0xff) = crc_bits (8 * Suc k) (ucast (ucast y :: u8))"
    if "k < 8" for k and y :: u64
    using table_lookup [OF that, of y]
    by (simp add: and_ff_ucast) (rule arg_cong [where f = "crc_bits _"], rule bit_word_eqI, auto simp: bit_simps)
  have b: "(ucast (ucast (drop_bit k ?x) :: u8) :: u32) =
      ucast (ucast (drop_bit k (ucast c :: u64)) :: u8) XOR ucast (ucast (drop_bit k (de64 p)) :: u8)" for k
    by (simp only: byte_xor unsigned_xor_eq)
  note b' = b [of 0, unfolded drop_bit_0 id_apply] b
  have "crc32_word crc32_init_sw_le (ucast c) (de64 p) = ucast (
      crc_bits 64 (ucast (ucast ?x :: u8)) XOR crc_bits 56 (ucast (ucast (drop_bit 8 ?x) :: u8)) XOR
      crc_bits 48 (ucast (ucast (drop_bit 16 ?x) :: u8)) XOR crc_bits 40 (ucast (ucast (drop_bit 24 ?x) :: u8)) XOR
      crc_bits 32 (ucast (ucast (drop_bit 32 ?x) :: u8)) XOR crc_bits 24 (ucast (ucast (drop_bit 40 ?x) :: u8)) XOR
      crc_bits 16 (ucast (ucast (drop_bit 48 ?x) :: u8)) XOR crc_bits 8 (ucast (ucast (drop_bit 56 ?x) :: u8)))"
    unfolding crc32_word_def Let_def by (subst byte_high_ucast) (simp add: look unsigned_xor_eq)
  also have "\<dots> = ucast (crc_bits 64 c XOR crc_bits 64 (ucast (p ! 0)) XOR crc_bits 56 (ucast (p ! 1)) XOR
      crc_bits 48 (ucast (p ! 2)) XOR crc_bits 40 (ucast (p ! 3)) XOR crc_bits 32 (ucast (p ! 4)) XOR
      crc_bits 24 (ucast (p ! 5)) XOR crc_bits 16 (ucast (p ! 6)) XOR crc_bits 8 (ucast (p ! 7)))"
    by (rule arg_cong [where f = ucast])
       (subst crc_bits_64 [of c],
        simp only: b' crc_bytes byte_de64 crc_bits_xor and_ff_ucast32 unsigned_0 xor.left_neutral,
        simp only: ac_simps)
  finally show ?thesis
    using assms by (simp only: take_nths(2) foldl_8)
qed

lemma crc32_body_eq:
  "crc32_body crc32_init_sw_le (ucast c) bs =
     (ucast (foldl (\<lambda>c b. crc_bits 8 (c XOR ucast b)) c (take (8 * (length bs div 8)) bs)),
      drop (8 * (length bs div 8)) bs)"
proof (induction "length bs" arbitrary: bs c rule: less_induct)
  case less
  let ?f = "foldl (\<lambda>c b. crc_bits 8 (c XOR ucast b))"
  show ?case
  proof (cases "length bs \<ge> 8")
    case True
    then have l: "length bs div 8 = Suc ((length bs - 8) div 8)"
      by (simp add: le_div_geq)
    have "crc32_body crc32_init_sw_le (ucast c) bs =
        crc32_body crc32_init_sw_le (ucast (?f c (take 8 bs))) (drop 8 bs)"
      using True by (subst crc32_body.simps) (simp add: crc32_word_eq)
    also have "\<dots> = (ucast (?f (?f c (take 8 bs)) (take (8 * (length (drop 8 bs) div 8)) (drop 8 bs))),
        drop (8 * (length (drop 8 bs) div 8)) (drop 8 bs))"
      using True by (intro less) simp
    finally show ?thesis
      using l by (simp add: take_add [of 8] add.commute flip: foldl_append)
  next
    case False
    then show ?thesis by (subst crc32_body.simps) simp
  qed
qed

lemma crc32_head_eq:
  "crc32_head crc32_init_sw_le a c bs = (c', r) \<Longrightarrow>
     \<exists>p. bs = p @ r \<and> c' = foldl (\<lambda>c b. crc_bits 8 (c XOR ucast b)) c p"
proof (induction crc32_init_sw_le a c bs rule: crc32_head.induct)
  case (1 addr crc)
  then show ?case by simp
next
  case (2 addr crc b bs)
  show ?case
  proof (cases "addr mod 8 \<noteq> 0")
    case True
    then obtain p where "bs = p @ r"
      "c' = foldl (\<lambda>c b. crc_bits 8 (c XOR ucast b)) (crc_bits 8 (crc XOR ucast b)) p"
      using 2 by (auto simp: crc32_byte_eq)
    then show ?thesis by (intro exI [of _ "b # p"]) simp
  next
    case False
    then show ?thesis using 2 by simp
  qed
qed

lemma ucast_ucast_u32: "(ucast (ucast (c :: u32) :: u64) :: u32) = c"
  by (rule bit_word_eqI) (simp add: bit_simps)

lemma crc32_sw_le_ref: "crc32_sw_le crc32_init_sw_le a crc buf = crc32c_ref crc buf"
proof -
  let ?f = "foldl (\<lambda>c b. crc_bits 8 (c XOR ucast b))"
  obtain c1 r1 where h: "crc32_head crc32_init_sw_le a (NOT crc) buf = (c1, r1)" by force
  then obtain p where p: "buf = p @ r1" "c1 = ?f (NOT crc) p"
    using crc32_head_eq by blast
  have f: "foldl (crc32_byte crc32_init_sw_le) c bs = ?f c bs" for c bs
    by (simp add: crc32_byte_eq [abs_def])
  have "crc32_sw_le crc32_init_sw_le a crc buf = NOT (?f c1 r1)"
  proof (cases "length r1 \<ge> 8")
    case True
    have "?f (?f c1 (take n r1)) (drop n r1) = ?f c1 r1" for n
      by (simp flip: foldl_append)
    then show ?thesis using True h
      by (simp add: crc32_sw_le_def f crc32_body_eq ucast_ucast_u32)
  next
    case False
    then show ?thesis using h by (simp add: crc32_sw_le_def f)
  qed
  then show ?thesis using p by (simp add: crc32c_ref_def)
qed

lemma sc_crc32_ref: "sc_crc32 crc buf = crc32c_ref crc buf"
  by (simp add: sc_crc32_def crc32_sw_le_ref)

section \<open>Error detection\<close>

lemma xor_left_cancel: "(a :: u32) XOR x = a XOR y \<Longrightarrow> x = y"
proof -
  assume "a XOR x = a XOR y"
  then have "a XOR a XOR x = a XOR a XOR y" by (rule arg_cong)
  then show "x = y" by (simp only: xor.assoc [symmetric] xor_self_eq xor.left_neutral)
qed

lemma crc_bit_eq_0: "crc_bit z = 0 \<Longrightarrow> z = 0"
proof -
  assume z: "crc_bit z = 0"
  have top: "bit (crc_bit z) 31 = bit z 0"
    by (simp add: crc_bit_alt bit_xor_iff bit_drop_bit_eq POLY_def) (auto dest: bit_imp_le_length)
  then have "\<not> bit z 0" using z by simp
  then have d: "drop_bit 1 z = 0" using z by (simp add: crc_bit_alt)
  show "z = 0"
  proof (rule bit_word_eqI)
    fix n
    have "bit z n \<Longrightarrow> n \<noteq> 0 \<Longrightarrow> bit (drop_bit 1 z) (n - 1)" by (simp add: bit_drop_bit_eq)
    then show "bit z n = bit 0 n" using d \<open>\<not> bit z 0\<close> by (cases "n = 0") auto
  qed
qed

lemma crc_bits_inj: "crc_bits n x = crc_bits n y \<Longrightarrow> x = y"
proof -
  have k: "crc_bits n z = 0 \<Longrightarrow> z = 0" for z
    by (induction n arbitrary: z) (auto dest: crc_bit_eq_0)
  assume "crc_bits n x = crc_bits n y"
  then have "crc_bits n (x XOR y) = 0" by (simp add: crc_bits_xor)
  then have z: "x XOR y = 0" by (rule k)
  show "x = y"
  proof (rule bit_word_eqI)
    fix i
    have "\<not> bit (x XOR y) i" using z by simp
    then show "bit x i = bit y i" by (auto simp: bit_xor_iff)
  qed
qed

lemma foldl_crc_inj:
  "foldl (\<lambda>c b. crc_bits 8 (c XOR ucast b)) c s = foldl (\<lambda>c b. crc_bits 8 (c XOR ucast b)) d s \<Longrightarrow> c = d"
proof (induction s arbitrary: c d)
  case (Cons b s)
  then have "crc_bits 8 (c XOR ucast b) = crc_bits 8 (d XOR ucast b)" by simp
  then have "c XOR ucast b = d XOR ucast b" by (rule crc_bits_inj)
  then have "ucast b XOR c = ucast b XOR d" by (simp only: xor.commute)
  then show ?case by (rule xor_left_cancel)
qed simp

text \<open>Up to four bytes, read as one little-endian number.\<close>

primrec burst_word :: "bytes \<Rightarrow> u32" where
  "burst_word [] = 0"
| "burst_word (b # bs) = ucast b XOR push_bit 8 (burst_word bs)"

lemma bit_burst_word: "bit (burst_word x) n \<Longrightarrow> n < 8 * length x"
proof (induction x arbitrary: n)
  case (Cons b x)
  then show ?case by (auto simp: bit_simps dest!: Cons.IH dest: bit_imp_le_length)
qed simp

lemma foldl_burst:
  "length x \<le> 4 \<Longrightarrow>
     foldl (\<lambda>c b. crc_bits 8 (c XOR ucast b)) c x = crc_bits (8 * length x) (c XOR burst_word x)"
proof (induction x arbitrary: c)
  case (Cons b x)
  have t: "take_bit (8 * length x) (burst_word x) = burst_word x"
    by (rule bit_word_eqI) (auto simp: bit_take_bit_iff dest: bit_burst_word)
  have "burst_word x = crc_bits 8 (push_bit 8 (burst_word x))"
    using crc_bits_push [OF t, of 8] Cons.prems by simp
  then have "crc_bits 8 (c XOR ucast b) XOR burst_word x = crc_bits 8 (c XOR ucast b XOR push_bit 8 (burst_word x))"
    by (simp add: crc_bits_xor xor.assoc)
  then show ?case using Cons by (simp add: crc_bits_add xor.assoc)
qed simp

lemma burst_word_inj:
  "length x = length y \<Longrightarrow> length x \<le> 4 \<Longrightarrow> burst_word x = burst_word y \<Longrightarrow> x = y"
proof (induction x y rule: list_induct2)
  case (Cons b x c y)
  have low: "ucast (ucast b XOR push_bit 8 w :: u32) = b" for b :: u8 and w :: u32
    by (rule bit_word_eqI) (auto simp: bit_simps)
  have high: "drop_bit 8 (ucast b XOR push_bit 8 (burst_word x)) = burst_word x"
    if "length x \<le> 3" for b :: u8 and x
    using that by (intro bit_word_eqI) (auto simp: bit_simps bit_byte dest: bit_burst_word)
  show ?case
    using Cons low [of b "burst_word x"] low [of c "burst_word y"] high [of x b] high [of y c] by simp
qed simp

lemma crc32_burst:
  assumes "length x = length y" "length x \<le> 4" "x \<noteq> y"
  shows "sc_crc32 crc (p @ x @ s) \<noteq> sc_crc32 crc (p @ y @ s)"
proof
  let ?f = "foldl (\<lambda>c b. crc_bits 8 (c XOR ucast b))"
  assume "sc_crc32 crc (p @ x @ s) = sc_crc32 crc (p @ y @ s)"
  then have "?f (?f (?f (NOT crc) p) x) s = ?f (?f (?f (NOT crc) p) y) s"
    by (simp add: sc_crc32_ref crc32c_ref_def)
  then have "?f (?f (NOT crc) p) x = ?f (?f (NOT crc) p) y" by (rule foldl_crc_inj)
  then have "crc_bits (8 * length x) (?f (NOT crc) p XOR burst_word x) =
      crc_bits (8 * length x) (?f (NOT crc) p XOR burst_word y)"
    using foldl_burst [of x "?f (NOT crc) p"] foldl_burst [of y "?f (NOT crc) p"] assms(1,2) by simp
  then have "?f (NOT crc) p XOR burst_word x = ?f (NOT crc) p XOR burst_word y"
    by (rule crc_bits_inj)
  then have "burst_word x = burst_word y"
    by (rule xor_left_cancel)
  then show False using burst_word_inj [OF assms(1,2)] assms(3) by simp
qed

section \<open>Properties\<close>

text \<open>
  C16: The table-driven checksum, which consumes bytes up to an eight-byte boundary, then eight
  bytes at a time through eight tables, then the rest, computes CRC-32C bit by bit, whatever
  the alignment and length of the data.
\<close>

theorem crc32_sw_le_is_crc32c:
  "crc32_sw_le crc32_init_sw_le addr crc buf = crc32c_ref crc buf"
  by (rule crc32_sw_le_ref)

text \<open>
  C17: The checksum detects every corruption confined to four consecutive bytes: replacing up to
  four adjacent bytes of a message by different ones changes its checksum.
\<close>

theorem sc_crc32_detects_burst:
  assumes "length x = length y" "length x \<le> 4" "x \<noteq> y"
  shows "sc_crc32 crc (p @ x @ s) \<noteq> sc_crc32 crc (p @ y @ s)"
  by (rule crc32_burst [OF assms])

theorem sc_crc32_detects_burst_witness:
  "sc_crc32 0 ([1, 2] @ [3, 4, 5] @ [6]) \<noteq> sc_crc32 0 ([1, 2] @ [3, 0, 7] @ [6])"
  by (rule sc_crc32_detects_burst) simp_all

end
