(* ===== verification/Entry.thy ===== *)
theory Entry
  imports Sc_Buf Sc_Crc32
begin

text \<open>
  Log entries (\<^verbatim>\<open>src/src/entry.c\<close>): a 36-byte header (checksum, total length, term, sequence,
  client id, flags) and the data. The accessors take the memory starting at the entry, as the C
  functions take a pointer to it. Shown: an entry that is encoded is found again by
  \<open>entry_decode\<close> and by the accessors, and a torn or corrupted one is refused.
\<close>

section \<open>Definitions\<close>

definition ENTRY_CRC_LEN :: nat where "ENTRY_CRC_LEN = 4"
definition ENTRY_HEADER_SIZE :: nat where "ENTRY_HEADER_SIZE = 36"
definition ENTRY_CRC_OFFSET :: nat where "ENTRY_CRC_OFFSET = 0"
definition ENTRY_LEN_OFFSET :: nat where "ENTRY_LEN_OFFSET = 4"
definition ENTRY_TERM_OFFSET :: nat where "ENTRY_TERM_OFFSET = 8"
definition ENTRY_SEQ_OFFSET :: nat where "ENTRY_SEQ_OFFSET = 16"
definition ENTRY_CID_OFFSET :: nat where "ENTRY_CID_OFFSET = 24"
definition ENTRY_FLAGS_OFFSET :: nat where "ENTRY_FLAGS_OFFSET = 32"
definition ENTRY_DATA_OFFSET :: nat where "ENTRY_DATA_OFFSET = 36"

definition entry_get_64 :: "bytes \<Rightarrow> u64" where "entry_get_64 p = de64 p"
definition entry_get_32 :: "bytes \<Rightarrow> u32" where "entry_get_32 p = de32 p"

definition entry_encoded_len :: "nat \<Rightarrow> nat" where
  "entry_encoded_len len = add32 ENTRY_HEADER_SIZE len"

definition entry_encode :: "sc_buf \<Rightarrow> u64 \<Rightarrow> u64 \<Rightarrow> u64 \<Rightarrow> u32 \<Rightarrow> bytes \<Rightarrow> sc_buf" where
  "entry_encode b term seq cid flags data =
     (let enc = entry_encoded_len (length data);
          head = wpos b;
          (_, b1) = sc_buf_reserve b enc;
          b2 = sc_buf_set_wpos b1 (add32 head ENTRY_LEN_OFFSET);
          b3 = sc_buf_put_32 b2 (word_of_nat enc);
          b4 = sc_buf_put_64 b3 term;
          b5 = sc_buf_put_64 b4 seq;
          b6 = sc_buf_put_64 b5 cid;
          b7 = sc_buf_put_32 b6 flags;
          b8 = sc_buf_put_raw b7 data;
          crc = sc_crc32 0 (slice (mem b8) (head + ENTRY_CRC_LEN) (enc - ENTRY_CRC_LEN))
      in sc_buf_set_32_at b8 head crc)"

definition entry_decode :: "sc_buf \<Rightarrow> rs_rc \<times> sc_buf" where
  "entry_decode b =
     (let head = rpos b;
          (crc_val, b1) = sc_buf_get_32 b;
          (len, b2) = sc_buf_peek_32 b1;
          read_pos = rpos b2
      in if \<not> sc_buf_valid b2 \<or> sub32 (unat len) ENTRY_CRC_LEN > sc_buf_size b2
         then (RS_ERROR, sc_buf_set_rpos b2 head)
         else if crc_val \<noteq> sc_crc32 0 (slice (mem b2) read_pos (sub32 (unat len) ENTRY_CRC_LEN))
         then (RS_ERROR, sc_buf_set_rpos b2 head)
         else (RS_OK, sc_buf_set_rpos b2 (add32 head (unat len))))"

definition entry_crc :: "bytes \<Rightarrow> u32" where
  "entry_crc e = entry_get_32 (drop ENTRY_CRC_OFFSET e)"

definition entry_len :: "bytes \<Rightarrow> u32" where
  "entry_len e = entry_get_32 (drop ENTRY_LEN_OFFSET e)"

definition entry_term :: "bytes \<Rightarrow> u64" where
  "entry_term e = entry_get_64 (drop ENTRY_TERM_OFFSET e)"

definition entry_seq :: "bytes \<Rightarrow> u64" where
  "entry_seq e = entry_get_64 (drop ENTRY_SEQ_OFFSET e)"

definition entry_cid :: "bytes \<Rightarrow> u64" where
  "entry_cid e = entry_get_64 (drop ENTRY_CID_OFFSET e)"

definition entry_flags :: "bytes \<Rightarrow> u32" where
  "entry_flags e = entry_get_32 (drop ENTRY_FLAGS_OFFSET e)"

definition entry_data :: "bytes \<Rightarrow> bytes" where
  "entry_data e = drop ENTRY_DATA_OFFSET e"

definition entry_data_len :: "bytes \<Rightarrow> nat" where
  "entry_data_len e = sub32 (unat (entry_len e)) ENTRY_HEADER_SIZE"

text \<open>
  The entries \<^verbatim>\<open>entry_foreach(buf, len, entry)\<close> visits, as offsets in the memory: the loop
  trusts the length fields and does not return if one of them is 0.
\<close>

partial_function (option) entry_foreach :: "bytes \<Rightarrow> nat \<Rightarrow> nat \<Rightarrow> nat list option" where
  "entry_foreach m pos stop =
     (if pos < stop
      then Option.bind (entry_foreach m (pos + unat (entry_len (drop pos m))) stop)
             (\<lambda>es. Some (pos # es))
      else Some [])"

lemmas [code] = entry_foreach.simps

section \<open>The image of an entry\<close>

record entry =
  e_term :: u64
  e_seq :: u64
  e_cid :: u64
  e_flags :: u32
  e_data :: bytes

definition entry_size :: "entry \<Rightarrow> nat" where
  "entry_size e = 36 + length (e_data e)"

definition entry_body :: "entry \<Rightarrow> bytes" where
  "entry_body e =
     le32 (word_of_nat (entry_size e)) @ le64 (e_term e) @ le64 (e_seq e) @
     le64 (e_cid e) @ le32 (e_flags e) @ e_data e"

definition entry_bytes :: "entry \<Rightarrow> bytes" where
  "entry_bytes e = le32 (sc_crc32 0 (entry_body e)) @ entry_body e"

definition entry_ok :: "entry \<Rightarrow> bool" where
  "entry_ok e \<longleftrightarrow> entry_size e < 2 ^ 32"

definition decode_entry :: "bytes \<Rightarrow> entry" where
  "decode_entry m =
     \<lparr>e_term = entry_term m, e_seq = entry_seq m, e_cid = entry_cid m, e_flags = entry_flags m,
      e_data = take (entry_data_len m) (entry_data m)\<rparr>"

lemma length_entry_body: "length (entry_body e) = 32 + length (e_data e)"
  by (simp add: entry_body_def)

lemma length_entry_bytes: "length (entry_bytes e) = entry_size e"
  by (simp add: entry_bytes_def length_entry_body entry_size_def)

lemma entry_fields:
  "entry_crc (entry_bytes e @ r) = sc_crc32 0 (entry_body e)"
  "entry_len (entry_bytes e @ r) = word_of_nat (entry_size e)"
  "entry_term (entry_bytes e @ r) = e_term e"
  "entry_seq (entry_bytes e @ r) = e_seq e"
  "entry_cid (entry_bytes e @ r) = e_cid e"
  "entry_flags (entry_bytes e @ r) = e_flags e"
  "entry_data (entry_bytes e @ r) = e_data e @ r"
  by (simp_all add: entry_crc_def entry_len_def entry_term_def entry_seq_def entry_cid_def
      entry_flags_def entry_data_def entry_get_64_def entry_get_32_def ENTRY_CRC_OFFSET_def
      ENTRY_LEN_OFFSET_def ENTRY_TERM_OFFSET_def ENTRY_SEQ_OFFSET_def ENTRY_CID_OFFSET_def
      ENTRY_FLAGS_OFFSET_def ENTRY_DATA_OFFSET_def entry_bytes_def entry_body_def)

lemma unat_entry_size: "entry_ok e \<Longrightarrow> unat (word_of_nat (entry_size e) :: u32) = entry_size e"
  by (simp add: entry_ok_def)

lemma entry_data_len_bytes: "entry_ok e \<Longrightarrow> entry_data_len (entry_bytes e @ r) = length (e_data e)"
  by (simp add: entry_data_len_def entry_fields unat_entry_size ENTRY_HEADER_SIZE_def)
     (simp add: entry_ok_def entry_size_def)

lemma decode_entry_bytes: "entry_ok e \<Longrightarrow> decode_entry (entry_bytes e @ r) = e"
  by (simp add: decode_entry_def entry_fields entry_data_len_bytes)

lemma entry_size_data: "entry_ok e \<Longrightarrow> entry_encoded_len (length (e_data e)) = entry_size e"
  by (simp add: entry_encoded_len_def ENTRY_HEADER_SIZE_def entry_ok_def entry_size_def)

section \<open>Encoding\<close>

lemma emits_body:
  "emits 6 b (sc_buf_put_raw (sc_buf_put_32 (sc_buf_put_64 (sc_buf_put_64 (sc_buf_put_64
      (sc_buf_put_32 b l) t) s) c) f) d) (le32 l @ le64 t @ le64 s @ le64 c @ le32 f @ d)"
  using emits_trans [OF emits_trans [OF emits_trans [OF emits_trans [OF emits_trans
      [OF emits_32 emits_64] emits_64] emits_64] emits_32] emits_raw, of b l t s c f d]
  by (simp add: eval_nat_numeral)

lemma set_wpos_ok:
  assumes "sc_buf_wf b" "wpos b \<le> pos" "pos \<le> cap b"
  shows "sc_buf_set_wpos b pos = b\<lparr>wpos := pos\<rparr>" "sc_buf_wf (b\<lparr>wpos := pos\<rparr>)"
    "\<exists>zs. length zs = pos - wpos b \<and> sc_buf_contents (b\<lparr>wpos := pos\<rparr>) = sc_buf_contents b @ zs"
proof -
  show "sc_buf_set_wpos b pos = b\<lparr>wpos := pos\<rparr>"
    using assms by (simp add: sc_buf_set_wpos_def)
  show "sc_buf_wf (b\<lparr>wpos := pos\<rparr>)"
    using assms by (simp add: sc_buf_wf_def)
  have "take pos (mem b) = take (wpos b) (mem b) @ slice (mem b) (wpos b) (pos - wpos b)"
    using assms(2) by (metis slice_def le_add_diff_inverse take_add)
  then show "\<exists>zs. length zs = pos - wpos b \<and> sc_buf_contents (b\<lparr>wpos := pos\<rparr>) = sc_buf_contents b @ zs"
    using assms sc_buf_wfD [OF assms(1)]
    by (intro exI [of _ "slice (mem b) (wpos b) (pos - wpos b)"]) (simp add: sc_buf_contents_def)
qed

lemma entry_encode_ok:
  assumes w: "sc_buf_wf b" and r: "room b 1 (entry_size e)" and ok: "entry_ok e"
  defines "b' \<equiv> entry_encode b (e_term e) (e_seq e) (e_cid e) (e_flags e) (e_data e)"
  shows "sc_buf_contents b' = sc_buf_contents b @ entry_bytes e \<and> sc_buf_wf b' \<and> err b' = 0 \<and>
    rpos b' = rpos b \<and> ref b' = ref b \<and>
    (ref b \<longrightarrow> cap b' = cap b \<and> length (mem b') = length (mem b))"
proof -
  let ?n = "entry_size e"
  obtain b1 where b1: "sc_buf_reserve b ?n = (True, b1)" "wpos b1 = wpos b" "rpos b1 = rpos b"
    "ref b1 = ref b" "limit b1 = limit b" "err b1 = 0" "sc_buf_contents b1 = sc_buf_contents b"
    "wpos b + ?n \<le> cap b1" "sc_buf_wf b1" "ref b \<Longrightarrow> b1 = b"
    using reserve_room [OF room_tame [OF w r] r] by metis
  have n: "?n = 36 + length (e_data e)" by (simp add: entry_size_def)
  let ?b2 = "b1\<lparr>wpos := wpos b + 4\<rparr>"
  have s: "wpos b1 \<le> wpos b + 4" "wpos b + 4 \<le> cap b1" using b1(2,8) n by simp_all
  note s = set_wpos_ok [OF b1(9) s]
  obtain z where z: "length z = 4" "sc_buf_contents ?b2 = sc_buf_contents b @ z"
    using s(3) b1(2,7) by auto
  define b8 where "b8 = sc_buf_put_raw (sc_buf_put_32 (sc_buf_put_64 (sc_buf_put_64 (sc_buf_put_64
      (sc_buf_put_32 ?b2 (word_of_nat ?n)) (e_term e)) (e_seq e)) (e_cid e)) (e_flags e)) (e_data e)"
  have em: "emits 6 ?b2 b8 (entry_body e)"
    using emits_body [of ?b2] by (simp add: b8_def entry_body_def)
  have rm: "room ?b2 6 (length (entry_body e))"
    using b1(6,8) n by (simp add: room_def length_entry_body)
  note tm = room_tame [OF s(2) rm]
  note d = emits_data [OF em tm emits_room [OF em tm rm]]
  have e8: "err b8 = 0" by (rule emits_room [OF em tm rm])
  have c8: "sc_buf_contents b8 = sc_buf_contents b @ z @ entry_body e" using d(5) z(2) by simp
  have l: "length (sc_buf_contents b) = wpos b" by (rule length_contents [OF w])
  have w8: "wpos b8 = wpos b + 4 + length (entry_body e)" using d(6) by simp
  have "slice (mem b8) (wpos b + 4) (?n - 4) = entry_body e"
  proof -
    have "drop (wpos b + 4) (take (wpos b8) (mem b8)) = entry_body e"
      using c8 l z(1) by (simp add: sc_buf_contents_def)
    then show ?thesis using w8 n by (simp add: slice_def drop_take length_entry_body)
  qed
  moreover have "add32 (wpos b) 4 = wpos b + 4"
    using sc_buf_wfD [OF b1(9)] b1(8) n by simp
  ultimately have b': "b' = sc_buf_set_32_at b8 (wpos b) (sc_crc32 0 (entry_body e))"
    by (simp add: b'_def entry_encode_def entry_size_data [OF ok] b1(1,2) s(1) b8_def
        ENTRY_LEN_OFFSET_def ENTRY_CRC_LEN_def Let_def)
  have p: "wpos b + 4 \<le> wpos b8" using w8 by simp
  note q = set_32_at_ok [OF d(2) e8 p, of "sc_crc32 0 (entry_body e)"]
  have "write_at (sc_buf_contents b @ z @ entry_body e) (wpos b) (le32 (sc_crc32 0 (entry_body e))) =
      sc_buf_contents b @ entry_bytes e"
    using l z(1) by (simp add: write_at_def entry_bytes_def)
  then have "sc_buf_contents b' = sc_buf_contents b @ entry_bytes e"
    using q(3) c8 b' by simp
  moreover have "err b' = 0" "rpos b' = rpos b" "ref b' = ref b"
    using q(1) e8 d(4,7) b1(3,4) by (simp_all add: b')
  moreover have "ref b \<longrightarrow> cap b' = cap b \<and> length (mem b') = length (mem b)"
    using q(1) d(8,9) b1(4,10) p sc_buf_wfD [OF d(2)] by (auto simp: b')
  ultimately show ?thesis using q(2) by (simp add: b')
qed

section \<open>Decoding\<close>

text \<open>What \<open>entry_decode\<close> does with eight bytes or more to read: the length decides how far
  the checksum reaches.\<close>

lemma entry_decode_eq:
  assumes w: "sc_buf_wf b" and e: "err b = 0" and l: "8 \<le> length (sc_buf_data b)"
  defines "d \<equiv> sc_buf_data b"
  defines "n \<equiv> unat (entry_len d)"
  shows "entry_decode b =
    (if sub32 n 4 \<le> length d - 4 \<and> entry_crc d = sc_crc32 0 (take (sub32 n 4) (drop 4 d))
     then (RS_OK, sc_buf_set_rpos b (add32 (rpos b) n)) else (RS_ERROR, b))"
proof -
  have g: "sc_buf_get_32 b = (de32 d, adv b 4)"
    using get_fixed(3) [OF w] l by (simp add: d_def)
  have wa: "sc_buf_wf (adv b 4)" and da: "sc_buf_data (adv b 4) = drop 4 d"
    using w l by (simp_all add: buf_simps d_def)
  have p: "sc_buf_peek_32 (adv b 4) = (de32 (drop 4 d), adv b 4)"
    using peek_32_ok [OF wa] da l by (simp add: d_def)
  have sz: "sc_buf_size (adv b 4) = length d - 4"
    using sc_buf_size_data [OF wa] da by simp
  have sl: "m \<le> length d - 4 \<Longrightarrow> slice (mem b) (rpos b + 4) m = take m (drop 4 d)" for m
    using take_data_slice [OF wa, of m] da by (simp add: buf_simps d_def)
  have rew: "sc_buf_set_rpos b (rpos b) = b"
    using sc_buf_wfD(1) [OF w] by (simp add: sc_buf_set_rpos_def)
  have fwd: "sc_buf_set_rpos (adv b 4) x = sc_buf_set_rpos b x" for x
    by (simp add: sc_buf_set_rpos_def adv_def Let_def)
  show ?thesis
    using sl e
    by (auto simp: entry_decode_def g p sz rew fwd n_def entry_len_def entry_crc_def
        entry_get_32_def ENTRY_LEN_OFFSET_def ENTRY_CRC_OFFSET_def ENTRY_CRC_LEN_def
        sc_buf_valid_def buf_simps Let_def)
qed

lemma entry_decode_short:
  assumes w: "sc_buf_wf b" and l: "length (sc_buf_data b) < 8"
  shows "fst (entry_decode b) = RS_ERROR"
proof -
  obtain v b1 where g: "sc_buf_get_32 b = (v, b1)" by force
  have r: "read_step b b1" using read_step_get(3) [OF w] g by simp
  have "\<not> sc_buf_valid (snd (sc_buf_peek_32 b1))"
  proof (cases "4 \<le> length (sc_buf_data b)")
    case True
    then have "b1 = adv b 4" using g get_fixed(3) [OF w] by simp
    then show ?thesis using peek_32_short [of b1] w l True
      by (simp add: buf_simps sc_buf_valid_def)
  next
    case False
    then have "wpos b < rpos b + 4" using length_data [OF w] sc_buf_wfD(1) [OF w] by simp
    then have "err b1 \<noteq> 0" using g by (auto simp: sc_buf_get_32_def sc_buf_peek_32_pos_def)
    moreover have "sc_buf_wf b1" using r by (simp add: read_step_def)
    ultimately show ?thesis
      using peek_32_short [of b1] peek_32_ok [of b1]
      by (cases "4 \<le> length (sc_buf_data b1)") (simp_all add: sc_buf_valid_def)
  qed
  then show ?thesis using g
    by (cases "sc_buf_peek_32 b1") (simp add: entry_decode_def Let_def)
qed

lemma entry_head_cong:
  assumes "take 8 d = take 8 d'" "8 \<le> length d" "8 \<le> length d'"
  shows "entry_crc d = entry_crc d'" "entry_len d = entry_len d'"
proof -
  have h: "entry_crc x = de32 (take 8 x)" "entry_len x = de32 (drop 4 (take 8 x))"
    if "8 \<le> length x" for x
  proof -
    have "de32 (take 8 x @ drop 8 x) = de32 (take 8 x)" by (rule de32_append) (use that in simp)
    then show "entry_crc x = de32 (take 8 x)"
      by (simp add: entry_crc_def ENTRY_CRC_OFFSET_def entry_get_32_def)
    have "de32 (drop 4 (take 8 x) @ drop 8 x) = de32 (drop 4 (take 8 x))"
      by (rule de32_append) (use that in simp)
    moreover have "drop 4 (take 8 x) @ drop 8 x = drop 4 x"
      using append_take_drop_id [of 4 "drop 4 x"] by (simp add: drop_take)
    ultimately show "entry_len x = de32 (drop 4 (take 8 x))"
      by (simp add: entry_len_def ENTRY_LEN_OFFSET_def entry_get_32_def)
  qed
  show "entry_crc d = entry_crc d'" "entry_len d = entry_len d'"
    using h [OF assms(2)] h [OF assms(3)] assms(1) by simp_all
qed

lemma entry_decode_bytes:
  assumes w: "sc_buf_wf b" and e: "err b = 0" and ok: "entry_ok e"
    and d: "sc_buf_data b = entry_bytes e @ rest"
  shows "entry_decode b = (RS_OK, adv b (entry_size e))"
proof -
  have n: "unat (entry_len (sc_buf_data b)) = entry_size e"
    using d ok by (simp add: entry_fields unat_entry_size)
  have s: "sub32 (entry_size e) 4 = length (entry_body e)"
    using ok by (simp add: entry_ok_def entry_size_def length_entry_body)
  have "drop 4 (sc_buf_data b) = entry_body e @ rest"
    by (simp add: d entry_bytes_def)
  moreover have "rpos b + entry_size e \<le> wpos b"
    using length_data [OF w] sc_buf_wfD(1) [OF w] d by (simp add: length_entry_bytes)
  ultimately show ?thesis
    using entry_decode_eq [OF w e] n s d sc_buf_wfD(5) [OF w]
    by (simp add: length_entry_bytes length_entry_body entry_size_def entry_fields
        sc_buf_set_rpos_def adv_def)
qed

section \<open>Walking over packed entries\<close>

lemma foreach_step:
  "entry_ok e \<Longrightarrow> drop pos m = entry_bytes e @ r \<Longrightarrow> pos < stop \<Longrightarrow>
     entry_foreach m pos stop = map_option (Cons pos) (entry_foreach m (pos + entry_size e) stop)"
  by (subst entry_foreach.simps)
     (simp add: entry_fields unat_entry_size map_conv_bind_option comp_def)

fun entry_offsets :: "nat \<Rightarrow> entry list \<Rightarrow> nat list" where
  "entry_offsets pos [] = []"
| "entry_offsets pos (e # es) = pos # entry_offsets (pos + entry_size e) es"

lemma entry_size_pos: "0 < entry_size e"
  by (simp add: entry_size_def)

lemma drop_entry:
  assumes "drop pos m = entry_bytes e @ r"
  shows "drop (pos + entry_size e) m = r"
proof -
  have "drop (pos + entry_size e) m = drop (entry_size e) (drop pos m)" by (simp add: add.commute)
  then show ?thesis using assms by (simp add: length_entry_bytes)
qed

lemma foreach_entries:
  assumes "\<forall>e \<in> set es. entry_ok e" "drop pos m = concat (map entry_bytes es) @ r"
  shows "entry_foreach m pos (pos + length (concat (map entry_bytes es))) = Some (entry_offsets pos es)"
  using assms
proof (induction es arbitrary: pos)
  case Nil
  then show ?case by (subst entry_foreach.simps) simp
next
  case (Cons e es)
  have d: "drop (pos + entry_size e) m = concat (map entry_bytes es) @ r"
    using Cons.prems(2) by (intro drop_entry) simp
  show ?case
    using Cons.prems Cons.IH [OF _ d] entry_size_pos [of e]
      foreach_step [of e pos m "concat (map entry_bytes es) @ r"]
    by (simp add: length_entry_bytes add.assoc)
qed

lemma offsets_decode:
  assumes "\<forall>e \<in> set es. entry_ok e" "drop pos m = concat (map entry_bytes es) @ r"
  shows "map (\<lambda>p. decode_entry (drop p m)) (entry_offsets pos es) = es"
  using assms
proof (induction es arbitrary: pos)
  case (Cons e es)
  have d: "drop (pos + entry_size e) m = concat (map entry_bytes es) @ r"
    using Cons.prems(2) by (intro drop_entry) simp
  show ?case using Cons.prems Cons.IH [OF _ d] by (simp add: decode_entry_bytes)
qed simp

section \<open>Properties\<close>

text \<open>
  C18: Encoding an entry into a buffer with room for it and decoding it again succeeds, consumes
  exactly the entry, and the accessors on its memory give back term, sequence, client id, flags
  and data.
\<close>

theorem entry_round_trip:
  assumes "sc_buf_wf b" "room b 1 (entry_size e)" "entry_ok e" "sc_buf_data b = []"
  defines "b' \<equiv> entry_encode b (e_term e) (e_seq e) (e_cid e) (e_flags e) (e_data e)"
  shows "fst (entry_decode b') = RS_OK \<and> sc_buf_data (snd (entry_decode b')) = [] \<and>
    decode_entry (drop (rpos b') (mem b')) = e"
proof -
  note e = entry_encode_ok [OF assms(1-3), folded b'_def]
  have "rpos b = wpos b"
    using assms(1,4) length_data [of b] sc_buf_wfD(1) [of b] by simp
  then have d: "sc_buf_data b' = entry_bytes e"
    using e assms(1) by (simp add: sc_buf_data_def)
  have "entry_decode b' = (RS_OK, adv b' (entry_size e))"
    using entry_decode_bytes [of b' e "[]"] e assms(3) d by simp
  moreover have "drop (rpos b') (mem b') = entry_bytes e @ drop (wpos b') (mem b')"
    using drop_mem_data [of b'] e d by simp
  ultimately show ?thesis
    using d assms(3) by (simp add: buf_simps length_entry_bytes decode_entry_bytes)
qed

theorem entry_round_trip_witness:
  "fst (entry_decode (entry_encode (sc_buf_init 64) 3 1 9 2 [104, 105])) = RS_OK"
proof -
  let ?e = "\<lparr>e_term = 3, e_seq = 1, e_cid = 9, e_flags = 2, e_data = [104, 105]\<rparr>"
  have "sc_buf_wf (sc_buf_init 64)" "room (sc_buf_init 64) 1 (entry_size ?e)" "entry_ok ?e"
    "sc_buf_data (sc_buf_init 64) = []"
    by (simp_all add: sc_buf_init_def sc_buf_wrap_def sc_buf_wf_def room_def entry_size_def
        entry_ok_def sc_buf_data_def sc_buf_contents_def)
  from entry_round_trip [OF this] show ?thesis by simp
qed



text \<open>
  Walking over packed entries with \<^verbatim>\<open>entry_foreach\<close> returns, and visits exactly the
  entries that were packed, in order.
\<close>

theorem entry_foreach_visits:
  assumes "\<forall>e \<in> set es. entry_ok e" "drop pos m = concat (map entry_bytes es) @ rest"
  shows "\<exists>offs. entry_foreach m pos (pos + length (concat (map entry_bytes es))) = Some offs \<and>
    map (\<lambda>p. decode_entry (drop p m)) offs = es"
  by (intro exI conjI) (rule foreach_entries [OF assms], rule offsets_decode [OF assms])

theorem entry_foreach_visits_witness:
  "\<exists>offs. entry_foreach (0 # entry_bytes \<lparr>e_term = 3, e_seq = 1, e_cid = 9, e_flags = 2, e_data = [104]\<rparr>) 1 38 =
     Some offs \<and> length offs = 1"
proof -
  let ?e = "\<lparr>e_term = 3, e_seq = 1, e_cid = 9, e_flags = 2, e_data = [104]\<rparr>"
  have "\<forall>e \<in> set [?e]. entry_ok e" "drop 1 (0 # entry_bytes ?e) = concat (map entry_bytes [?e]) @ []"
    by (simp_all add: entry_ok_def entry_size_def)
  note v = entry_foreach_visits [OF this]
  have n: "1 + length (concat (map entry_bytes [?e])) = 38"
    by (simp add: length_entry_bytes entry_size_def)
  obtain offs where o: "entry_foreach (0 # entry_bytes ?e) 1 38 = Some offs"
    "map (\<lambda>p. decode_entry (drop p (0 # entry_bytes ?e))) offs = [?e]"
    using v unfolding n by (elim exE conjE)
  have "length offs = 1" using arg_cong [OF o(2), of length] by (simp only: length_map list.size)
  then show ?thesis using o(1) by (intro exI conjI)
qed

end
