(* ===== verification/Msg.thy ===== *)
theory Msg
  imports Sc_Buf
begin

text \<open>
  The wire messages (\<^verbatim>\<open>src/src/msg.c\<close>): a 32-bit length that counts itself, a type byte and the
  fields of that type. A decoded message is a value of the datatype \<open>msg\<close>, with the union
  member its type byte selects; pointers into the receive buffer are the bytes or the C string
  found there. \<^verbatim>\<open>enum msg_rc\<close> values are cast from the wire unchecked and are bytes here.
\<close>

section \<open>Definitions\<close>

definition MSG_MAX_SIZE :: nat where "MSG_MAX_SIZE = 2 * 1000 * 1000 * 1000"
definition MSG_SIZE_LEN :: nat where "MSG_SIZE_LEN = 4"
definition MSG_TYPE_LEN :: nat where "MSG_TYPE_LEN = 1"
definition MSG_RC_LEN :: nat where "MSG_RC_LEN = 1"
definition MSG_FIXED_LEN :: nat where "MSG_FIXED_LEN = MSG_SIZE_LEN + MSG_TYPE_LEN"

definition MSG_RESQL_STR :: cstring where
  "MSG_RESQL_STR = [0x72, 0x65, 0x73, 0x71, 0x6c]"

datatype msg_rc =
    MSG_OK | MSG_ERR | MSG_CLUSTER_NAME_MISMATCH | MSG_CORRUPT | MSG_UNEXPECTED | MSG_TIMEOUT
  | MSG_NOT_LEADER | MSG_DISK_FULL

fun msg_rc_code :: "msg_rc \<Rightarrow> u8" where
  "msg_rc_code MSG_OK = 0x00"
| "msg_rc_code MSG_ERR = 0x01"
| "msg_rc_code MSG_CLUSTER_NAME_MISMATCH = 0x02"
| "msg_rc_code MSG_CORRUPT = 0x03"
| "msg_rc_code MSG_UNEXPECTED = 0x04"
| "msg_rc_code MSG_TIMEOUT = 0x05"
| "msg_rc_code MSG_NOT_LEADER = 0x06"
| "msg_rc_code MSG_DISK_FULL = 0x07"

definition MSG_CONNECT_REQ :: u8 where "MSG_CONNECT_REQ = 0x00"
definition MSG_CONNECT_RESP :: u8 where "MSG_CONNECT_RESP = 0x01"
definition MSG_DISCONNECT_REQ :: u8 where "MSG_DISCONNECT_REQ = 0x02"
definition MSG_DISCONNECT_RESP :: u8 where "MSG_DISCONNECT_RESP = 0x03"
definition MSG_CLIENT_REQ :: u8 where "MSG_CLIENT_REQ = 0x04"
definition MSG_CLIENT_RESP :: u8 where "MSG_CLIENT_RESP = 0x05"
definition MSG_APPEND_REQ :: u8 where "MSG_APPEND_REQ = 0x06"
definition MSG_APPEND_RESP :: u8 where "MSG_APPEND_RESP = 0x07"
definition MSG_PREVOTE_REQ :: u8 where "MSG_PREVOTE_REQ = 0x08"
definition MSG_PREVOTE_RESP :: u8 where "MSG_PREVOTE_RESP = 0x09"
definition MSG_REQVOTE_REQ :: u8 where "MSG_REQVOTE_REQ = 0x0A"
definition MSG_REQVOTE_RESP :: u8 where "MSG_REQVOTE_RESP = 0x0B"
definition MSG_SNAPSHOT_REQ :: u8 where "MSG_SNAPSHOT_REQ = 0x0C"
definition MSG_SNAPSHOT_RESP :: u8 where "MSG_SNAPSHOT_RESP = 0x0D"
definition MSG_INFO_REQ :: u8 where "MSG_INFO_REQ = 0x0E"
definition MSG_SHUTDOWN_REQ :: u8 where "MSG_SHUTDOWN_REQ = 0x0F"

lemmas msg_types =
  MSG_CONNECT_REQ_def MSG_CONNECT_RESP_def MSG_DISCONNECT_REQ_def MSG_DISCONNECT_RESP_def
  MSG_CLIENT_REQ_def MSG_CLIENT_RESP_def MSG_APPEND_REQ_def MSG_APPEND_RESP_def
  MSG_PREVOTE_REQ_def MSG_PREVOTE_RESP_def MSG_REQVOTE_REQ_def MSG_REQVOTE_RESP_def
  MSG_SNAPSHOT_REQ_def MSG_SNAPSHOT_RESP_def MSG_INFO_REQ_def MSG_SHUTDOWN_REQ_def

text \<open>The constructor arguments are the fields of the C structs, in the order of the wire.\<close>

datatype msg =
    Connect_req u32 "cstring option" "cstring option" "cstring option"
  | Connect_resp u8 u64 u64 "cstring option"
  | Disconnect_req u8 u32
  | Disconnect_resp u8 u32
  | Client_req bool u64 bytes
  | Client_resp bytes
  | Append_req u64 u64 u64 u64 u64 bytes
  | Append_resp u64 u64 u64 bool
  | Prevote_req u64 u64 u64
  | Prevote_resp u64 u64 bool
  | Reqvote_req u64 u64 u64
  | Reqvote_resp u64 u64 bool
  | Snapshot_req u64 u64 u64 u64 u64 bool bytes
  | Snapshot_resp u64 u64 bool bool
  | Info_req bytes
  | Shutdown_req bool
  | Unknown_msg u8

subsection \<open>Creating messages\<close>

text \<open>Every creator ends by taking back what it wrote if a write failed.\<close>

definition msg_finish :: "nat \<Rightarrow> sc_buf \<Rightarrow> bool \<times> sc_buf" where
  "msg_finish head b = (if \<not> sc_buf_valid b then (False, sc_buf_set_wpos b head) else (True, b))"

definition msg_create_connect_req ::
    "sc_buf \<Rightarrow> u32 \<Rightarrow> cstring option \<Rightarrow> cstring option \<Rightarrow> bool \<times> sc_buf" where
  "msg_create_connect_req buf fl cluster name =
     (let head = wpos buf;
          len = MSG_SIZE_LEN + MSG_TYPE_LEN + 4 + sc_buf_str_len (Some MSG_RESQL_STR) +
                sc_buf_str_len cluster + sc_buf_str_len name;
          buf = sc_buf_put_32 buf (word_of_nat len);
          buf = sc_buf_put_8 buf MSG_CONNECT_REQ;
          buf = sc_buf_put_32 buf fl;
          buf = sc_buf_put_str buf (Some MSG_RESQL_STR);
          buf = sc_buf_put_str buf cluster;
          buf = sc_buf_put_str buf name
      in msg_finish head buf)"

definition msg_create_connect_resp ::
    "sc_buf \<Rightarrow> u8 \<Rightarrow> u64 \<Rightarrow> u64 \<Rightarrow> cstring option \<Rightarrow> bool \<times> sc_buf" where
  "msg_create_connect_resp buf code seq term ns =
     (let head = wpos buf;
          len = MSG_SIZE_LEN + MSG_TYPE_LEN + MSG_RC_LEN + 8 + 8 + sc_buf_str_len ns;
          buf = sc_buf_put_32 buf (word_of_nat len);
          buf = sc_buf_put_8 buf MSG_CONNECT_RESP;
          buf = sc_buf_put_8 buf code;
          buf = sc_buf_put_64 buf seq;
          buf = sc_buf_put_64 buf term;
          buf = sc_buf_put_str buf ns
      in msg_finish head buf)"

definition msg_create_disconnect_req :: "sc_buf \<Rightarrow> u8 \<Rightarrow> u32 \<Rightarrow> bool \<times> sc_buf" where
  "msg_create_disconnect_req buf code fl =
     (let head = wpos buf;
          len = MSG_FIXED_LEN + MSG_RC_LEN + 4;
          buf = sc_buf_put_32 buf (word_of_nat len);
          buf = sc_buf_put_8 buf MSG_DISCONNECT_REQ;
          buf = sc_buf_put_8 buf code;
          buf = sc_buf_put_32 buf fl
      in msg_finish head buf)"

definition msg_create_disconnect_resp :: "sc_buf \<Rightarrow> u8 \<Rightarrow> u32 \<Rightarrow> bool \<times> sc_buf" where
  "msg_create_disconnect_resp buf code fl =
     (let head = wpos buf;
          len = MSG_FIXED_LEN + MSG_RC_LEN + 4;
          buf = sc_buf_put_32 buf (word_of_nat len);
          buf = sc_buf_put_8 buf MSG_DISCONNECT_RESP;
          buf = sc_buf_put_8 buf code;
          buf = sc_buf_put_32 buf fl
      in msg_finish head buf)"

definition msg_create_client_req :: "sc_buf \<Rightarrow> bool \<Rightarrow> u64 \<Rightarrow> bytes \<Rightarrow> bool \<times> sc_buf" where
  "msg_create_client_req buf ro seq req =
     (let head = wpos buf;
          len = MSG_FIXED_LEN + 1 + 8 + length req;
          buf = sc_buf_put_32 buf (word_of_nat len);
          buf = sc_buf_put_8 buf MSG_CLIENT_REQ;
          buf = sc_buf_put_bool buf ro;
          buf = sc_buf_put_64 buf seq;
          buf = sc_buf_put_raw buf req
      in msg_finish head buf)"

definition msg_create_client_resp_header :: "sc_buf \<Rightarrow> bool \<times> sc_buf" where
  "msg_create_client_resp_header buf =
     (let buf = sc_buf_put_32 buf 0;
          buf = sc_buf_put_8 buf MSG_CLIENT_RESP
      in (sc_buf_valid buf, buf))"

definition msg_finalize_client_resp :: "sc_buf \<Rightarrow> bool \<times> sc_buf" where
  "msg_finalize_client_resp buf =
     (let buf = sc_buf_set_32_at buf 0 (word_of_nat (wpos buf)) in (sc_buf_valid buf, buf))"

definition msg_create_prevote_req :: "sc_buf \<Rightarrow> u64 \<Rightarrow> u64 \<Rightarrow> u64 \<Rightarrow> bool \<times> sc_buf" where
  "msg_create_prevote_req buf term last_log_index last_log_term =
     (let head = wpos buf;
          len = MSG_FIXED_LEN + 8 + 8 + 8;
          buf = sc_buf_put_32 buf (word_of_nat len);
          buf = sc_buf_put_8 buf MSG_PREVOTE_REQ;
          buf = sc_buf_put_64 buf term;
          buf = sc_buf_put_64 buf last_log_term;
          buf = sc_buf_put_64 buf last_log_index
      in msg_finish head buf)"

definition msg_create_prevote_resp :: "sc_buf \<Rightarrow> u64 \<Rightarrow> u64 \<Rightarrow> bool \<Rightarrow> bool \<times> sc_buf" where
  "msg_create_prevote_resp buf term index granted =
     (let head = wpos buf;
          len = MSG_SIZE_LEN + MSG_TYPE_LEN + 8 + 8 + 1;
          buf = sc_buf_put_32 buf (word_of_nat len);
          buf = sc_buf_put_8 buf MSG_PREVOTE_RESP;
          buf = sc_buf_put_64 buf term;
          buf = sc_buf_put_64 buf index;
          buf = sc_buf_put_bool buf granted
      in msg_finish head buf)"

definition msg_create_reqvote_req :: "sc_buf \<Rightarrow> u64 \<Rightarrow> u64 \<Rightarrow> u64 \<Rightarrow> bool \<times> sc_buf" where
  "msg_create_reqvote_req buf term last_log_index last_log_term =
     (let head = wpos buf;
          len = MSG_SIZE_LEN + MSG_TYPE_LEN + 8 + 8 + 8;
          buf = sc_buf_put_32 buf (word_of_nat len);
          buf = sc_buf_put_8 buf MSG_REQVOTE_REQ;
          buf = sc_buf_put_64 buf term;
          buf = sc_buf_put_64 buf last_log_term;
          buf = sc_buf_put_64 buf last_log_index
      in msg_finish head buf)"

definition msg_create_reqvote_resp :: "sc_buf \<Rightarrow> u64 \<Rightarrow> u64 \<Rightarrow> bool \<Rightarrow> bool \<times> sc_buf" where
  "msg_create_reqvote_resp buf term index granted =
     (let head = wpos buf;
          len = MSG_SIZE_LEN + MSG_TYPE_LEN + 8 + 8 + 1;
          buf = sc_buf_put_32 buf (word_of_nat len);
          buf = sc_buf_put_8 buf MSG_REQVOTE_RESP;
          buf = sc_buf_put_64 buf term;
          buf = sc_buf_put_64 buf index;
          buf = sc_buf_put_bool buf granted
      in msg_finish head buf)"

definition msg_create_append_req ::
    "sc_buf \<Rightarrow> u64 \<Rightarrow> u64 \<Rightarrow> u64 \<Rightarrow> u64 \<Rightarrow> u64 \<Rightarrow> bytes \<Rightarrow> bool \<times> sc_buf" where
  "msg_create_append_req buf term prev_index prev_term commit query entries =
     (let head = wpos buf;
          len = MSG_FIXED_LEN + 8 + 8 + 8 + 8 + 8 + length entries;
          buf = sc_buf_put_32 buf (word_of_nat len);
          buf = sc_buf_put_8 buf MSG_APPEND_REQ;
          buf = sc_buf_put_64 buf term;
          buf = sc_buf_put_64 buf prev_index;
          buf = sc_buf_put_64 buf prev_term;
          buf = sc_buf_put_64 buf commit;
          buf = sc_buf_put_64 buf query;
          buf = sc_buf_put_raw buf entries
      in msg_finish head buf)"

definition msg_create_append_resp :: "sc_buf \<Rightarrow> u64 \<Rightarrow> u64 \<Rightarrow> u64 \<Rightarrow> bool \<Rightarrow> bool \<times> sc_buf" where
  "msg_create_append_resp buf term index query success =
     (let head = wpos buf;
          len = MSG_FIXED_LEN + 8 + 8 + 8 + 1;
          buf = sc_buf_put_32 buf (word_of_nat len);
          buf = sc_buf_put_8 buf MSG_APPEND_RESP;
          buf = sc_buf_put_64 buf term;
          buf = sc_buf_put_64 buf index;
          buf = sc_buf_put_64 buf query;
          buf = sc_buf_put_bool buf success
      in msg_finish head buf)"

definition msg_create_snapshot_req ::
    "sc_buf \<Rightarrow> u64 \<Rightarrow> u64 \<Rightarrow> u64 \<Rightarrow> u64 \<Rightarrow> u64 \<Rightarrow> bool \<Rightarrow> bytes \<Rightarrow> bool \<times> sc_buf" where
  "msg_create_snapshot_req buf term round ss_term ss_index offset done data =
     (let head = wpos buf;
          len = MSG_FIXED_LEN + 8 + 8 + 8 + 8 + 8 + 1 + length data;
          buf = sc_buf_put_32 buf (word_of_nat len);
          buf = sc_buf_put_8 buf MSG_SNAPSHOT_REQ;
          buf = sc_buf_put_64 buf term;
          buf = sc_buf_put_64 buf round;
          buf = sc_buf_put_64 buf ss_term;
          buf = sc_buf_put_64 buf ss_index;
          buf = sc_buf_put_64 buf offset;
          buf = sc_buf_put_bool buf done;
          buf = sc_buf_put_raw buf data
      in msg_finish head buf)"

definition msg_create_snapshot_resp :: "sc_buf \<Rightarrow> u64 \<Rightarrow> u64 \<Rightarrow> bool \<Rightarrow> bool \<Rightarrow> bool \<times> sc_buf" where
  "msg_create_snapshot_resp buf term round success done =
     (let head = wpos buf;
          len = MSG_FIXED_LEN + 8 + 8 + 1 + 1;
          buf = sc_buf_put_32 buf (word_of_nat len);
          buf = sc_buf_put_8 buf MSG_SNAPSHOT_RESP;
          buf = sc_buf_put_64 buf term;
          buf = sc_buf_put_64 buf round;
          buf = sc_buf_put_bool buf success;
          buf = sc_buf_put_bool buf done
      in msg_finish head buf)"

definition msg_create_info_req :: "sc_buf \<Rightarrow> bytes \<Rightarrow> bool \<times> sc_buf" where
  "msg_create_info_req buf data =
     (let head = wpos buf;
          len = MSG_FIXED_LEN + length data;
          buf = sc_buf_put_32 buf (word_of_nat len);
          buf = sc_buf_put_8 buf MSG_INFO_REQ;
          buf = sc_buf_put_raw buf data
      in msg_finish head buf)"

definition msg_create_shutdown_req :: "sc_buf \<Rightarrow> bool \<Rightarrow> bool \<times> sc_buf" where
  "msg_create_shutdown_req buf now =
     (let head = wpos buf;
          len = MSG_FIXED_LEN + 1;
          buf = sc_buf_put_32 buf (word_of_nat len);
          buf = sc_buf_put_8 buf MSG_SHUTDOWN_REQ;
          buf = sc_buf_put_bool buf now
      in msg_finish head buf)"

subsection \<open>Parsing\<close>

definition msg_len :: "sc_buf \<Rightarrow> int" where
  "msg_len buf =
     (if sc_buf_size buf < MSG_SIZE_LEN then - 1 else sint (fst (sc_buf_peek_32 buf)))"

text \<open>The rest of the message, as \<^verbatim>\<open>sc_buf_rbuf\<close>, \<^verbatim>\<open>sc_buf_size\<close> and
  \<^verbatim>\<open>sc_buf_mark_read\<close> take it.\<close>

definition msg_rest :: "sc_buf \<Rightarrow> bytes \<times> sc_buf" where
  "msg_rest t = (slice (mem t) (rpos t) (sc_buf_size t), sc_buf_mark_read t (sc_buf_size t))"

definition msg_parse_body :: "u8 \<Rightarrow> sc_buf \<Rightarrow> msg \<times> sc_buf" where
  "msg_parse_body type t =
    (if type = MSG_CONNECT_REQ then
       let (fl, t) = sc_buf_get_32 t; (pr, t) = sc_buf_get_str t; (cl, t) = sc_buf_get_str t;
           (nm, t) = sc_buf_get_str t
       in (Connect_req fl pr cl nm, t)
     else if type = MSG_CONNECT_RESP then
       let (code, t) = sc_buf_get_8 t; (seq, t) = sc_buf_get_64 t; (term, t) = sc_buf_get_64 t;
           (ns, t) = sc_buf_get_str t
       in (Connect_resp code seq term ns, t)
     else if type = MSG_DISCONNECT_REQ then
       let (code, t) = sc_buf_get_8 t; (fl, t) = sc_buf_get_32 t in (Disconnect_req code fl, t)
     else if type = MSG_DISCONNECT_RESP then
       let (code, t) = sc_buf_get_8 t; (fl, t) = sc_buf_get_32 t in (Disconnect_resp code fl, t)
     else if type = MSG_CLIENT_REQ then
       let (ro, t) = sc_buf_get_8 t; (seq, t) = sc_buf_get_64 t; (d, t) = msg_rest t
       in (Client_req (ro \<noteq> 0) seq d, t)
     else if type = MSG_CLIENT_RESP then
       (Client_resp (fst (msg_rest t)), t)
     else if type = MSG_APPEND_REQ then
       let (term, t) = sc_buf_get_64 t; (pi, t) = sc_buf_get_64 t; (pt, t) = sc_buf_get_64 t;
           (co, t) = sc_buf_get_64 t; (ro, t) = sc_buf_get_64 t; (d, t) = msg_rest t
       in (Append_req term pi pt co ro d, t)
     else if type = MSG_APPEND_RESP then
       let (term, t) = sc_buf_get_64 t; (i, t) = sc_buf_get_64 t; (ro, t) = sc_buf_get_64 t;
           (ok, t) = sc_buf_get_bool t
       in (Append_resp term i ro ok, t)
     else if type = MSG_PREVOTE_REQ then
       let (term, t) = sc_buf_get_64 t; (lt, t) = sc_buf_get_64 t; (li, t) = sc_buf_get_64 t
       in (Prevote_req term lt li, t)
     else if type = MSG_PREVOTE_RESP then
       let (term, t) = sc_buf_get_64 t; (i, t) = sc_buf_get_64 t; (g, t) = sc_buf_get_bool t
       in (Prevote_resp term i g, t)
     else if type = MSG_REQVOTE_REQ then
       let (term, t) = sc_buf_get_64 t; (lt, t) = sc_buf_get_64 t; (li, t) = sc_buf_get_64 t
       in (Reqvote_req term lt li, t)
     else if type = MSG_REQVOTE_RESP then
       let (term, t) = sc_buf_get_64 t; (i, t) = sc_buf_get_64 t; (g, t) = sc_buf_get_bool t
       in (Reqvote_resp term i g, t)
     else if type = MSG_SNAPSHOT_REQ then
       let (term, t) = sc_buf_get_64 t; (ro, t) = sc_buf_get_64 t; (st, t) = sc_buf_get_64 t;
           (si, t) = sc_buf_get_64 t; (off, t) = sc_buf_get_64 t; (dn, t) = sc_buf_get_bool t;
           (d, t) = msg_rest t
       in (Snapshot_req term ro st si off dn d, t)
     else if type = MSG_SNAPSHOT_RESP then
       let (term, t) = sc_buf_get_64 t; (ro, t) = sc_buf_get_64 t; (ok, t) = sc_buf_get_bool t;
           (dn, t) = sc_buf_get_bool t
       in (Snapshot_resp term ro ok dn, t)
     else if type = MSG_INFO_REQ then
       let (d, t) = msg_rest t in (Info_req d, t)
     else if type = MSG_SHUTDOWN_REQ then
       let (now, t) = sc_buf_get_bool t in (Shutdown_req now, t)
     else (Unknown_msg type, t))"

definition msg_parse :: "sc_buf \<Rightarrow> rs_rc \<times> (u32 \<times> msg) option \<times> sc_buf" where
  "msg_parse buf =
     (if sc_buf_size buf < MSG_SIZE_LEN then (RS_PARTIAL, None, buf)
      else let (len, buf) = sc_buf_peek_32 buf in
        if unat len > MSG_MAX_SIZE then (RS_INVALID, None, buf)
        else if len = 0 then (RS_PARTIAL, None, buf)
        else if unat len > sc_buf_size buf then (RS_PARTIAL, None, buf)
        else let tmp = sc_buf_wrap (drop (rpos buf) (mem buf)) (unat len) SC_BUF_READ;
                 buf = sc_buf_mark_read buf (unat len);
                 (l, tmp) = sc_buf_get_32 tmp;
                 (type, tmp) = sc_buf_get_8 tmp;
                 (m, tmp) = msg_parse_body type tmp
             in (if sc_buf_valid tmp then RS_OK else RS_INVALID, Some (l, m), buf))"

text \<open>
  The receive loop of \<^verbatim>\<open>server_on_client_recv\<close> and \<^verbatim>\<open>server_on_node_recv\<close>: messages are
  taken off the input buffer until \<^verbatim>\<open>msg_parse\<close> returns something else than \<^verbatim>\<open>RS_OK\<close>.
\<close>

partial_function (option) msg_drain :: "sc_buf \<Rightarrow> (msg list \<times> rs_rc \<times> sc_buf) option" where
  "msg_drain b =
     (case msg_parse b of (rc, r, b') \<Rightarrow>
        if rc = RS_OK
        then Option.bind (msg_drain b') (\<lambda>(ms, rc, b''). Some (snd (the r) # ms, rc, b''))
        else Some ([], rc, b'))"

section \<open>The image of a message\<close>

fun msg_type_of :: "msg \<Rightarrow> u8" where
  "msg_type_of (Connect_req _ _ _ _) = MSG_CONNECT_REQ"
| "msg_type_of (Connect_resp _ _ _ _) = MSG_CONNECT_RESP"
| "msg_type_of (Disconnect_req _ _) = MSG_DISCONNECT_REQ"
| "msg_type_of (Disconnect_resp _ _) = MSG_DISCONNECT_RESP"
| "msg_type_of (Client_req _ _ _) = MSG_CLIENT_REQ"
| "msg_type_of (Client_resp _) = MSG_CLIENT_RESP"
| "msg_type_of (Append_req _ _ _ _ _ _) = MSG_APPEND_REQ"
| "msg_type_of (Append_resp _ _ _ _) = MSG_APPEND_RESP"
| "msg_type_of (Prevote_req _ _ _) = MSG_PREVOTE_REQ"
| "msg_type_of (Prevote_resp _ _ _) = MSG_PREVOTE_RESP"
| "msg_type_of (Reqvote_req _ _ _) = MSG_REQVOTE_REQ"
| "msg_type_of (Reqvote_resp _ _ _) = MSG_REQVOTE_RESP"
| "msg_type_of (Snapshot_req _ _ _ _ _ _ _) = MSG_SNAPSHOT_REQ"
| "msg_type_of (Snapshot_resp _ _ _ _) = MSG_SNAPSHOT_RESP"
| "msg_type_of (Info_req _) = MSG_INFO_REQ"
| "msg_type_of (Shutdown_req _) = MSG_SHUTDOWN_REQ"
| "msg_type_of (Unknown_msg t) = t"

fun msg_payload :: "msg \<Rightarrow> field list" where
  "msg_payload (Connect_req f p c n) = [F32 f, FStr p, FStr c, FStr n]"
| "msg_payload (Connect_resp r s t n) = [F8 r, F64 s, F64 t, FStr n]"
| "msg_payload (Disconnect_req r f) = [F8 r, F32 f]"
| "msg_payload (Disconnect_resp r f) = [F8 r, F32 f]"
| "msg_payload (Client_req ro s d) = [FBool ro, F64 s, FRaw d]"
| "msg_payload (Client_resp d) = [FRaw d]"
| "msg_payload (Append_req t pi pt co ro d) = [F64 t, F64 pi, F64 pt, F64 co, F64 ro, FRaw d]"
| "msg_payload (Append_resp t i ro ok) = [F64 t, F64 i, F64 ro, FBool ok]"
| "msg_payload (Prevote_req t lt li) = [F64 t, F64 lt, F64 li]"
| "msg_payload (Prevote_resp t i g) = [F64 t, F64 i, FBool g]"
| "msg_payload (Reqvote_req t lt li) = [F64 t, F64 lt, F64 li]"
| "msg_payload (Reqvote_resp t i g) = [F64 t, F64 i, FBool g]"
| "msg_payload (Snapshot_req t ro st si off dn d) =
     [F64 t, F64 ro, F64 st, F64 si, F64 off, FBool dn, FRaw d]"
| "msg_payload (Snapshot_resp t ro ok dn) = [F64 t, F64 ro, FBool ok, FBool dn]"
| "msg_payload (Info_req d) = [FRaw d]"
| "msg_payload (Shutdown_req now) = [FBool now]"
| "msg_payload (Unknown_msg t) = []"

definition enc_fields :: "field list \<Rightarrow> bytes" where
  "enc_fields fs = concat (map enc_field fs)"

definition msg_size :: "msg \<Rightarrow> nat" where
  "msg_size m = 5 + length (enc_fields (msg_payload m))"

definition msg_fields :: "msg \<Rightarrow> field list" where
  "msg_fields m = F32 (word_of_nat (msg_size m)) # F8 (msg_type_of m) # msg_payload m"

definition msg_bytes :: "msg \<Rightarrow> bytes" where
  "msg_bytes m = enc_fields (msg_fields m)"

definition msg_ok :: "msg \<Rightarrow> bool" where
  "msg_ok m \<longleftrightarrow> msg_size m \<le> MSG_MAX_SIZE \<and> (\<forall>f \<in> set (msg_payload m). field_ok f) \<and>
     (case m of Unknown_msg _ \<Rightarrow> False
      | Connect_req _ p _ _ \<Rightarrow> p = Some MSG_RESQL_STR
      | _ \<Rightarrow> True)"

fun msg_create :: "msg \<Rightarrow> sc_buf \<Rightarrow> bool \<times> sc_buf" where
  "msg_create (Connect_req f p c n) b = msg_create_connect_req b f c n"
| "msg_create (Connect_resp r s t n) b = msg_create_connect_resp b r s t n"
| "msg_create (Disconnect_req r f) b = msg_create_disconnect_req b r f"
| "msg_create (Disconnect_resp r f) b = msg_create_disconnect_resp b r f"
| "msg_create (Client_req ro s d) b = msg_create_client_req b ro s d"
| "msg_create (Append_req t pi pt co ro d) b = msg_create_append_req b t pi pt co ro d"
| "msg_create (Append_resp t i ro ok) b = msg_create_append_resp b t i ro ok"
| "msg_create (Prevote_req t lt li) b = msg_create_prevote_req b t li lt"
| "msg_create (Prevote_resp t i g) b = msg_create_prevote_resp b t i g"
| "msg_create (Reqvote_req t lt li) b = msg_create_reqvote_req b t li lt"
| "msg_create (Reqvote_resp t i g) b = msg_create_reqvote_resp b t i g"
| "msg_create (Snapshot_req t ro st si off dn d) b = msg_create_snapshot_req b t ro st si off dn d"
| "msg_create (Snapshot_resp t ro ok dn) b = msg_create_snapshot_resp b t ro ok dn"
| "msg_create (Info_req d) b = msg_create_info_req b d"
| "msg_create (Shutdown_req now) b = msg_create_shutdown_req b now"
| "msg_create (Client_resp d) b =
     msg_finalize_client_resp (sc_buf_put_raw (snd (msg_create_client_resp_header b)) d)"
| "msg_create (Unknown_msg t) b = (False, b)"

fun is_client_resp :: "msg \<Rightarrow> bool" where
  "is_client_resp (Client_resp _) = True"
| "is_client_resp _ = False"

lemma enc_fields_simps [simp]:
  "enc_fields [] = []" "enc_fields (f # fs) = enc_field f @ enc_fields fs"
  by (simp_all add: enc_fields_def)

lemma length_msg_bytes: "length (msg_bytes m) = msg_size m"
  by (simp add: msg_bytes_def msg_fields_def msg_size_def)

lemma str_len_enc: "length (enc_str s) < 2 ^ 32 \<Longrightarrow> sc_buf_str_len s = length (enc_str s)"
  by (cases s) (simp_all add: sc_buf_str_len_def enc_str_def)

lemmas msg_creators =
  msg_create_connect_req_def msg_create_connect_resp_def msg_create_disconnect_req_def
  msg_create_disconnect_resp_def msg_create_client_req_def msg_create_prevote_req_def
  msg_create_prevote_resp_def msg_create_reqvote_req_def msg_create_reqvote_resp_def
  msg_create_append_req_def msg_create_append_resp_def msg_create_snapshot_req_def
  msg_create_snapshot_resp_def msg_create_info_req_def msg_create_shutdown_req_def

lemmas msg_lens = MSG_SIZE_LEN_def MSG_TYPE_LEN_def MSG_RC_LEN_def MSG_FIXED_LEN_def

text \<open>The creators write the fields in the order of the image, with its length in front.\<close>

lemma msg_create_fields:
  assumes "msg_ok m" "\<not> is_client_resp m"
  shows "msg_create m b = msg_finish (wpos b) (foldl put_field b (msg_fields m))"
proof (cases m)
  case (Connect_req f p c n)
  then have p: "p = Some MSG_RESQL_STR" and
    l: "length (enc_str p) + length (enc_str c) + length (enc_str n) + 9 \<le> MSG_MAX_SIZE"
    using assms(1) by (auto simp: msg_ok_def msg_size_def)
  then have "sc_buf_str_len p = length (enc_str p)" "sc_buf_str_len c = length (enc_str c)"
    "sc_buf_str_len n = length (enc_str n)"
    by (simp_all add: str_len_enc MSG_MAX_SIZE_def)
  then show ?thesis using Connect_req p
    by (simp add: msg_creators msg_fields_def msg_size_def msg_lens Let_def add.assoc)
next
  case (Connect_resp r s t n)
  then have "length (enc_str n) + 22 \<le> MSG_MAX_SIZE"
    using assms(1) by (simp_all add: msg_ok_def msg_size_def)
  then have "sc_buf_str_len n = length (enc_str n)"
    by (simp_all add: str_len_enc MSG_MAX_SIZE_def)
  then show ?thesis using Connect_resp
    by (simp add: msg_creators msg_fields_def msg_size_def msg_lens Let_def)
next
  case (Unknown_msg t)
  then show ?thesis using assms(1) by (simp add: msg_ok_def)
qed (use assms(2) in \<open>simp_all add: msg_creators msg_fields_def msg_size_def msg_lens Let_def enc_bool_def\<close>)

section \<open>Parsing an image\<close>

lemma wrap_read:
  assumes "sc_buf_wf b" "n \<le> length (sc_buf_data b)"
  defines "t \<equiv> sc_buf_wrap (drop (rpos b) (mem b)) n SC_BUF_READ"
  shows "sc_buf_wf t" "err t = 0" "sc_buf_data t = take n (sc_buf_data b)"
proof -
  note w = sc_buf_wfD [OF assms(1)] and l = length_data [OF assms(1)]
  have n: "n \<le> length (mem b) - rpos b" "n < 2 ^ 32" using w l assms(2) by linarith+
  show "sc_buf_wf t" "err t = 0"
    using n by (simp_all add: t_def sc_buf_wrap_def sc_buf_wf_def)
  show "sc_buf_data t = take n (sc_buf_data b)"
    using drop_mem_data [OF assms(1)] assms(2)
    by (simp add: t_def sc_buf_wrap_def sc_buf_data_def [of "sc_buf.make _ _ _ _ _ _ _", unfolded sc_buf.defs]
        sc_buf_contents_def SC_BUF_READ_def SC_BUF_DATA_def SC_BUF_REF_def)
qed

lemma msg_rest_eq:
  assumes "sc_buf_wf t"
  shows "msg_rest t = (sc_buf_data t, adv t (length (sc_buf_data t)))"
  using take_data_slice [OF assms, of "length (sc_buf_data t)"] length_data [OF assms]
    sc_buf_wfD [OF assms]
  by (simp add: msg_rest_def sc_buf_size_data [OF assms] sc_buf_mark_read_def adv_def)

lemmas get_simps = get_fixed get_bool msg_rest_eq

lemma parse_body_payload:
  assumes ok: "msg_ok m" and w: "sc_buf_wf t" and e: "err t = 0"
    and d: "sc_buf_data t = enc_fields (msg_payload m)"
  shows "fst (msg_parse_body (msg_type_of m) t) = m \<and>
    err (snd (msg_parse_body (msg_type_of m) t)) = 0"
proof (cases m)
  case (Connect_req f p c n)
  then have so: "str_ok p" "str_ok c" "str_ok n"
    using ok by (auto simp: msg_ok_def)
  let ?t1 = "adv t 4" and ?t2 = "adv t (4 + length (enc_str p))"
  let ?t3 = "adv t (4 + length (enc_str p) + length (enc_str c))"
  have 1: "sc_buf_get_32 t = (f, ?t1)"
    using get_fixed(3) [OF w] d Connect_req by simp
  have 2: "sc_buf_get_str ?t1 = (p, ?t2)"
    using get_str [of ?t1 p "enc_str c @ enc_str n"] w d so Connect_req by (simp add: buf_simps)
  have 3: "sc_buf_get_str ?t2 = (c, ?t3)"
    using get_str [of ?t2 c "enc_str n"] w d so Connect_req by (simp add: buf_simps)
  have 4: "sc_buf_get_str ?t3 = (n, adv ?t3 (length (enc_str n)))"
    using get_str [of ?t3 n "[]"] w d so Connect_req by (simp add: buf_simps)
  show ?thesis using Connect_req e by (simp add: msg_parse_body_def 1 2 3 4 buf_simps)
next
  case (Connect_resp r s u n)
  then have so: "str_ok n" using ok by (auto simp: msg_ok_def)
  let ?t = "adv t 17"
  have "sc_buf_get_str ?t = (n, adv ?t (length (enc_str n)))"
    using get_str [of ?t n "[]"] w d so Connect_resp by (simp add: buf_simps)
  then show ?thesis using Connect_resp e w d
    by (simp add: msg_parse_body_def msg_types get_simps buf_simps)
next
  case (Unknown_msg u)
  then show ?thesis using ok by (simp add: msg_ok_def)
qed (use e w d in \<open>simp_all add: msg_parse_body_def msg_types get_simps buf_simps enc_bool_def\<close>)

lemma msg_parse_bytes:
  assumes w: "sc_buf_wf b" and ok: "msg_ok m" and d: "sc_buf_data b = msg_bytes m @ rest"
  shows "msg_parse b = (RS_OK, Some (word_of_nat (msg_size m), m), adv b (msg_size m))"
proof -
  let ?n = "msg_size m"
  have n: "5 \<le> ?n" "?n \<le> MSG_MAX_SIZE" "length (msg_bytes m) = ?n"
    using ok by (simp_all add: msg_ok_def length_msg_bytes) (simp add: msg_size_def)
  then have u: "unat (word_of_nat ?n :: u32) = ?n" by (simp add: MSG_MAX_SIZE_def)
  have nz: "(word_of_nat ?n :: u32) \<noteq> 0" using u n(1) by (metis not_numeral_le_zero unsigned_0)
  have h: "msg_bytes m = le32 (word_of_nat ?n) @ [msg_type_of m] @ enc_fields (msg_payload m)"
    by (simp add: msg_bytes_def msg_fields_def)
  have l: "4 \<le> length (sc_buf_data b)" "?n \<le> length (sc_buf_data b)" using d n by simp_all
  have p: "sc_buf_peek_32 b = (word_of_nat ?n, b)"
    using peek_32_ok [OF w l(1)] d h by simp
  let ?t = "sc_buf_wrap (drop (rpos b) (mem b)) ?n SC_BUF_READ"
  note t = wrap_read [OF w l(2)]
  have td: "sc_buf_data ?t = msg_bytes m" using t(3) d n(3) by simp
  have g1: "sc_buf_get_32 ?t = (word_of_nat ?n, adv ?t 4)"
    using get_fixed(3) [OF t(1)] td h by simp
  have g2: "sc_buf_get_8 (adv ?t 4) = (msg_type_of m, adv ?t 5)"
    using get_fixed(1) [of "adv ?t 4"] t(1) td h by (simp add: buf_simps)
  have w5: "sc_buf_wf (adv ?t 5)" using wf_adv [OF t(1), of 5] td n by simp
  have d5: "sc_buf_data (adv ?t 5) = enc_fields (msg_payload m)"
    unfolding data_adv td using h by simp
  have e5: "err (adv ?t 5) = 0" using t(2) by (simp add: buf_simps)
  have b: "fst (msg_parse_body (msg_type_of m) (adv ?t 5)) = m"
    "err (snd (msg_parse_body (msg_type_of m) (adv ?t 5))) = 0"
    using parse_body_payload [OF ok w5 e5 d5] by simp_all
  have a: "sc_buf_mark_read b ?n = adv b ?n"
    using l(2) length_data [OF w] sc_buf_wfD [OF w] by (simp add: sc_buf_mark_read_def adv_def)
  obtain m' t' where mt: "msg_parse_body (msg_type_of m) (adv ?t 5) = (m', t')" by force
  show ?thesis
    using l n b u nz mt
    by (simp add: msg_parse_def sc_buf_size_data [OF w] p g1 g2 a MSG_SIZE_LEN_def Let_def sc_buf_valid_def)
qed

lemma msg_parse_prefix:
  assumes w: "sc_buf_wf b" and ok: "msg_ok m" and k: "k < msg_size m"
    and d: "sc_buf_data b = take k (msg_bytes m)"
  shows "msg_parse b = (RS_PARTIAL, None, b)"
proof (cases "k < 4")
  case True
  then have "length (sc_buf_data b) < 4" using d by simp
  then show ?thesis by (simp add: msg_parse_def sc_buf_size_data [OF w] MSG_SIZE_LEN_def)
next
  case False
  let ?n = "msg_size m"
  have n: "?n \<le> MSG_MAX_SIZE" "length (msg_bytes m) = ?n"
    using ok by (simp_all add: msg_ok_def length_msg_bytes)
  then have u: "unat (word_of_nat ?n :: u32) = ?n" by (simp add: MSG_MAX_SIZE_def)
  have l: "length (sc_buf_data b) = k" using d k n(2) by simp
  obtain z where "msg_bytes m = le32 (word_of_nat ?n) @ z"
    by (simp add: msg_bytes_def msg_fields_def)
  then have "sc_buf_data b = le32 (word_of_nat ?n) @ take (k - 4) z" using d False by simp
  then have "sc_buf_peek_32 b = (word_of_nat ?n, b)"
    using peek_32_ok [OF w] by simp
  then show ?thesis
    using False n u l k by (simp add: msg_parse_def sc_buf_size_data [OF w] MSG_SIZE_LEN_def)
qed

lemma msg_drain_stream:
  assumes "sc_buf_wf b" "\<forall>m \<in> set ms. msg_ok m" "msg_ok m" "k < msg_size m"
    and "sc_buf_data b = concat (map msg_bytes ms) @ take k (msg_bytes m)"
  shows "msg_drain b = Some (ms, RS_PARTIAL, adv b (length (concat (map msg_bytes ms))))"
  using assms
proof (induction ms arbitrary: b)
  case Nil
  then show ?case by (subst msg_drain.simps) (simp add: msg_parse_prefix)
next
  case (Cons m' ms)
  have p: "msg_parse b = (RS_OK, Some (word_of_nat (msg_size m'), m'), adv b (msg_size m'))"
    using Cons.prems msg_parse_bytes [of b m' "concat (map msg_bytes ms) @ take k (msg_bytes m)"] by simp
  have "msg_drain (adv b (msg_size m')) =
      Some (ms, RS_PARTIAL, adv (adv b (msg_size m')) (length (concat (map msg_bytes ms))))"
    using Cons.prems by (intro Cons.IH) (simp_all add: buf_simps length_msg_bytes)
  then show ?case
    by (subst msg_drain.simps) (simp add: p buf_simps length_msg_bytes)
qed

section \<open>Arbitrary input\<close>

lemma msg_parse_safe:
  assumes "sc_buf_wf b" "msg_parse b = (rc, r, b')"
  shows "read_step b b' \<and> (if rc = RS_OK then \<exists>n. 0 < n \<and> n \<le> length (sc_buf_data b) \<and> b' = adv b n \<and> r \<noteq> None
     else True)"
proof (cases "length (sc_buf_data b) < 4")
  case True
  then show ?thesis using assms
    by (simp add: msg_parse_def sc_buf_size_data MSG_SIZE_LEN_def read_step_def)
next
  case False
  let ?len = "unat (de32 (sc_buf_data b))"
  have p: "sc_buf_peek_32 b = (de32 (sc_buf_data b), b)"
    using peek_32_ok assms(1) False by simp
  let ?t = "sc_buf_wrap (drop (rpos b) (mem b)) ?len SC_BUF_READ"
  obtain l t1 where 1: "sc_buf_get_32 ?t = (l, t1)" by force
  obtain ty t2 where 2: "sc_buf_get_8 t1 = (ty, t2)" by force
  obtain m t3 where 3: "msg_parse_body ty t2 = (m, t3)" by force
  have "msg_parse b =
      (if ?len > MSG_MAX_SIZE then (RS_INVALID, None, b)
       else if ?len = 0 \<or> ?len > length (sc_buf_data b) then (RS_PARTIAL, None, b)
       else (if sc_buf_valid t3 then RS_OK else RS_INVALID, Some (l, m), sc_buf_mark_read b ?len))"
    using False
    by (simp add: msg_parse_def sc_buf_size_data [OF assms(1)] MSG_SIZE_LEN_def p 1 2 3 Let_def
        unat_eq_0)
  then consider "b' = b" "rc \<noteq> RS_OK"
    | "0 < ?len" "?len \<le> length (sc_buf_data b)" "b' = sc_buf_mark_read b ?len" "r \<noteq> None"
    using assms(2) by (simp split: if_splits)
  then show ?thesis
  proof cases
    case 1
    then show ?thesis using assms(1) by (simp add: read_step_def)
  next
    case 2
    then have "b' = adv b ?len"
      using length_data [OF assms(1)] sc_buf_wfD [OF assms(1)] by (simp add: sc_buf_mark_read_def adv_def)
    then show ?thesis using 2 wf_adv [OF assms(1), of ?len]
      by (auto simp: read_step_def buf_simps)
  qed
qed

lemma msg_drain_total:
  "sc_buf_wf b \<Longrightarrow> \<exists>ms rc b'. msg_drain b = Some (ms, rc, b') \<and> rc \<noteq> RS_OK \<and> read_step b b'"
proof (induction "length (sc_buf_data b)" arbitrary: b rule: less_induct)
  case less
  obtain rc r b1 where p: "msg_parse b = (rc, r, b1)" by (cases "msg_parse b") auto
  note s = msg_parse_safe [OF less.prems p]
  show ?case
  proof (cases "rc = RS_OK")
    case True
    then obtain n where n: "0 < n" "n \<le> length (sc_buf_data b)" "b1 = adv b n" using s by auto
    then have "length (sc_buf_data b1) < length (sc_buf_data b)" "sc_buf_wf b1"
      using s by (simp_all add: buf_simps read_step_def)
    from less.hyps [OF this] obtain ms rc' b' where
      "msg_drain b1 = Some (ms, rc', b')" "rc' \<noteq> RS_OK" "read_step b1 b'" by blast
    then show ?thesis using p True s read_step_trans [of b b1 b']
      by (subst msg_drain.simps) simp
  next
    case False
    then show ?thesis using p s by (subst msg_drain.simps) simp
  qed
qed

section \<open>Creation\<close>

lemma msg_finish_cases:
  assumes e: "emits j b b' xs" and t: "tame b j (length xs)"
  shows "case msg_finish (wpos b) b' of (ok, b'') \<Rightarrow>
     sc_buf_wf b'' \<and> rpos b'' = rpos b \<and>
     sc_buf_contents b'' = sc_buf_contents b @ (if ok then xs else []) \<and>
     (ok \<longleftrightarrow> sc_buf_valid b'')"
proof (cases "err b' = 0")
  case True
  then show ?thesis
    using emits_data [OF e t] by (simp add: msg_finish_def sc_buf_valid_def)
next
  case False
  have w: "sc_buf_wf b" "sc_buf_wf b'" "rpos b' = rpos b"
    using e [unfolded emits_def, rule_format, of 0 0] t by (simp_all add: tame_def)
  obtain zs where z: "sc_buf_contents b' = sc_buf_contents b @ zs"
    using e [unfolded emits_def, rule_format, of 0 0] t by auto
  have "wpos b \<le> wpos b'"
    using arg_cong [OF z, of length] w by simp
  moreover have "take (wpos b) (sc_buf_contents b') = sc_buf_contents b"
    using z w(1) by simp
  ultimately show ?thesis
    using False w sc_buf_wfD [OF w(1)] sc_buf_wfD [OF w(2)]
    by (simp add: msg_finish_def sc_buf_valid_def sc_buf_set_wpos_def sc_buf_wf_def
        sc_buf_contents_def min_def)
qed

lemma msg_create_emits:
  assumes "msg_ok m"
  shows "emits (2 * length (msg_fields m)) b (foldl put_field b (msg_fields m)) (msg_bytes m)"
  using field.emits_foldl [of "msg_fields m" b] assms
  by (simp add: msg_bytes_def enc_fields_def msg_ok_def msg_fields_def)

lemma client_resp_emits:
  "emits 3 b (sc_buf_put_raw (snd (msg_create_client_resp_header b)) d) (le32 0 @ [MSG_CLIENT_RESP] @ d)"
  using emits_trans [OF emits_trans [OF emits_32 emits_8] emits_raw, of b 0 MSG_CLIENT_RESP d]
  by (simp add: msg_create_client_resp_header_def eval_nat_numeral Let_def)

lemma client_resp_create:
  assumes ok: "msg_ok (Client_resp d)" and w: "sc_buf_wf b" "wpos b = 0"
    and r: "room b 3 (msg_size (Client_resp d))"
  shows "case msg_create (Client_resp d) b of (ok, b') \<Rightarrow>
     ok \<and> sc_buf_wf b' \<and> rpos b' = rpos b \<and> sc_buf_contents b' = msg_bytes (Client_resp d)"
proof -
  let ?xs = "le32 0 @ [MSG_CLIENT_RESP] @ d" and ?n = "msg_size (Client_resp d)"
  define b1 where "b1 = sc_buf_put_raw (snd (msg_create_client_resp_header b)) d"
  note e = client_resp_emits [of b d, folded b1_def]
  have n: "length ?xs = ?n" by (simp add: msg_size_def)
  have r': "room b 3 (length ?xs)" using r by (simp only: n)
  have t: "tame b 3 (length ?xs)" by (rule room_tame [OF w(1) r'])
  have v: "err b1 = 0" by (rule emits_room [OF e t r'])
  note f = emits_data [OF e t v]
  have c: "sc_buf_contents b1 = ?xs" using f(5) w by (simp add: sc_buf_contents_def)
  have p: "wpos b1 = ?n" using f(6) w(2) n by simp
  have "0 + 4 \<le> wpos b1" using p by (simp add: msg_size_def)
  note q = set_32_at_ok [OF f(2) v this, of "word_of_nat (wpos b1)"]
  have "msg_bytes (Client_resp d) = le32 (word_of_nat ?n) @ [MSG_CLIENT_RESP] @ d"
    by (simp add: msg_bytes_def msg_fields_def)
  then have "write_at ?xs 0 (le32 (word_of_nat ?n)) = msg_bytes (Client_resp d)"
    by (simp add: write_at_def)
  then show ?thesis
    using q v c f(4) p
    by (simp add: msg_finalize_client_resp_def Let_def sc_buf_valid_def b1_def [symmetric])
qed

section \<open>Properties\<close>

text \<open>
  C20: What a peer sends is what the other end receives: a message of any type that is created in a
  drained buffer with room for it is parsed back field by field, and nothing is left over. (A
  client response is built in place and patched with its length, at the front of the buffer.)
\<close>

theorem msg_round_trip:
  assumes "msg_ok m" "sc_buf_wf b" "sc_buf_data b = []" "is_client_resp m \<longrightarrow> wpos b = 0"
    and "room b (2 * length (msg_fields m)) (msg_size m)"
  shows "case msg_create m b of (ok, b') \<Rightarrow>
     ok \<and> (\<exists>b''. msg_parse b' = (RS_OK, Some (word_of_nat (msg_size m), m), b'') \<and> sc_buf_data b'' = [])"
proof -
  obtain ok b' where c: "msg_create m b = (ok, b')" by force
  have "rpos b = wpos b"
    using assms(2,3) length_data [of b] sc_buf_wfD(1) [of b] by simp
  then have d: "sc_buf_contents b' = sc_buf_contents b @ msg_bytes m \<Longrightarrow> rpos b' = rpos b \<Longrightarrow>
      sc_buf_data b' = msg_bytes m"
    using assms(2) by (simp add: sc_buf_data_def)
  have "ok \<and> sc_buf_wf b' \<and> sc_buf_data b' = msg_bytes m"
  proof (cases "is_client_resp m")
    case True
    then obtain x where x: "m = Client_resp x" by (cases m) auto
    have "room b 3 (msg_size m)" using assms(5) x by (auto simp: room_def msg_fields_def)
    then show ?thesis
      using client_resp_create [of x b] c d x assms True by (simp add: sc_buf_contents_def)
  next
    case False
    note e = msg_create_emits [OF assms(1), of b]
    have t: "tame b (2 * length (msg_fields m)) (length (msg_bytes m))"
      using room_tame [OF assms(2,5)] by (simp add: length_msg_bytes)
    show ?thesis
      using msg_finish_cases [OF e t] emits_room [OF e t] c d assms(5)
      by (auto simp: msg_create_fields [OF assms(1) False] length_msg_bytes msg_finish_def
          sc_buf_valid_def split: if_splits)
  qed
  then show ?thesis
    using msg_parse_bytes [OF _ assms(1), of b' "[]"] c
    by (auto simp: buf_simps length_msg_bytes)
qed

theorem msg_round_trip_witness:
  "(case msg_create (Append_req 5 10 4 9 3 [1, 2]) (sc_buf_init 64) of (ok, b') \<Rightarrow>
     ok \<and> (\<exists>b'' n. msg_parse b' = (RS_OK, Some (n, Append_req 5 10 4 9 3 [1, 2]), b'')))"
proof -
  let ?m = "Append_req 5 10 4 9 3 [1, 2]"
  have "msg_ok ?m" "sc_buf_wf (sc_buf_init 64)" "sc_buf_data (sc_buf_init 64) = []"
    "is_client_resp ?m \<longrightarrow> wpos (sc_buf_init 64) = 0"
    "room (sc_buf_init 64) (2 * length (msg_fields ?m)) (msg_size ?m)"
    by (simp_all add: msg_ok_def msg_size_def MSG_MAX_SIZE_def msg_fields_def room_def
        sc_buf_init_def sc_buf_wrap_def sc_buf_wf_def sc_buf_data_def sc_buf_contents_def)
  from msg_round_trip [OF this] show ?thesis by auto
qed

text \<open>
  C21: Creating a message appends exactly its image, whose length field is its length, or fails
  and leaves the contents of the buffer as they were; it does not fail when there is room.
\<close>

theorem msg_create_all_or_nothing:
  assumes "msg_ok m" "\<not> is_client_resp m" "tame b (2 * length (msg_fields m)) (msg_size m)"
  shows "case msg_create m b of (ok, b') \<Rightarrow>
     sc_buf_wf b' \<and> rpos b' = rpos b \<and>
     sc_buf_contents b' = sc_buf_contents b @ (if ok then msg_bytes m else []) \<and>
     (room b (2 * length (msg_fields m)) (msg_size m) \<longrightarrow> ok)"
proof -
  note e = msg_create_emits [OF assms(1), of b]
  have t: "tame b (2 * length (msg_fields m)) (length (msg_bytes m))"
    using assms(3) by (simp add: length_msg_bytes)
  show ?thesis
    using msg_finish_cases [OF e t] emits_room [OF e t]
    by (auto simp: msg_create_fields [OF assms(1,2)] length_msg_bytes msg_finish_def
        sc_buf_valid_def split: if_splits)
qed

theorem msg_create_all_or_nothing_witness:
  "(case msg_create (Reqvote_req 5 4 17) (sc_buf_init 64) of (ok, b') \<Rightarrow>
     ok \<and> sc_buf_contents b' = msg_bytes (Reqvote_req 5 4 17))"
proof -
  have "msg_ok (Reqvote_req 5 4 17)" "\<not> is_client_resp (Reqvote_req 5 4 17)"
    "tame (sc_buf_init 64) (2 * length (msg_fields (Reqvote_req 5 4 17))) (msg_size (Reqvote_req 5 4 17))"
    "room (sc_buf_init 64) (2 * length (msg_fields (Reqvote_req 5 4 17))) (msg_size (Reqvote_req 5 4 17))"
    by (simp_all add: msg_ok_def msg_size_def MSG_MAX_SIZE_def msg_fields_def tame_def room_def
        sc_buf_init_def sc_buf_wrap_def sc_buf_wf_def)
  with msg_create_all_or_nothing [of "Reqvote_req 5 4 17" "sc_buf_init 64"] show ?thesis
    by (auto simp: sc_buf_contents_def sc_buf_init_def sc_buf_wrap_def)
qed





end
