(* ===== verification/Sc_Str.thy ===== *)
theory Sc_Str
  imports Resql_Prelude "HOL-Library.Sublist"
begin

text \<open>
  Length-prefixed strings, \<^verbatim>\<open>lib/sc/sc_str.c\<close>. A string is its bytes, the null pointer \<open>None\<close>;
  the length in front of it is the length of the list. Allocation is \<^verbatim>\<open>rs_malloc\<close>, which does
  not return when it fails. The tokenizer works in place and is modelled on the memory of the string,
  its terminator included.
\<close>

section \<open>Definitions\<close>

definition SC_STR_MAX :: nat where "SC_STR_MAX = 2 ^ 32 - 1 - 4 - 1"

definition sc_str_create_len :: "bytes option \<Rightarrow> nat \<Rightarrow> bytes option" where
  "sc_str_create_len str len = (case str of None \<Rightarrow> None | Some s \<Rightarrow> Some (take len s))"

definition sc_str_create :: "cstring option \<Rightarrow> bytes option" where
  "sc_str_create str =
     (case str of
        None \<Rightarrow> None
      | Some s \<Rightarrow> if length s > SC_STR_MAX then None else sc_str_create_len (Some s) (length s))"

definition sc_str_destroy :: "bytes option \<Rightarrow> bytes option" where
  "sc_str_destroy str = None"

definition sc_str_len :: "bytes option \<Rightarrow> int" where
  "sc_str_len str = (case str of None \<Rightarrow> - 1 | Some s \<Rightarrow> int (length s))"

definition sc_str_dup :: "bytes option \<Rightarrow> bytes option" where
  "sc_str_dup str = (case str of None \<Rightarrow> None | Some s \<Rightarrow> sc_str_create_len (Some s) (length s))"

definition sc_str_set :: "bytes option \<Rightarrow> cstring option \<Rightarrow> bool \<times> bytes option" where
  "sc_str_set str param =
     (case sc_str_create param of None \<Rightarrow> (False, str) | Some c \<Rightarrow> (True, Some c))"

definition sc_str_append :: "bytes option \<Rightarrow> cstring \<Rightarrow> bool \<times> bytes option" where
  "sc_str_append str param =
     (case str of
        None \<Rightarrow> (sc_str_create (Some param) \<noteq> None, sc_str_create (Some param))
      | Some s \<Rightarrow>
          if length param > SC_STR_MAX - length s then (False, str)
          else (True, Some (s @ param)))"

definition sc_str_cmp :: "bytes \<Rightarrow> bytes \<Rightarrow> bool" where
  "sc_str_cmp str other \<longleftrightarrow> length str = length other \<and> take (length str) str = take (length str) other"

text \<open>\<^verbatim>\<open>strcspn\<close> and \<^verbatim>\<open>strspn\<close> at a position of a terminated string.\<close>

definition strcspn :: "bytes \<Rightarrow> nat \<Rightarrow> bytes \<Rightarrow> nat" where
  "strcspn m a delim = length (takeWhile (\<lambda>c. c \<noteq> 0 \<and> c \<notin> set delim) (drop a m))"

definition strspn :: "bytes \<Rightarrow> nat \<Rightarrow> bytes \<Rightarrow> nat" where
  "strspn m a cs = length (takeWhile (\<lambda>c. c \<noteq> 0 \<and> c \<in> set cs) (drop a m))"

text \<open>\<^verbatim>\<open>swap\<close> exchanges the byte at \<open>d\<close> with the one behind the \<open>n\<close> bytes of the string.\<close>

definition str_swap :: "bytes \<Rightarrow> nat \<Rightarrow> nat \<Rightarrow> bytes" where
  "str_swap m n d = (let tmp = m ! n in (m[n := m ! d])[d := tmp])"

definition sc_str_token_begin ::
    "bytes \<Rightarrow> nat \<Rightarrow> nat option \<Rightarrow> bytes \<Rightarrow> nat option \<times> nat option \<times> bytes" where
  "sc_str_token_begin m n save delim =
     (let (it, m) = (case save of
          None \<Rightarrow> (Some 0, m)
        | Some it \<Rightarrow> let m = str_swap m n it in (if m ! it = 0 then None else Some (it + 1), m))
      in case it of
           None \<Rightarrow> (None, save, m)
         | Some it \<Rightarrow>
             let save = it + strcspn m it delim in (Some it, Some save, str_swap m n save))"

definition sc_str_token_end :: "bytes \<Rightarrow> nat \<Rightarrow> nat \<Rightarrow> bytes" where
  "sc_str_token_end m n save = (if m ! n = 0 then m else str_swap m n save)"

text \<open>The loop \<^verbatim>\<open>while ((tok = sc_str_token_begin(str, &save, delim)) != NULL)\<close>.\<close>

partial_function (option) token_loop :: "bytes \<Rightarrow> nat \<Rightarrow> nat option \<Rightarrow> bytes \<Rightarrow> (cstring list \<times> bytes) option" where
  "token_loop m n save delim =
     (case sc_str_token_begin m n save delim of
        (None, save, m) \<Rightarrow> Some ([], m)
      | (Some it, save, m) \<Rightarrow>
          Option.bind (token_loop m n save delim) (\<lambda>(toks, m'). Some (cstr_at m it # toks, m')))"

text \<open>The loop of \<^verbatim>\<open>sc_str_trim\<close> from the end of the string.\<close>

fun trim_end :: "bytes \<Rightarrow> bytes \<Rightarrow> nat \<Rightarrow> nat \<Rightarrow> nat" where
  "trim_end s cs hd_pos e =
     (if e > hd_pos
      then if s ! (e - 1) \<notin> set cs then e else trim_end s cs hd_pos (e - 1)
      else e)"

definition sc_str_trim :: "bytes option \<Rightarrow> bytes \<Rightarrow> bool \<times> bytes option" where
  "sc_str_trim str cs =
     (case str of
        None \<Rightarrow> (True, None)
      | Some s \<Rightarrow>
          let hd_pos = strspn s 0 cs; e = trim_end s cs hd_pos (length s)
          in if hd_pos \<noteq> 0 \<or> e \<noteq> length s
             then (True, sc_str_create_len (Some (drop hd_pos s)) (e - hd_pos))
             else (True, str))"

definition sc_str_substring :: "bytes option \<Rightarrow> nat \<Rightarrow> nat \<Rightarrow> bool \<times> bytes option" where
  "sc_str_substring str start e =
     (case str of
        None \<Rightarrow> (False, None)
      | Some s \<Rightarrow>
          if start > length s \<or> e > length s \<or> start > e then (False, str)
          else (True, sc_str_create_len (Some (drop start s)) (e - start)))"

text \<open>\<^verbatim>\<open>strstr\<close> from a position: the first position at or after it where \<open>r\<close> occurs.\<close>

fun strstr :: "bytes \<Rightarrow> bytes \<Rightarrow> nat option" where
  "strstr r [] = (if r = [] then Some 0 else None)"
| "strstr r (c # s) = (if prefix r (c # s) then Some 0 else map_option Suc (strstr r s))"

definition strstr_at :: "bytes \<Rightarrow> nat \<Rightarrow> bytes \<Rightarrow> nat option" where
  "strstr_at s a r = map_option (\<lambda>i. a + i) (strstr r (drop a s))"

text \<open>The three loops of \<^verbatim>\<open>sc_str_replace\<close>: overwriting in place, measuring, copying.\<close>

partial_function (option) replace_inplace :: "bytes \<Rightarrow> nat \<Rightarrow> bytes \<Rightarrow> bytes \<Rightarrow> bytes option" where
  "replace_inplace s orig rep wth =
     (case strstr_at s orig rep of
        None \<Rightarrow> Some s
      | Some i \<Rightarrow> replace_inplace (write_at s i wth) (i + length rep) rep wth)"

partial_function (option) replace_measure ::
    "bytes \<Rightarrow> nat \<Rightarrow> bytes \<Rightarrow> int \<Rightarrow> int \<Rightarrow> nat \<Rightarrow> (int \<times> nat) option option" where
  "replace_measure s tmp rep diff sz count =
     (case strstr_at s tmp rep of
        None \<Rightarrow> Some (Some (sz, count))
      | Some i \<Rightarrow>
          if sz > int SC_STR_MAX - diff then Some None
          else replace_measure s (i + length rep) rep diff (sz + diff) (count + 1))"

primrec replace_copy :: "nat \<Rightarrow> bytes \<Rightarrow> nat \<Rightarrow> bytes \<Rightarrow> bytes \<Rightarrow> bytes" where
  "replace_copy 0 s orig rep wth = drop orig s"
| "replace_copy (Suc count) s orig rep wth =
     (let i = the (strstr_at s orig rep)
      in slice s orig (i - orig) @ wth @ replace_copy count s (i + length rep) rep wth)"

definition sc_str_replace :: "bytes option \<Rightarrow> cstring \<Rightarrow> cstring \<Rightarrow> (bool \<times> bytes option) option" where
  "sc_str_replace str rep wth =
     (case str of
        None \<Rightarrow> Some (True, None)
      | Some s \<Rightarrow>
          if length rep \<ge> UINT32_MAX \<or> length wth \<ge> UINT32_MAX then Some (False, str)
          else let diff = int (length wth) - int (length rep) in
            if diff = 0 then map_option (\<lambda>s. (True, Some s)) (replace_inplace s 0 rep wth)
            else Option.bind (replace_measure s 0 rep diff (int (length s)) 0) (\<lambda>r. case r of
                None \<Rightarrow> Some (False, str)
              | Some (sz, count) \<Rightarrow>
                  if count = 0 then Some (True, str)
                  else Some (True, Some (replace_copy count s 0 rep wth))))"

section \<open>Tokens\<close>

text \<open>Cutting a string at every delimiter.\<close>

fun split_at :: "bytes \<Rightarrow> bytes \<Rightarrow> bytes list" where
  "split_at delim [] = [[]]"
| "split_at delim (c # s) =
     (if c \<in> set delim then [] # split_at delim s
      else (case split_at delim s of [] \<Rightarrow> [[c]] | t # ts \<Rightarrow> (c # t) # ts))"

lemma split_at_rec:
  "split_at delim s = takeWhile (\<lambda>c. c \<notin> set delim) s #
     (case dropWhile (\<lambda>c. c \<notin> set delim) s of [] \<Rightarrow> [] | c # r \<Rightarrow> split_at delim r)"
  by (induction s) (auto split: list.split)

lemma case_drop:
  assumes "k \<le> length s"
  shows "(case drop k s of [] \<Rightarrow> x | c # r \<Rightarrow> f r) = (if k = length s then x else f (drop (Suc k) s))"
proof (cases "k = length s")
  case False
  then have "drop k s = s ! k # drop (Suc k) s" using assms by (simp add: Cons_nth_drop_Suc)
  then show ?thesis using False by simp
qed simp

lemma str_swap_alt:
  assumes "length s = n" "d \<le> n"
  shows "str_swap (s @ [0]) n d =
    (if d = n then s @ [0] else take d s @ 0 # drop (Suc d) s @ [s ! d])"
proof (cases "d = n")
  case True
  then show ?thesis using assms by (simp add: str_swap_def)
next
  case False
  then have "s[d := 0] = take d s @ 0 # drop (Suc d) s" using assms by (intro upd_conv_take_nth_drop) simp
  then show ?thesis using False assms
    by (simp add: str_swap_def nth_append list_update_append)
qed

lemma length_str_swap [simp]: "length (str_swap m n d) = length m"
  by (simp add: str_swap_def Let_def)

lemma str_swap_swap: "n < length m \<Longrightarrow> d < length m \<Longrightarrow> str_swap (str_swap m n d) n d = m"
  by (auto simp: str_swap_def Let_def nth_list_update intro!: nth_equalityI)

text \<open>A call, from the string as it was: the token up to the next delimiter.\<close>

lemma token_begin_at:
  assumes s: "0 \<notin> set s" "length s = n" "0 \<notin> set delim" and a: "a \<le> n"
  defines "t \<equiv> takeWhile (\<lambda>c. c \<notin> set delim) (drop a s)"
  shows "a + strcspn (s @ [0]) a delim = a + length t" "a + length t \<le> n"
    "cstr_at (str_swap (s @ [0]) n (a + length t)) a = t"
proof -
  have "takeWhile (\<lambda>c. c \<noteq> 0 \<and> c \<notin> set delim) (drop a s) = t"
    unfolding t_def using s(1) by (intro takeWhile_cong) (auto dest: in_set_dropD)
  then show "a + strcspn (s @ [0]) a delim = a + length t"
    using a s(2) by (simp add: strcspn_def takeWhile_tail)
  have l: "length t \<le> n - a" unfolding t_def using length_takeWhile_le [of _ "drop a s"] s(2) by simp
  then show le: "a + length t \<le> n" using a by simp
  have t: "take (length t) (drop a s) = t" unfolding t_def by (rule takeWhile_eq_take [symmetric])
  have "\<exists>r. drop a (str_swap (s @ [0]) n (a + length t)) = t @ 0 # r"
  proof (cases "a + length t = n")
    case True
    then have "t = drop a s" using t s(2) by simp
    then show ?thesis using True s(2) a by (simp add: str_swap_alt)
  next
    case False
    then show ?thesis using str_swap_alt [OF s(2) le] t s(2) le by (simp add: drop_take)
  qed
  moreover have "0 \<notin> set t" unfolding t_def using s(1) by (auto dest: set_takeWhileD in_set_dropD)
  ultimately show "cstr_at (str_swap (s @ [0]) n (a + length t)) a = t"
    using cstr_at_terminated by blast
qed

lemma token_loop_from:
  assumes s: "0 \<notin> set s" "length s = n" "0 \<notin> set delim" and d: "d \<le> n"
  shows "token_loop (str_swap (s @ [0]) n d) n (Some d) delim =
    Some (if d = n then [] else split_at delim (drop (Suc d) s), s @ [0])"
  using d
proof (induction "n - d" arbitrary: d rule: less_induct)
  case less
  have sw: "str_swap (str_swap (s @ [0]) n d) n d = s @ [0]"
    using s(2) less.prems by (intro str_swap_swap) simp_all
  show ?case
  proof (cases "d = n")
    case True
    then show ?thesis
      using s(2) sw by (subst token_loop.simps) (simp add: sc_str_token_begin_def nth_append)
  next
    case False
    let ?t = "takeWhile (\<lambda>c. c \<notin> set delim) (drop (Suc d) s)"
    have a: "Suc d \<le> n" using False less.prems by simp
    note b = token_begin_at [OF s a]
    have nz: "(s @ [0]) ! d \<noteq> 0" using a s(1,2) by (simp add: nth_append) (metis Suc_le_eq nth_mem)
    have c: "sc_str_token_begin (str_swap (s @ [0]) n d) n (Some d) delim =
        (Some (Suc d), Some (Suc d + length ?t), str_swap (s @ [0]) n (Suc d + length ?t))"
      using sw nz b(1) by (simp add: sc_str_token_begin_def Let_def)
    have ih: "token_loop (str_swap (s @ [0]) n (Suc d + length ?t)) n (Some (Suc d + length ?t)) delim =
        Some (if Suc d + length ?t = n then [] else split_at delim (drop (Suc (Suc d + length ?t)) s), s @ [0])"
      using a b(2) by (intro less.hyps) simp_all
    have dw: "dropWhile (\<lambda>c. c \<notin> set delim) (drop (Suc d) s) = drop (Suc d + length ?t) s"
      by (simp add: dropWhile_eq_drop add.commute)
    have "split_at delim (drop (Suc d) s) = ?t #
        (if Suc d + length ?t = n then [] else split_at delim (drop (Suc (Suc d + length ?t)) s))"
      unfolding split_at_rec [of delim "drop (Suc d) s"] dw
      using b(2) s(2) case_drop [of "Suc d + length ?t" s "[]" "split_at delim"] by simp
    then show ?thesis using c ih b(3) False by (subst token_loop.simps) simp
  qed
qed

lemma token_loop_split:
  assumes s: "0 \<notin> set s" "0 \<notin> set delim"
  shows "token_loop (s @ [0]) (length s) None delim = Some (split_at delim s, s @ [0])"
proof -
  let ?t = "takeWhile (\<lambda>c. c \<notin> set delim) s" and ?n = "length s"
  note b = token_begin_at [OF s(1) refl s(2) le0, simplified]
  have c: "sc_str_token_begin (s @ [0]) ?n None delim =
      (Some 0, Some (length ?t), str_swap (s @ [0]) ?n (length ?t))"
    using b(1) by (simp add: sc_str_token_begin_def Let_def)
  have "split_at delim s = ?t # (if length ?t = ?n then [] else split_at delim (drop (Suc (length ?t)) s))"
    unfolding split_at_rec [of delim s] dropWhile_eq_drop
    using b(2) case_drop [of "length ?t" s "[]" "split_at delim"] by simp
  then show ?thesis
    using c token_loop_from [OF s(1) refl s(2) b(2)] b(3) by (subst token_loop.simps) simp
qed

section \<open>Trimming\<close>

declare trim_end.simps [simp del]

lemma trim_end_val:
  "a \<le> e \<Longrightarrow> e \<le> length s \<Longrightarrow>
     take (trim_end s cs a e - a) (drop a s) = rev (dropWhile (\<lambda>c. c \<in> set cs) (rev (take (e - a) (drop a s)))) \<and>
     a \<le> trim_end s cs a e \<and> trim_end s cs a e \<le> e"
proof (induction e)
  case (Suc e)
  show ?case
  proof (cases "a \<le> e")
    case True
    then have t: "take (Suc e - a) (drop a s) = take (e - a) (drop a s) @ [s ! e]"
      using Suc.prems(2) by (simp add: Suc_diff_le take_Suc_conv_app_nth)
    show ?thesis
    proof (cases "s ! e \<in> set cs")
      case in_cs: True
      then have "trim_end s cs a (Suc e) = trim_end s cs a e"
        using True by (subst trim_end.simps) simp
      then show ?thesis using Suc.IH True Suc.prems(2) in_cs unfolding t by simp
    next
      case out: False
      then have "trim_end s cs a (Suc e) = Suc e" using True by (subst trim_end.simps) simp
      then show ?thesis using out True unfolding t by (simp add: t)
    qed
  next
    case False
    then show ?thesis using Suc.prems by (simp add: trim_end.simps)
  qed
qed (simp add: trim_end.simps)

lemma sc_str_trim_val:
  assumes "0 \<notin> set s"
  shows "sc_str_trim (Some s) cs =
    (True, Some (rev (dropWhile (\<lambda>c. c \<in> set cs) (rev (dropWhile (\<lambda>c. c \<in> set cs) s)))))"
proof -
  let ?P = "\<lambda>c. c \<in> set cs" and ?h = "strspn s 0 cs"
  have "takeWhile (\<lambda>c. c \<noteq> 0 \<and> c \<in> set cs) s = takeWhile ?P s"
    using assms by (intro takeWhile_cong) auto
  then have h: "?h = length (takeWhile ?P s)" by (simp add: strspn_def)
  then have le: "?h \<le> length s" by (simp add: length_takeWhile_le)
  have d: "drop ?h s = dropWhile ?P s" by (simp add: h dropWhile_eq_drop)
  let ?e = "trim_end s cs ?h (length s)"
  have e: "take (?e - ?h) (drop ?h s) = rev (dropWhile ?P (rev (dropWhile ?P s)))" "?h \<le> ?e" "?e \<le> length s"
    using trim_end_val [OF le order_refl, of cs] unfolding d [symmetric] by simp_all
  show ?thesis
  proof (cases "?h \<noteq> 0 \<or> ?e \<noteq> length s")
    case True
    then show ?thesis using e(1) by (simp add: sc_str_trim_def sc_str_create_len_def Let_def)
  next
    case False
    then have z: "?h = 0" "?e = length s" by blast+
    have "sc_str_trim (Some s) cs = (True, Some s)"
      using False by (simp only: sc_str_trim_def Let_def option.case if_False)
    moreover have "s = rev (dropWhile ?P (rev (dropWhile ?P s)))" using e(1) unfolding z(2) unfolding z(1) by simp
    ultimately show ?thesis by simp
  qed
qed

section \<open>Replacing\<close>

text \<open>Replacing every occurrence, from the left.\<close>

function replace_all :: "bytes \<Rightarrow> bytes \<Rightarrow> bytes \<Rightarrow> bytes" where
  "replace_all r w [] = []"
| "replace_all r w (c # s) =
     (if r \<noteq> [] \<and> prefix r (c # s) then w @ replace_all r w (drop (length r) (c # s))
      else c # replace_all r w s)"
  by pat_completeness auto
termination by (relation "measure (\<lambda>(r, w, s). length s)") auto

lemma strstr_Some:
  "strstr r s = Some i \<Longrightarrow> r \<noteq> [] \<Longrightarrow> i + length r \<le> length s \<and> prefix r (drop i s) \<and>
     replace_all r w s = take i s @ w @ replace_all r w (drop (i + length r) s)"
proof (induction s arbitrary: i)
  case (Cons c s)
  show ?case
  proof (cases "prefix r (c # s)")
    case True
    then show ?thesis using Cons.prems prefix_length_le [OF True] by simp
  next
    case False
    then obtain j where "i = Suc j" "strstr r s = Some j" using Cons.prems by auto
    then show ?thesis using Cons.IH [of j] Cons.prems False by simp
  qed
qed (simp split: if_splits)

lemma strstr_None: "strstr r s = None \<Longrightarrow> replace_all r w s = s"
  by (induction s) (auto split: if_splits)

lemma replace_inplace_val:
  assumes "r \<noteq> []" "length w = length r" "a \<le> length s"
  shows "replace_inplace s a r w = Some (take a s @ replace_all r w (drop a s))"
  using assms
proof (induction "length s - a" arbitrary: s a rule: less_induct)
  case less
  show ?case
  proof (cases "strstr r (drop a s)")
    case None
    then show ?thesis
      using strstr_None [OF None, of w] by (subst replace_inplace.simps) (simp add: strstr_at_def)
  next
    case (Some i)
    note f = strstr_Some [OF Some less.prems(1), of w]
    let ?s = "write_at s (a + i) w" and ?b = "a + i + length r"
    have b: "?b \<le> length s" using f [THEN conjunct1] less.prems(3) by simp
    have l: "length ?s = length s" using b less.prems(2) by simp
    have "replace_inplace ?s ?b r w = Some (take ?b ?s @ replace_all r w (drop ?b ?s))"
      using less.prems b l by (intro less.hyps) (auto simp flip: length_greater_0_conv)
    moreover have "take ?b ?s = take a s @ take i (drop a s) @ w" "drop ?b ?s = drop ?b s"
      using b less.prems(2) by (simp_all add: write_at_def take_add)
    ultimately show ?thesis
      using f Some by (subst replace_inplace.simps) (simp add: strstr_at_def add.commute add.left_commute)
  qed
qed

function occurrences :: "bytes \<Rightarrow> bytes \<Rightarrow> nat" where
  "occurrences r [] = 0"
| "occurrences r (c # s) =
     (if r \<noteq> [] \<and> prefix r (c # s) then Suc (occurrences r (drop (length r) (c # s)))
      else occurrences r s)"
  by pat_completeness auto
termination by (relation "measure (\<lambda>(r, s). length s)") auto

lemma occurrences_strstr:
  "strstr r s = None \<Longrightarrow> occurrences r s = 0"
  "strstr r s = Some i \<Longrightarrow> r \<noteq> [] \<Longrightarrow> occurrences r s = Suc (occurrences r (drop (i + length r) s))"
proof -
  show "strstr r s = None \<Longrightarrow> occurrences r s = 0" by (induction s) (auto split: if_splits)
  show "strstr r s = Some i \<Longrightarrow> r \<noteq> [] \<Longrightarrow> occurrences r s = Suc (occurrences r (drop (i + length r) s))"
    by (induction s arbitrary: i) (auto split: if_splits)
qed

text \<open>A step of the measuring and of the copying loop.\<close>

lemma replace_step:
  assumes "r \<noteq> []" "a \<le> length s" "strstr r (drop a s) = Some i"
  defines "b \<equiv> a + i + length r"
  shows "b \<le> length s" "length s - b < length s - a" "strstr_at s a r = Some (a + i)"
    "occurrences r (drop a s) = Suc (occurrences r (drop b s))"
    "replace_all r w (drop a s) = slice s a i @ w @ replace_all r w (drop b s)"
proof -
  note f = strstr_Some [OF assms(3,1), of w]
  show b: "b \<le> length s" using f [THEN conjunct1] assms(2) by (simp add: b_def)
  show "length s - b < length s - a" using b assms(1) by (auto simp: b_def simp flip: length_greater_0_conv)
  show "strstr_at s a r = Some (a + i)" using assms(3) by (simp add: strstr_at_def)
  show "occurrences r (drop a s) = Suc (occurrences r (drop b s))"
    using occurrences_strstr(2) [OF assms(3,1)] by (simp add: b_def ac_simps)
  show "replace_all r w (drop a s) = slice s a i @ w @ replace_all r w (drop b s)"
    using f by (simp add: b_def slice_def ac_simps)
qed

lemma replace_measure_val:
  assumes "r \<noteq> []" "a \<le> length s" "sz \<le> int SC_STR_MAX"
  shows "replace_measure s a r diff sz count =
    Some (let n = occurrences r (drop a s)
          in if sz + diff * int n \<le> int SC_STR_MAX then Some (sz + diff * int n, count + n) else None)"
  using assms
proof (induction "length s - a" arbitrary: a sz count rule: less_induct)
  case less
  show ?case
  proof (cases "strstr r (drop a s)")
    case None
    then show ?thesis
      using occurrences_strstr(1) [OF None] less.prems(3)
      by (subst replace_measure.simps) (simp add: strstr_at_def)
  next
    case (Some i)
    note st = replace_step [OF less.prems(1,2) Some]
    let ?b = "a + i + length r" and ?n = "occurrences r (drop (a + i + length r) s)"
    show ?thesis
    proof (cases "sz > int SC_STR_MAX - diff")
      case True
      then have d: "0 < diff" using less.prems(3) by simp
      then have "diff * 1 \<le> diff * int (Suc ?n)" by (intro mult_left_mono) simp_all
      then have "\<not> sz + diff * int (Suc ?n) \<le> int SC_STR_MAX" using True by linarith
      then show ?thesis using st(3,4) True by (subst replace_measure.simps) (simp add: Let_def)
    next
      case False
      have "replace_measure s a r diff sz count = replace_measure s ?b r diff (sz + diff) (count + 1)"
        using st(3) False by (subst replace_measure.simps) simp
      also have "\<dots> = Some (let n = ?n in if sz + diff + diff * int n \<le> int SC_STR_MAX
          then Some (sz + diff + diff * int n, count + 1 + n) else None)"
        using less.prems(1) st(1,2) False by (intro less.hyps) simp_all
      finally show ?thesis using st(4) by (simp add: Let_def algebra_simps)
    qed
  qed
qed

lemma replace_copy_val:
  assumes "r \<noteq> []" "a \<le> length s"
  shows "replace_copy (occurrences r (drop a s)) s a r w = replace_all r w (drop a s)"
  using assms
proof (induction "length s - a" arbitrary: a rule: less_induct)
  case less
  show ?case
  proof (cases "strstr r (drop a s)")
    case None
    then show ?thesis by (simp add: occurrences_strstr(1) strstr_None)
  next
    case (Some i)
    note st = replace_step [OF less.prems(1,2) Some]
    show ?thesis using less.hyps [OF st(2) less.prems(1) st(1)] st by simp
  qed
qed

lemma length_replace_all:
  "int (length (replace_all r w s)) =
     int (length s) + (int (length w) - int (length r)) * int (occurrences r s)"
proof (induction r w s rule: replace_all.induct)
  case (2 r w c s)
  show ?case
  proof (cases "r \<noteq> [] \<and> prefix r (c # s)")
    case True
    then have "length r \<le> length (c # s)" by (auto dest: prefix_length_le)
    then show ?thesis using True 2(1) by (auto simp: algebra_simps of_nat_diff)
  next
    case False
    then show ?thesis using 2(2) by auto
  qed
qed simp

section \<open>Properties\<close>

text \<open>
  C31: The tokenizer, which cuts the string in place by exchanging a delimiter with the terminator,
  returns exactly the pieces between the delimiters, ends, and leaves the string as it found it.
\<close>

theorem sc_str_tokens:
  assumes "0 \<notin> set s" "0 \<notin> set delim"
  shows "token_loop (s @ [0]) (length s) None delim = Some (split_at delim s, s @ [0])"
  by (rule token_loop_split [OF assms])

theorem sc_str_tokens_witness:
  "token_loop ([97, 32, 98, 99] @ [0]) (length [97 :: u8, 32, 98, 99]) None [32] =
     Some ([[97], [98, 99]], [97, 32, 98, 99, 0])"
  using sc_str_tokens [of "[97, 32, 98, 99]" "[32]"] by simp



text \<open>
  \<^verbatim>\<open>sc_str_trim\<close> removes the given characters from both ends, and only there.
\<close>

theorem sc_str_trim_correct:
  assumes "0 \<notin> set s" "sc_str_trim (Some s) cs = (ok, t)"
  shows "ok \<and> (\<exists>pre u post. t = Some u \<and> s = pre @ u @ post \<and> set pre \<subseteq> set cs \<and> set post \<subseteq> set cs \<and>
    (u \<noteq> [] \<longrightarrow> hd u \<notin> set cs \<and> last u \<notin> set cs))"
proof -
  let ?P = "\<lambda>c. c \<in> set cs" and ?d = "dropWhile (\<lambda>c. c \<in> set cs) s"
  let ?u = "rev (dropWhile ?P (rev ?d))"
  have t: "ok" "t = Some ?u" using sc_str_trim_val [OF assms(1), of cs] assms(2) by simp_all
  have d: "?d = ?u @ rev (takeWhile ?P (rev ?d))"
    by (metis rev_append rev_rev_ident takeWhile_dropWhile_id)
  then have s: "s = takeWhile ?P s @ ?u @ rev (takeWhile ?P (rev ?d))"
    by (metis takeWhile_dropWhile_id)
  have e: "?u \<noteq> [] \<longrightarrow> hd ?u \<notin> set cs \<and> last ?u \<notin> set cs"
  proof (intro impI conjI)
    assume u: "?u \<noteq> []"
    have "?d \<noteq> []" using u by (metis dropWhile.simps(1) rev.simps(1))
    moreover have "hd ?d = hd ?u" using d u by (metis hd_append2)
    ultimately show "hd ?u \<notin> set cs" using hd_dropWhile [of ?P s] by simp
  next
    assume u: "?u \<noteq> []"
    show "last ?u \<notin> set cs" using u hd_dropWhile [of ?P "rev ?d"] by (simp add: last_rev)
  qed
  have "set (takeWhile ?P s) \<subseteq> set cs" "set (rev (takeWhile ?P (rev ?d))) \<subseteq> set cs"
    by (auto dest: set_takeWhileD)
  then show ?thesis
    by (intro conjI exI) (rule t(1), rule t(2), rule s, assumption+, rule e)
qed

theorem sc_str_trim_correct_witness:
  "\<exists>pre u post. sc_str_trim (Some [32, 97, 32, 98, 32]) [32] = (True, Some u) \<and>
     [32 :: u8, 97, 32, 98, 32] = pre @ u @ post \<and> set pre \<subseteq> {32} \<and> set post \<subseteq> {32}"
proof -
  have t: "sc_str_trim (Some [32, 97, 32, 98, 32]) [32] = (True, Some [97, 32, 98])"
    using sc_str_trim_val [of "[32, 97, 32, 98, 32]" "[32]"] by simp
  have z: "(0 :: u8) \<notin> set [32, 97, 32, 98, 32]" by simp
  obtain pre u post where "Some [97 :: u8, 32, 98] = Some u" "[32, 97, 32, 98, 32] = pre @ u @ post"
      "set pre \<subseteq> set [32]" "set post \<subseteq> set [32]"
    using sc_str_trim_correct [OF z t] by (elim exE conjE) (rule that)
  then show ?thesis using t by (intro exI [of _ pre] exI [of _ u] exI [of _ post]) simp
qed

lemma replace_inplace_returns:
  assumes "replace_inplace s a rep wth = Some t"
  shows "rep \<noteq> []"
proof (rule replace_inplace.raw_induct [where P = "\<lambda>s a rep wth t. rep \<noteq> []", OF _ assms])
  fix f s a rep wth t
  assume ih: "\<And>s a rep wth t. f s a rep wth = Some t \<Longrightarrow> rep \<noteq> []"
    and r: "(case strstr_at s a rep of None \<Rightarrow> Some s | Some i \<Rightarrow> f (write_at s i wth) (i + length rep) rep wth) = Some t"
  show "rep \<noteq> []"
  proof
    assume rep: "rep = []"
    have "strstr [] xs = Some 0" for xs by (cases xs) simp_all
    then have "f (write_at s a wth) a [] wth = Some t" using r rep by (simp add: strstr_at_def)
    then show False using ih by blast
  qed
qed

text \<open>
  Replacing the empty string by the empty string does not return: the search finds it at the
  same position again and again.
\<close>

theorem sc_str_replace_empty: "sc_str_replace (Some s) [] [] = None"
  using replace_inplace_returns [of s 0 "[]" "[]"]
  by (cases "replace_inplace s 0 [] []") (auto simp: sc_str_replace_def)

end
