(* ===== verification/Codec.thy ===== *)
theory Codec
  imports Sc_Buf Sc_Str
begin

text \<open>
  Reading a sequence of items from a buffer: \<open>holds b xs\<close> says that the unread bytes are \<open>xs\<close>, and
  every read of an item takes its image off the front. The decoders of the larger records are read
  step by step with these lemmas; the encoders write a list of fields.
\<close>

definition holds :: "sc_buf \<Rightarrow> bytes \<Rightarrow> bool" where
  "holds b xs \<longleftrightarrow> sc_buf_wf b \<and> err b = 0 \<and> sc_buf_data b = xs"

lemma holds_adv: "holds b (xs @ ys) \<Longrightarrow> holds (adv b (length xs)) ys"
  by (simp add: holds_def buf_simps)

lemma holds_8: "holds b (v # xs) \<Longrightarrow> sc_buf_get_8 b = (v, adv b 1) \<and> holds (adv b 1) xs"
  using get_fixed(1) [of b] holds_adv [of b "[v]" xs] by (simp add: holds_def)

lemma holds_32: "holds b (le32 v @ xs) \<Longrightarrow> sc_buf_get_32 b = (v, adv b 4) \<and> holds (adv b 4) xs"
  using get_fixed(3) [of b] holds_adv [of b "le32 v" xs] by (simp add: holds_def)

lemma holds_64: "holds b (le64 v @ xs) \<Longrightarrow> sc_buf_get_64 b = (v, adv b 8) \<and> holds (adv b 8) xs"
  using get_fixed(4) [of b] holds_adv [of b "le64 v" xs] by (simp add: holds_def)

lemma holds_bool: "holds b (enc_bool v @ xs) \<Longrightarrow> sc_buf_get_bool b = (v, adv b 1) \<and> holds (adv b 1) xs"
  using get_bool [of b] holds_adv [of b "enc_bool v" xs] by (simp add: holds_def enc_bool_def)

lemma holds_str:
  assumes "holds b (enc_str s @ xs)" "str_ok s"
  shows "sc_buf_get_str b = (s, adv b (length (enc_str s))) \<and> holds (adv b (length (enc_str s))) xs"
  using get_str [of b s xs] holds_adv [of b "enc_str s" xs] assms by (simp add: holds_def)

lemma holds_blob:
  assumes "holds b (d @ xs)"
  shows "sc_buf_get_blob b (length d) = (if d = [] then None else Some d, adv b (length d)) \<and>
    holds (adv b (length d)) xs"
  using get_blob [of b "length d"] holds_adv [OF assms] assms by (simp add: holds_def)

text \<open>A buffer over the bytes of a list.\<close>

lemma holds_wrap:
  "length d < 2 ^ 32 \<Longrightarrow> holds (sc_buf_wrap d (length d) SC_BUF_READ) d"
  by (simp add: holds_def sc_buf_wrap_def sc_buf_wf_def sc_buf_data_def sc_buf_contents_def
      SC_BUF_READ_def SC_BUF_DATA_def SC_BUF_REF_def)

text \<open>A list of fields in an empty buffer with room for it.\<close>

lemma holds_foldl:
  assumes "\<forall>f \<in> set fs. field_ok f" "room b (2 * length fs) (length (concat (map enc_field fs)))"
    "sc_buf_wf b" "sc_buf_data b = []"
  shows "holds (foldl put_field b fs) (concat (map enc_field fs))"
proof -
  have t: "tame b (2 * length fs) (length (concat (map enc_field fs)))"
    by (rule room_tame [OF assms(3,2)])
  let ?b = "foldl put_field b fs"
  have e: "tame ?b 0 0" "room ?b 0 0" "rpos ?b = rpos b"
    "err ?b = 0 \<Longrightarrow> sc_buf_contents ?b = sc_buf_contents b @ concat (map enc_field fs)"
    using field.emits_foldl [OF assms(1), unfolded emits_def, rule_format, of b 0 0] t assms(2) by simp_all
  then have v: "err ?b = 0" by (simp add: room_def)
  have "rpos b = wpos b"
    using assms(3,4) length_data [of b] by (simp add: sc_buf_wf_def)
  then show ?thesis
    using e v assms(3) by (simp add: holds_def sc_buf_data_def tame_def sc_buf_wf_def sc_buf_contents_def)
qed

section \<open>Formatted text\<close>

text \<open>
  \<open>text b t\<close>: the buffer holds the terminated text \<open>t\<close>, which \<^verbatim>\<open>sc_buf_put_text\<close> continues by
  writing over the terminator.
\<close>

definition holds_text :: "sc_buf \<Rightarrow> cstring \<Rightarrow> bool" where
  "holds_text b t \<longleftrightarrow> sc_buf_wf b \<and> \<not> ref b \<and> err b = 0 \<and> rpos b = 0 \<and>
     (sc_buf_contents b = t @ [0] \<or> (wpos b = 0 \<and> t = [] \<and> (mem b = [] \<or> hd (mem b) = 0)))"

lemma vsnprintf_at_fits:
  "length s < q \<Longrightarrow> vsnprintf_at m dst q s = write_at m dst (s @ [0])"
  by (simp add: vsnprintf_at_def)

lemma text_write:
  assumes "sc_buf_wf b" "\<not> ref b" "err b = 0" "rpos b = 0" "take (length t) (mem b) = t"
    "length t \<le> length (mem b)" "length t + length s + 1 \<le> cap b"
    "w = length t + length s + 1" "m = write_at (mem b) (length t) (s @ [0])"
  shows "holds_text (b\<lparr>mem := m, wpos := w\<rparr>) (t @ s)"
proof -
  have l: "cap b \<le> length (mem b)" "cap b < 2 ^ 32" using assms(1) by (simp_all add: sc_buf_wf_def)
  have "take w m = t @ s @ [0]"
    using assms(5-9) l by (simp add: write_at_def)
  moreover have "length m = length (mem b)" using assms(7,9) l by simp
  ultimately show ?thesis
    using assms(1-4,7,8) l by (simp add: holds_text_def sc_buf_wf_def sc_buf_contents_def)
qed

lemma put_text_holds:
  assumes h: "holds_text b t" and r: "room b (Suc k) (length s + 1 + n)"
  shows "holds_text (sc_buf_put_text b (Some s)) (t @ s) \<and> room (sc_buf_put_text b (Some s)) k n"
proof -
  let ?off = "if sc_buf_size b > 0 then 1 else 0 :: nat" and ?T = "length t" and ?n = "length s"
  have w: "sc_buf_wf b" "\<not> ref b" "err b = 0" "rpos b = 0" using h by (auto simp: holds_text_def)
  note wf = sc_buf_wfD [OF w(1)]
  have sz: "sc_buf_size b = wpos b" "sc_buf_quota b = cap b - wpos b"
    using wf w(4) by (simp_all add: sc_buf_size_def sc_buf_quota_def)
  have t: "wpos b - ?off = ?T" "take ?T (mem b) = t" "?T \<le> wpos b" "wpos b + ?n + 1 - ?off = ?T + ?n + 1"
    "wpos b \<le> ?T + 1"
  proof -
    have "sc_buf_contents b = t @ [0] \<Longrightarrow> wpos b = ?T + 1"
      using length_contents [OF w(1)] by simp
    then have "wpos b = ?T + 1 \<and> take (wpos b) (mem b) = t @ [0] \<or> wpos b = 0 \<and> t = []"
      using h unfolding holds_text_def sc_buf_contents_def by blast
    moreover have "take ?T (mem b) = t" if "wpos b = ?T + 1" "take (wpos b) (mem b) = t @ [0]"
      using arg_cong [OF that(2), of "take ?T"] that(1) by simp
    ultimately show "wpos b - ?off = ?T" "take ?T (mem b) = t" "?T \<le> wpos b"
        "wpos b + ?n + 1 - ?off = ?T + ?n + 1" "wpos b \<le> ?T + 1"
      unfolding sz by auto
  qed
  show ?thesis
  proof (cases "?n \<ge> sc_buf_quota b")
    case False
    let ?m = "write_at (mem b) ?T (s @ [0])"
    have fit: "?T + ?n + 1 \<le> cap b" "wpos b + (?n + 1 - ?off) < 2 ^ 32"
      using False t sz wf by auto
    have b': "sc_buf_put_text b (Some s) = b\<lparr>mem := ?m, wpos := ?T + ?n + 1\<rparr>"
      using False t fit by (simp add: sc_buf_put_text_def Let_def vsnprintf_at_fits sc_buf_mark_write_def)
    have "holds_text (b\<lparr>mem := ?m, wpos := ?T + ?n + 1\<rparr>) (t @ s)"
      using w t wf fit by (intro text_write) simp_all
    moreover have "room (b\<lparr>mem := ?m, wpos := ?T + ?n + 1\<rparr>) k n"
      using r t(5) t(3) by (auto simp: room_def)
    ultimately show ?thesis unfolding b' by blast
  next
    case True
    define b1 where "b1 = b\<lparr>mem := vsnprintf_at (mem b) (wpos b - ?off) (sc_buf_quota b) s\<rparr>"
    have m1: "length (mem b1) = length (mem b)" "take ?T (mem b1) = t"
      using t(1,2,3,5) sz True wf
      by (auto simp: b1_def vsnprintf_at_def write_at_def)
    have big: "cap b < wpos b + (?n + 1)" using True sz wf by simp
    have rm: "cap b + (?n + 1 + n) + 4096 * Suc k \<le> limit b"
        "cap b + (?n + 1 + n) + 4096 * Suc k < SC_BUF_MAX - 4096"
      using r big by (auto simp: room_def)
    have w1: "sc_buf_wf b1" using w(1) m1(1) by (simp add: b1_def sc_buf_wf_def)
    have tm: "tame b1 1 (?n + 1)" using w1 rm(2) w(2) by (simp add: tame_def b1_def SC_BUF_MAX_def)
    have rm1: "room b1 1 (?n + 1)" using rm w by (simp add: room_def b1_def)
    have ad: "add32 ?n 1 = ?n + 1" using rm(2) by (simp add: SC_BUF_MAX_def)
    from tm show ?thesis
    proof (cases rule: sc_buf_reserve_cases)
      case fits
      then show ?thesis using big by (simp add: b1_def)
    next
      case full
      then show ?thesis using rm1 by simp
    next
      case grow
      define c where "c = round_4096 (cap b + (?n + 1))"
      define b2 where "b2 = b1\<lparr>mem := take c (mem b1) @ replicate (c - length (mem b1)) 0, cap := c\<rparr>"
      have c: "cap b + ?n + 1 \<le> c" "c \<le> cap b + ?n + 1 + 4095" "c < 2 ^ 32"
        using grow(3,4) rm(2) by (simp_all add: c_def b1_def SC_BUF_MAX_def)
      have rs: "sc_buf_reserve b1 (?n + 1) = (True, b2)" using grow(6) by (simp add: b2_def c_def b1_def)
      have q2: "sc_buf_quota b2 = c - wpos b" "?n < c - wpos b"
        using c wf by (simp_all add: sc_buf_quota_def b2_def b1_def)
      have w2: "sc_buf_wf b2" "\<not> ref b2" "err b2 = 0" "rpos b2 = 0"
        using w c wf by (auto simp: b2_def b1_def sc_buf_wf_def)
      have t2: "take ?T (mem b2) = t" "?T \<le> length (mem b2)" "?T + ?n + 1 \<le> cap b2" "wpos b2 = wpos b"
          "cap b2 = c"
        using m1 t(3) wf c by (auto simp: b2_def b1_def)
      have b1': "b\<lparr>mem := vsnprintf_at (mem b) ?T (sc_buf_quota b) s\<rparr> = b1" by (simp only: b1_def t(1))
      have ar: "wpos b + (?n + 1 - ?off) = ?T + ?n + 1" using t(1,4) by auto
      let ?m = "write_at (mem b2) ?T (s @ [0])"
      have b': "sc_buf_put_text b (Some s) = b2\<lparr>mem := ?m, wpos := ?T + ?n + 1\<rparr>"
        unfolding sc_buf_put_text_def Let_def option.case t(1) b1' ad rs prod.case t2(4) q2(1) sc_buf_mark_write_def
        using True q2(2) ar t2 c(3)
        by (simp add: vsnprintf_at_fits)
      have "holds_text (b2\<lparr>mem := ?m, wpos := ?T + ?n + 1\<rparr>) (t @ s)"
        using w2 t2 by (intro text_write) simp_all
      moreover have "room (b2\<lparr>mem := ?m, wpos := ?T + ?n + 1\<rparr>) k n"
        using rm c(2) w by (simp add: room_def b2_def b1_def)
      ultimately show ?thesis unfolding b' by blast
    qed
  qed
qed

end
