(* ===== verification/Sc_Uri.thy ===== *)
theory Sc_Uri
  imports Sc_Str
begin

text \<open>
  URIs, \<^verbatim>\<open>lib/sc/sc_uri.c\<close>. The parser walks over the string with a cursor; a cursor is an
  offset, and reading at the end of the string gives the terminator. A part of the URI is the bytes
  the code copies for it.
\<close>

section \<open>Definitions\<close>

record sc_uri =
  u_str :: cstring
  u_scheme :: cstring
  u_host :: cstring
  u_userinfo :: cstring
  u_port :: cstring
  u_path :: cstring
  u_query :: cstring
  u_fragment :: cstring

definition chr_at :: "cstring \<Rightarrow> nat \<Rightarrow> u8" where
  "chr_at s i = (if i < length s then s ! i else 0)"

text \<open>\<^verbatim>\<open>strchr\<close> from a position.\<close>

definition strchr_at :: "cstring \<Rightarrow> nat \<Rightarrow> u8 \<Rightarrow> nat option" where
  "strchr_at s a c =
     (let n = length (takeWhile (\<lambda>x. x \<noteq> c) (drop a s))
      in if a + n < length s then Some (a + n) else None)"

text \<open>
  \<^verbatim>\<open>strtoul\<close> with base 10: its value, the position it stops at, and whether it is in range. The
  value of a number with a minus sign is its negation as an unsigned long.
\<close>

definition is_digit :: "u8 \<Rightarrow> bool" where
  "is_digit c \<longleftrightarrow> 48 \<le> c \<and> c \<le> 57"

definition digits_val :: "bytes \<Rightarrow> nat" where
  "digits_val ds = foldl (\<lambda>v c. 10 * v + (unat c - 48)) 0 ds"

definition strtoul :: "cstring \<Rightarrow> nat \<Rightarrow> nat \<times> nat \<times> bool" where
  "strtoul s a =
     (let sp = length (takeWhile (\<lambda>c. c = 32 \<or> (9 \<le> c \<and> c \<le> 13)) (drop a s));
          b = a + sp;
          neg = (chr_at s b = 45);
          d = (if chr_at s b = 45 \<or> chr_at s b = 43 then b + 1 else b);
          ds = takeWhile is_digit (drop d s)
      in if ds = [] then (0, a, True)
         else let v = digits_val ds in
           if v \<ge> 2 ^ 64 then (2 ^ 64 - 1, d + length ds, False)
           else (if neg then (2 ^ 64 - v) mod 2 ^ 64 else v, d + length ds, True))"

text \<open>The authority: user information, host and port, and the position behind them.\<close>

definition uri_authority :: "cstring \<Rightarrow> nat \<Rightarrow> (bytes \<times> bytes \<times> bytes \<times> nat) option" where
  "uri_authority s pos =
     (let (userinfo, pos) = (case strchr_at s pos 64 of
            Some ptr \<Rightarrow> (slice s pos (ptr - pos + 1), ptr + 1)
          | None \<Rightarrow> ([], pos));
          br = (chr_at s pos = 91);
          ptr = pos + strcspn s pos (if br then [93] else [58, 47, 63, 35]);
          host_len = ptr - pos + (if br then 1 else 0);
          host = pos;
          pos = host + host_len
      in if br \<and> chr_at s (host + host_len - 1) \<noteq> 93 then None
         else case strchr_at s pos 58 of
             None \<Rightarrow> Some (userinfo, slice s host host_len, [], pos)
           | Some ptr \<Rightarrow>
               if chr_at s (ptr + 1) = 0 then None
               else let (val, parse_end, ok) = strtoul s (ptr + 1) in
                 if \<not> ok \<or> val > 65536 then None
                 else Some (userinfo, slice s host host_len, slice s ptr (parse_end - ptr), parse_end))"

definition sc_uri_create :: "cstring option \<Rightarrow> sc_uri option" where
  "sc_uri_create str =
     (case str of
        None \<Rightarrow> None
      | Some s \<Rightarrow>
          (case strchr_at s 0 58 of
             None \<Rightarrow> None
           | Some ptr \<Rightarrow>
               let scheme = slice s 0 (ptr + 1);
                   pos = ptr + 1;
                   auth = (chr_at s pos = 47 \<and> chr_at s (pos + 1) = 47)
               in Option.bind (if auth then uri_authority s (pos + 2) else Some ([], [], [], pos))
                 (\<lambda>(userinfo, host, port, pos).
                   let path_len = strcspn s pos [63, 35];
                       path = slice s pos path_len;
                       pos = pos + path_len;
                       (query, pos) = (case strchr_at s pos 63 of
                           Some ptr \<Rightarrow> let n = strcspn s ptr [35] in (slice s ptr n, ptr + n)
                         | None \<Rightarrow> ([], pos));
                       fragment = (if chr_at s pos = 35 then drop pos s else [])
                   in Some \<lparr>u_str = scheme @ (if auth then [47, 47] else []) @ userinfo @ host @ port @ path @
                              query @ fragment,
                            u_scheme = butlast scheme, u_host = host, u_userinfo = butlast userinfo,
                            u_port = tl port, u_path = path, u_query = tl query,
                            u_fragment = tl fragment\<rparr>)))"

definition sc_uri_destroy :: "sc_uri option \<Rightarrow> sc_uri option" where
  "sc_uri_destroy uri = None"

section \<open>Scanning\<close>

lemma takeWhile_stop: "\<forall>x \<in> set xs. P x \<Longrightarrow> \<not> P c \<Longrightarrow> takeWhile P (xs @ c # r) = xs"
  by (induction xs) auto

lemma takeWhile_all: "\<forall>x \<in> set xs. P x \<Longrightarrow> takeWhile P xs = xs"
  by (induction xs) auto

lemma strchr_at_found:
  assumes "drop a s = xs @ c # r" "c \<notin> set xs"
  shows "strchr_at s a c = Some (a + length xs)"
proof -
  have "takeWhile (\<lambda>x. x \<noteq> c) (drop a s) = xs" unfolding assms(1) using assms(2) by (intro takeWhile_stop) auto
  moreover have "a + length xs < length s" using arg_cong [OF assms(1), of length] by simp
  ultimately show ?thesis by (simp add: strchr_at_def)
qed

lemma strchr_at_none:
  assumes "c \<notin> set (drop a s)"
  shows "strchr_at s a c = None"
proof -
  have "takeWhile (\<lambda>x. x \<noteq> c) (drop a s) = drop a s" using assms by (intro takeWhile_all) auto
  then show ?thesis by (simp only: strchr_at_def Let_def) simp
qed

lemma strcspn_stop:
  assumes "drop a s = xs @ r" "\<forall>x \<in> set xs. x \<noteq> 0 \<and> x \<notin> set cs" "r = [] \<or> hd r = 0 \<or> hd r \<in> set cs"
  shows "strcspn s a cs = length xs"
proof (cases r)
  case Nil
  then show ?thesis using assms by (simp add: strcspn_def takeWhile_all)
next
  case (Cons c r')
  then show ?thesis using assms by (auto simp: strcspn_def takeWhile_stop)
qed

lemma slice_drop: "drop a s = xs @ r \<Longrightarrow> slice s a (length xs) = xs"
  by (simp add: slice_def)

lemma drop_more: "drop a s = xs @ r \<Longrightarrow> drop (a + length xs) s = r"
  by (metis append_eq_conv_conj drop_drop add.commute)

lemma chr_at_drop: "drop a s = c # r \<Longrightarrow> chr_at s a = c"
proof -
  assume d: "drop a s = c # r"
  have "a < length s" using d by (intro ccontr [of "a < length s"]) simp
  then show ?thesis using d by (simp add: chr_at_def Cons_nth_drop_Suc [symmetric])
qed

lemma chr_at_end: "drop a s = [] \<Longrightarrow> chr_at s a = 0"
  by (simp add: chr_at_def)

lemma strtoul_digits:
  assumes d: "drop a s = ds @ r" and ds: "ds \<noteq> []" "\<forall>c \<in> set ds. is_digit c" "digits_val ds < 2 ^ 64"
    and r: "r = [] \<or> \<not> is_digit (hd r)"
  shows "strtoul s a = (digits_val ds, a + length ds, True)"
proof -
  obtain c ds' where c: "ds = c # ds'" using ds(1) by (cases ds) auto
  have dc: "is_digit c" using ds(2) c by simp
  then have nc: "c \<noteq> 32" "\<not> (9 \<le> c \<and> c \<le> 13)" "c \<noteq> 45" "c \<noteq> 43"
    by (auto simp: is_digit_def word_le_nat_alt)
  have ch: "chr_at s a = c" using d c by (intro chr_at_drop) simp
  have sp: "takeWhile (\<lambda>c. c = 32 \<or> (9 \<le> c \<and> c \<le> 13)) (drop a s) = []" using d c nc by simp
  have tw: "takeWhile is_digit (drop a s) = ds"
    using d ds(2) r by (cases r) (simp_all add: takeWhile_all takeWhile_stop)
  show ?thesis
    using ds(1,3) nc(3,4) unfolding strtoul_def sp ch by (simp add: Let_def ch tw)
qed

section \<open>Printing and parsing\<close>

text \<open>
  The parts of a URI with an authority, and the text they make. The query and the fragment are
  optional; a path starts with a slash unless it is empty.
\<close>

definition uri_text ::
    "bytes \<Rightarrow> bytes \<Rightarrow> bytes \<Rightarrow> bytes \<Rightarrow> bytes \<Rightarrow> bytes option \<Rightarrow> bytes option \<Rightarrow> cstring" where
  "uri_text scheme userinfo host port path q f =
     scheme @ [58, 47, 47] @ userinfo @ [64] @ host @ [58] @ port @ path @
     (case q of None \<Rightarrow> [] | Some q \<Rightarrow> 63 # q) @ (case f of None \<Rightarrow> [] | Some f \<Rightarrow> 35 # f)"

definition uri_parts_ok ::
    "bytes \<Rightarrow> bytes \<Rightarrow> bytes \<Rightarrow> bytes \<Rightarrow> bytes \<Rightarrow> bytes option \<Rightarrow> bytes option \<Rightarrow> bool" where
  "uri_parts_ok scheme userinfo host port path q f \<longleftrightarrow>
     0 \<notin> set (uri_text scheme userinfo host port path q f) \<and>
     58 \<notin> set scheme \<and> 64 \<notin> set userinfo \<and> set host \<inter> {58, 47, 63, 35, 91} = {} \<and>
     port \<noteq> [] \<and> (\<forall>c \<in> set port. is_digit c) \<and> digits_val port \<le> 65535 \<and>
     (path = [] \<or> hd path = 47) \<and> set path \<inter> {63, 35} = {} \<and>
     (\<forall>x. q = Some x \<longrightarrow> 35 \<notin> set x) \<and> (\<forall>x. q = None \<longrightarrow> f = Some x \<longrightarrow> 63 \<notin> set x)"

lemma not_digit: "c \<in> {47, 63, 35} \<Longrightarrow> \<not> is_digit c"
  by (auto simp: is_digit_def word_le_nat_alt)

lemma uri_authority_text:
  assumes s: "drop pos s = userinfo @ [64] @ host @ [58] @ port @ r"
    and nz: "0 \<notin> set s"
    and ok: "64 \<notin> set userinfo" "set host \<inter> {58, 47, 63, 35, 91} = {}" "port \<noteq> []" "\<forall>c \<in> set port. is_digit c"
      "digits_val port \<le> 65535" "r = [] \<or> \<not> is_digit (hd r)"
  shows "uri_authority s pos = Some (userinfo @ [64], host, 58 # port,
      pos + length userinfo + 1 + length host + 1 + length port)"
proof -
  let ?p1 = "pos + length userinfo + 1" let ?p2 = "?p1 + length host"
  have at: "strchr_at s pos 64 = Some (pos + length userinfo)"
    using s ok(1) by (intro strchr_at_found) simp_all
  have ui: "slice s pos (length userinfo + 1) = userinfo @ [64]"
    using slice_drop [of pos s "userinfo @ [64]"] s by simp
  have d1: "drop ?p1 s = host @ 58 # port @ r" using drop_more [of pos s "userinfo @ [64]"] s by simp
  have nz1: "0 \<notin> set host" using nz d1 by (metis in_set_dropD Un_iff set_append)
  have br: "chr_at s ?p1 \<noteq> 91"
    using chr_at_drop [of ?p1 s] d1 ok(2) by (cases host) auto
  have csp: "strcspn s ?p1 [58, 47, 63, 35] = length host"
    using d1 nz1 ok(2) by (intro strcspn_stop [of _ _ _ "58 # port @ r"]) auto
  have d2: "drop ?p2 s = 58 # port @ r" using drop_more [OF d1] by simp
  have col: "strchr_at s ?p2 58 = Some ?p2" using strchr_at_found [of ?p2 s "[]" 58] d2 by simp
  have d3: "drop (?p2 + 1) s = port @ r" using drop_more [of ?p2 s "[58]"] d2 by simp
  obtain c port' where c: "port = c # port'" using ok(3) by (cases port) auto
  have c0: "chr_at s (?p2 + 1) \<noteq> 0"
    using chr_at_drop [of "?p2 + 1" s c] d3 c ok(4) by (auto simp: is_digit_def word_le_nat_alt)
  have tl: "strtoul s (?p2 + 1) = (digits_val port, ?p2 + 1 + length port, True)"
    using d3 ok(3-6) by (intro strtoul_digits) auto
  have pt: "slice s ?p2 (1 + length port) = 58 # port"
    using slice_drop [of ?p2 s "58 # port"] d2 by simp
  have ho: "slice s ?p1 (length host) = host" using slice_drop [OF d1] .
  show ?thesis
    unfolding uri_authority_def at option.case prod.case Let_def
    using ui br csp col c0 tl pt ho ok(5) by (simp add: Let_def)
qed

text \<open>The end of a URI: the path, the query and the fragment.\<close>

lemma uri_tail:
  fixes qs fs :: "bytes option"
  defines "q \<equiv> (case qs of None \<Rightarrow> [] | Some x \<Rightarrow> 63 # x)" and "f \<equiv> (case fs of None \<Rightarrow> [] | Some x \<Rightarrow> 35 # x)"
  assumes d: "drop pos s = path @ q @ f" and nz: "0 \<notin> set s"
    and ok: "set path \<inter> {63, 35} = {}" "\<forall>x. qs = Some x \<longrightarrow> 35 \<notin> set x" "\<forall>x. qs = None \<longrightarrow> fs = Some x \<longrightarrow> 63 \<notin> set x"
  defines "p1 \<equiv> pos + length path"
  shows "strcspn s pos [63, 35] = length path" "slice s pos (length path) = path"
    "(case strchr_at s p1 63 of Some ptr \<Rightarrow> let n = strcspn s ptr [35] in (slice s ptr n, ptr + n) | None \<Rightarrow> ([], p1)) =
      (q, p1 + length q)"
    "(if chr_at s (p1 + length q) = 35 then drop (p1 + length q) s else []) = f"
proof -
  have nz': "0 \<notin> set (path @ q @ f)" using nz d by (metis in_set_dropD)
  have f: "f = [] \<or> hd f = 35" by (simp add: f_def split: option.split)
  have q: "q = [] \<or> hd q = 63" by (simp add: q_def split: option.split)
  show "strcspn s pos [63, 35] = length path"
    using d nz' ok(1) q f by (intro strcspn_stop [of _ _ _ "q @ f"]) (auto simp: hd_append)
  show "slice s pos (length path) = path" by (rule slice_drop [OF d])
  have d1: "drop p1 s = q @ f" unfolding p1_def by (rule drop_more [OF d])
  have d2: "drop (p1 + length q) s = f" by (rule drop_more [OF d1])
  show "(case strchr_at s p1 63 of Some ptr \<Rightarrow> let n = strcspn s ptr [35] in (slice s ptr n, ptr + n) | None \<Rightarrow> ([], p1)) =
      (q, p1 + length q)"
  proof (cases qs)
    case None
    then have "63 \<notin> set (drop p1 s)" using d1 ok(3) by (auto simp: q_def f_def split: option.splits)
    then show ?thesis using None by (simp add: strchr_at_none q_def)
  next
    case (Some x)
    then have qx: "q = 63 # x" by (simp add: q_def)
    have "strchr_at s p1 63 = Some p1" using strchr_at_found [of p1 s "[]" 63] d1 qx by simp
    moreover have "strcspn s p1 [35] = length q"
      using d1 nz' qx ok(2) Some f by (intro strcspn_stop [of _ _ _ f]) auto
    ultimately show ?thesis using slice_drop [OF d1] by simp
  qed
  show "(if chr_at s (p1 + length q) = 35 then drop (p1 + length q) s else []) = f"
  proof (cases f)
    case Nil
    then show ?thesis using d2 by simp
  next
    case (Cons c r)
    then show ?thesis using d2 f chr_at_drop [of "p1 + length q" s c r] by simp
  qed
qed

text \<open>
  C33: Parsing a URI gives back its parts. For a text made of a scheme, user information, host, port,
  path, query and fragment over the characters each may have, \<^verbatim>\<open>sc_uri_create\<close> succeeds, its
  parts are those, and its string is the text.
\<close>

theorem sc_uri_round_trip:
  assumes "uri_parts_ok scheme userinfo host port path q f"
  shows "sc_uri_create (Some (uri_text scheme userinfo host port path q f)) =
    Some \<lparr>u_str = uri_text scheme userinfo host port path q f, u_scheme = scheme, u_host = host,
          u_userinfo = userinfo, u_port = port, u_path = path, u_query = the_default [] q,
          u_fragment = the_default [] f\<rparr>"
proof -
  define s where "s = uri_text scheme userinfo host port path q f"
  let ?q = "case q of None \<Rightarrow> [] | Some x \<Rightarrow> 63 # x" and ?f = "case f of None \<Rightarrow> [] | Some x \<Rightarrow> 35 # x"
  let ?n = "length scheme"
  have ok: "0 \<notin> set s" "58 \<notin> set scheme" "64 \<notin> set userinfo" "set host \<inter> {58, 47, 63, 35, 91} = {}"
      "port \<noteq> []" "\<forall>c \<in> set port. is_digit c" "digits_val port \<le> 65535" "path = [] \<or> hd path = 47"
      "set path \<inter> {63, 35} = {}" "\<forall>x. q = Some x \<longrightarrow> 35 \<notin> set x"
      "\<forall>x. q = None \<longrightarrow> f = Some x \<longrightarrow> 63 \<notin> set x"
    using assms unfolding uri_parts_ok_def s_def by - (elim conjE; assumption)+
  have s: "s = scheme @ [58, 47, 47] @ userinfo @ [64] @ host @ [58] @ port @ path @ ?q @ ?f"
    by (simp add: s_def uri_text_def)
  have col: "strchr_at s 0 58 = Some ?n" using strchr_at_found [of 0 s scheme 58] ok(2) s by simp
  have d0: "drop ?n s = [58, 47, 47] @ userinfo @ [64] @ host @ [58] @ port @ path @ ?q @ ?f"
    using drop_more [of 0 s scheme] s by simp
  have sc: "slice s 0 (?n + 1) = scheme @ [58]" using slice_drop [of 0 s "scheme @ [58]"] s by simp
  have d1: "drop (?n + 1) s = 47 # 47 # userinfo @ [64] @ host @ [58] @ port @ path @ ?q @ ?f"
    using drop_more [of ?n s "[58]"] d0 by simp
  have d2: "drop (?n + 1 + 1) s = 47 # userinfo @ [64] @ host @ [58] @ port @ path @ ?q @ ?f"
    using drop_more [of "?n + 1" s "[47]"] d1 by simp
  have d3: "drop (?n + 1 + 2) s = userinfo @ [64] @ host @ [58] @ port @ path @ ?q @ ?f"
    using drop_more [of "?n + 1" s "[47, 47]"] d1 by simp
  let ?p = "?n + 1 + 2 + length userinfo + 1 + length host + 1 + length port"
  have d4: "drop ?p s = path @ ?q @ ?f"
    using drop_more [of "?n + 1 + 2" s "userinfo @ [64] @ host @ [58] @ port"] d3 by (simp add: ac_simps)
  have r: "path @ ?q @ ?f = [] \<or> \<not> is_digit (hd (path @ ?q @ ?f))"
    using ok(8) not_digit by (auto simp: hd_append split: option.split)
  have au: "uri_authority s (?n + 1 + 2) = Some (userinfo @ [64], host, 58 # port, ?p)"
    by (rule uri_authority_text [OF d3 ok(1,3-7) r])
  note t = uri_tail [OF d4 ok(1,9-11), unfolded Let_def]
  have tails: "the_default [] q = tl ?q" "the_default [] f = tl ?f" by (simp_all split: option.split)
  have "sc_uri_create (Some s) =
      Some \<lparr>u_str = (scheme @ [58]) @ [47, 47] @ (userinfo @ [64]) @ host @ (58 # port) @ path @ ?q @ ?f,
          u_scheme = butlast (scheme @ [58]), u_host = host, u_userinfo = butlast (userinfo @ [64]),
          u_port = tl (58 # port), u_path = path, u_query = tl ?q, u_fragment = tl ?f\<rparr>"
    unfolding sc_uri_create_def option.case col Let_def sc chr_at_drop [OF d1] chr_at_drop [OF d2]
    by (simp only: if_True simp_thms au Option.bind.simps prod.case t Let_def)
  then show ?thesis unfolding s_def [symmetric] tails by (simp add: s)
qed

theorem sc_uri_round_trip_witness:
  "sc_uri_create (Some (uri_text [116] [110] [104] [56, 48] [47, 97] (Some [113]) None)) =
     Some \<lparr>u_str = uri_text [116] [110] [104] [56, 48] [47, 97] (Some [113]) None, u_scheme = [116],
       u_host = [104], u_userinfo = [110], u_port = [56, 48], u_path = [47, 97], u_query = [113],
       u_fragment = []\<rparr>"
proof -
  have "uri_parts_ok [116] [110] [104] [56, 48] [47, 97] (Some [113]) None"
    by (simp add: uri_parts_ok_def uri_text_def is_digit_def digits_val_def)
  then show ?thesis using sc_uri_round_trip [of "[116]" "[110]" "[104]" "[56, 48]" "[47, 97]" "Some [113]" None] by simp
qed

text \<open>
  A colon in the path of a URI that has no port is taken for the port's: parsing
  \<^verbatim>\<open>t://n@h/a:1\<close> succeeds with the port \<^verbatim>\<open>1\<close>, and the path is not part of the result any more,
  not even of its full string.
\<close>

theorem sc_uri_colon_in_path:
  "\<exists>uri. sc_uri_create (Some [116, 58, 47, 47, 110, 64, 104, 47, 97, 58, 49]) = Some uri \<and>
     u_port uri = [49] \<and> u_path uri = [] \<and> u_str uri = [116, 58, 47, 47, 110, 64, 104, 58, 49]"
  by (simp add: sc_uri_create_def uri_authority_def strchr_at_def strcspn_def chr_at_def strtoul_def
      is_digit_def digits_val_def slice_def Let_def)

end
