(* ===== verification/Meta.thy ===== *)
theory Meta
  imports Codec Sc_Uri
begin

text \<open>
  The cluster configuration, \<^verbatim>\<open>src/meta.c\<close>: the nodes with their addresses, who leads, and the
  configuration before the last change, which is kept until the change is committed. A pointer to a
  URI may be null; the code dereferences it without a check, so the functions here use its parts.
  Roles are the bytes of the encoding.
\<close>

section \<open>Definitions\<close>

definition META_LEADER :: u8 where "META_LEADER = 0"
definition META_FOLLOWER :: u8 where "META_FOLLOWER = 1"

record meta_node =
  mn_name :: "cstring option"
  mn_role :: u8
  mn_uris :: "sc_uri option list"

datatype meta = Meta (m_name: "cstring option") (m_uris: "cstring option") (m_term: u64) (m_index: u64)
  (m_voter: u32) (m_nodes: "meta_node list") (m_prev: "meta option")

definition meta_node_init :: "sc_uri option \<Rightarrow> meta_node" where
  "meta_node_init uri =
     \<lparr>mn_name = sc_str_create (Some (u_userinfo (the uri))), mn_role = META_FOLLOWER, mn_uris = [uri]\<rparr>"

definition meta_node_encode :: "meta_node \<Rightarrow> sc_buf \<Rightarrow> sc_buf" where
  "meta_node_encode n b =
     (let b = sc_buf_put_str b (mn_name n);
          b = sc_buf_put_8 b (mn_role n);
          b = sc_buf_put_32 b (word_of_nat (length (mn_uris n)))
      in foldl (\<lambda>b uri. sc_buf_put_str b (Some (u_str (the uri)))) b (mn_uris n))"

text \<open>The loop that reads the URIs of a node, and the one that reads the nodes.\<close>

primrec meta_get_uris :: "nat \<Rightarrow> sc_buf \<Rightarrow> sc_uri option list \<times> sc_buf" where
  "meta_get_uris 0 b = ([], b)"
| "meta_get_uris (Suc n) b =
     (let (s, b) = sc_buf_get_str b; (us, b) = meta_get_uris n b in (sc_uri_create s # us, b))"

definition meta_node_decode :: "sc_buf \<Rightarrow> meta_node \<times> sc_buf" where
  "meta_node_decode b =
     (let (nm, b) = sc_buf_get_str b;
          (role, b) = sc_buf_get_8 b;
          (count, b) = sc_buf_get_32 b;
          (us, b) = meta_get_uris (unat count) b
      in (\<lparr>mn_name = sc_str_create nm, mn_role = role, mn_uris = us\<rparr>, b))"

primrec meta_get_nodes :: "nat \<Rightarrow> sc_buf \<Rightarrow> meta_node list \<times> sc_buf" where
  "meta_get_nodes 0 b = ([], b)"
| "meta_get_nodes (Suc k) b =
     (let (n, b) = meta_node_decode b; (ns, b) = meta_get_nodes k b in (n # ns, b))"

definition meta_init :: "cstring option \<Rightarrow> meta" where
  "meta_init cluster_name = Meta (sc_str_create cluster_name) (sc_str_create (Some [])) 0 0 0 [] None"

definition meta_term :: "meta \<Rightarrow> meta" where
  "meta_term m = Meta None None (m_term m) (m_index m) (m_voter m) [] None"

definition meta_node_copy :: "meta_node \<Rightarrow> meta_node" where
  "meta_node_copy src =
     \<lparr>mn_name = sc_str_create (mn_name src), mn_role = mn_role src,
      mn_uris = map (\<lambda>uri. sc_uri_create (Some (u_str (the uri)))) (mn_uris src)\<rparr>"

text \<open>\<^verbatim>\<open>meta_copy\<close> clears its destination first, so the result depends on the source only.\<close>

fun meta_copy :: "meta \<Rightarrow> meta" where
  "meta_copy (Meta nm us t i v ns p) =
     Meta (sc_str_create nm) (snd (sc_str_set (sc_str_create (Some [])) us)) t i v (map meta_node_copy ns)
       (case p of None \<Rightarrow> None | Some q \<Rightarrow> Some (meta_copy q))"

fun meta_encode :: "meta \<Rightarrow> sc_buf \<Rightarrow> sc_buf" where
  "meta_encode (Meta nm us t i v ns p) b =
     (let b = sc_buf_put_str b nm;
          b = sc_buf_put_str b us;
          b = sc_buf_put_64 b t;
          b = sc_buf_put_64 b i;
          b = sc_buf_put_32 b v;
          b = sc_buf_put_32 b (word_of_nat (length ns));
          b = foldl (\<lambda>b n. meta_node_encode n b) b ns
      in case p of None \<Rightarrow> sc_buf_put_bool b False | Some q \<Rightarrow> meta_encode q (sc_buf_put_bool b True))"

partial_function (option) meta_decode :: "meta \<Rightarrow> sc_buf \<Rightarrow> (meta \<times> sc_buf) option" where
  "meta_decode m b =
     (let (nm, b) = sc_buf_get_str b; nm = snd (sc_str_set (m_name m) nm);
          (us, b) = sc_buf_get_str b; us = snd (sc_str_set (m_uris m) us);
          (t, b) = sc_buf_get_64 b;
          (i, b) = sc_buf_get_64 b;
          (v, b) = sc_buf_get_32 b;
          (count, b) = sc_buf_get_32 b;
          (ns, b) = meta_get_nodes (unat count) b;
          (prev, b) = sc_buf_get_bool b
      in if prev
         then Option.bind (meta_decode (meta_init nm) b) (\<lambda>(p, b).
                Some (Meta nm us t i v (m_nodes m @ ns) (Some p), b))
         else Some (Meta nm us t i v (m_nodes m @ ns) (m_prev m), b))"

definition put_uris :: "sc_buf \<Rightarrow> meta_node \<Rightarrow> sc_buf" where
  "put_uris b n = foldl (\<lambda>b uri. sc_buf_put_text b (Some (u_str (the uri) @ [32]))) b (mn_uris n)"

definition meta_update :: "meta \<Rightarrow> meta" where
  "meta_update m =
     (let tmp = sc_buf_init 1024;
          tmp = (case find (\<lambda>n. mn_role n = META_LEADER) (m_nodes m) of
                   Some n \<Rightarrow> put_uris tmp n | None \<Rightarrow> tmp);
          tmp = foldl put_uris tmp (filter (\<lambda>n. mn_role n \<noteq> META_LEADER) (m_nodes m))
      in Meta (m_name m) (snd (sc_str_set (m_uris m) (Some (cstr_at (mem tmp) (rpos tmp)))))
           (m_term m) (m_index m) (word_of_nat (length (m_nodes m))) (m_nodes m) (m_prev m))"

definition meta_validate :: "meta \<Rightarrow> sc_uri \<Rightarrow> bool" where
  "meta_validate m uri =
     (if u_userinfo uri = [] \<or> u_scheme uri = [] \<or> u_port uri = [] then False
      else list_all (\<lambda>n. the (mn_name n) \<noteq> u_userinfo uri \<and>
             list_all (\<lambda>r. \<not> (u_host (the r) = u_host uri \<and> u_port (the r) = u_port uri)) (mn_uris n))
           (m_nodes m))"

definition meta_exists :: "meta \<Rightarrow> cstring \<Rightarrow> bool" where
  "meta_exists m nm = list_ex (\<lambda>n. the (mn_name n) = nm) (m_nodes m)"

definition meta_add :: "meta \<Rightarrow> sc_uri \<Rightarrow> bool \<times> meta" where
  "meta_add m uri =
     (if \<not> meta_validate m uri then (False, m)
      else let node = (meta_node_init (sc_uri_create (Some (u_str uri))))\<lparr>mn_role := META_FOLLOWER\<rparr>
           in (True, meta_update (Meta (m_name m) (m_uris m) (m_term m) (m_index m) (m_voter m)
                 (m_nodes m @ [node]) (Some (meta_copy m)))))"

text \<open>Deleting the first node of that name.\<close>

fun del_node :: "cstring \<Rightarrow> meta_node list \<Rightarrow> meta_node list" where
  "del_node nm [] = []"
| "del_node nm (n # ns) = (if the (mn_name n) = nm then ns else n # del_node nm ns)"

definition meta_remove :: "meta \<Rightarrow> cstring \<Rightarrow> bool \<times> meta" where
  "meta_remove m nm =
     (if \<not> meta_exists m nm then (False, m)
      else (True, meta_update (Meta (m_name m) (m_uris m) (m_term m) (m_index m) (m_voter m)
              (del_node nm (m_nodes m)) (Some (meta_copy m)))))"

definition meta_remove_prev :: "meta \<Rightarrow> meta" where
  "meta_remove_prev m = Meta (m_name m) (m_uris m) (m_term m) (m_index m) (m_voter m) (m_nodes m) None"

definition meta_rollback :: "meta \<Rightarrow> u64 \<Rightarrow> meta" where
  "meta_rollback m index =
     (case m_prev m of None \<Rightarrow> m | Some p \<Rightarrow> if m_index p \<le> index then m else meta_copy p)"

definition meta_replace :: "bytes \<Rightarrow> (meta \<times> sc_buf) option" where
  "meta_replace data = meta_decode (meta_init (Some [])) (sc_buf_wrap data (length data) SC_BUF_READ)"

definition meta_set_leader :: "meta \<Rightarrow> cstring option \<Rightarrow> meta" where
  "meta_set_leader m nm =
     meta_update (Meta (m_name m) (m_uris m) (m_term m) (m_index m) (m_voter m)
       (map (\<lambda>n. if nm \<noteq> None \<and> the (mn_name n) = the nm then n\<lparr>mn_role := META_LEADER\<rparr>
                  else n\<lparr>mn_role := META_FOLLOWER\<rparr>) (m_nodes m)) (m_prev m))"

fun add_uri :: "sc_uri \<Rightarrow> meta_node list \<Rightarrow> meta_node list" where
  "add_uri uri [] = [meta_node_init (Some uri)]"
| "add_uri uri (n # ns) =
     (if u_userinfo uri = the (mn_name n) then n\<lparr>mn_uris := mn_uris n @ [Some uri]\<rparr> # ns
      else n # add_uri uri ns)"

text \<open>The loop of \<^verbatim>\<open>meta_parse_uris\<close> over the copy of the string; false on a bad address.\<close>

partial_function (option) parse_uris_loop ::
    "bytes \<Rightarrow> nat \<Rightarrow> nat option \<Rightarrow> meta_node list \<Rightarrow> (bool \<times> meta_node list) option" where
  "parse_uris_loop m n save ns =
     (case sc_str_token_begin m n save [32] of
        (None, save, m) \<Rightarrow> Some (True, ns)
      | (Some it, save, m) \<Rightarrow>
          let tok = cstr_at m it in
          if tok = [] then Some (True, ns)
          else case sc_uri_create (Some tok) of
              None \<Rightarrow> Some (False, ns)
            | Some uri \<Rightarrow>
                if u_userinfo uri = [] \<or> u_port uri = [] \<or> u_host uri = [] then Some (False, ns)
                else parse_uris_loop m n save (add_uri uri ns))"

definition meta_parse_uris :: "meta \<Rightarrow> cstring option \<Rightarrow> (bool \<times> meta) option" where
  "meta_parse_uris m addrs =
     (case sc_str_create addrs of
        None \<Rightarrow> Some (False, m)
      | Some dup \<Rightarrow>
          map_option (\<lambda>(rc, ns).
              if rc then (True, meta_update (Meta (m_name m) (m_uris m) (m_term m) (m_index m) (m_voter m) ns (m_prev m)))
              else (False, Meta None None (m_term m) (m_index m) (m_voter m) ns (m_prev m)))
            (parse_uris_loop (dup @ [0]) (length dup) None (m_nodes m)))"

section \<open>Well-formed configurations\<close>

text \<open>A URI that was parsed from its own string.\<close>

definition uri_ok :: "sc_uri option \<Rightarrow> bool" where
  "uri_ok u \<longleftrightarrow> (\<exists>x. u = Some x \<and> sc_uri_create (Some (u_str x)) = u \<and> length (u_str x) < 2 ^ 20 \<and>
     0 \<notin> set (u_str x))"

definition text_ok :: "cstring option \<Rightarrow> bool" where
  "text_ok s \<longleftrightarrow> (\<exists>x. s = Some x \<and> length x \<le> SC_STR_MAX \<and> 0 \<notin> set x)"

definition node_ok :: "meta_node \<Rightarrow> bool" where
  "node_ok n \<longleftrightarrow> text_ok (mn_name n) \<and> (\<forall>u \<in> set (mn_uris n). uri_ok u) \<and> length (mn_uris n) < 2 ^ 32"

fun meta_ok :: "meta \<Rightarrow> bool" where
  "meta_ok (Meta nm us t i v ns p) =
     (text_ok nm \<and> text_ok us \<and> length ns < 2 ^ 32 \<and> (\<forall>n \<in> set ns. node_ok n) \<and>
      (case p of None \<Rightarrow> True | Some q \<Rightarrow> meta_ok q))"

lemma text_ok_create: "text_ok s \<Longrightarrow> sc_str_create s = s \<and> str_ok s \<and> snd (sc_str_set old s) = s"
  by (auto simp: text_ok_def sc_str_create_def sc_str_create_len_def str_ok_def SC_STR_MAX_def
      sc_str_set_def)

lemma uri_ok_str:
  "uri_ok u \<Longrightarrow> str_ok (Some (u_str (the u))) \<and> sc_uri_create (Some (u_str (the u))) = u"
  by (auto simp: uri_ok_def str_ok_def)

lemma node_copy [simp]: "node_ok n \<Longrightarrow> meta_node_copy n = n"
proof -
  assume ok: "node_ok n"
  then have "map (\<lambda>uri. sc_uri_create (Some (u_str (the uri)))) (mn_uris n) = mn_uris n"
    by (intro map_idI) (simp add: node_ok_def uri_ok_str)
  then show ?thesis using ok by (simp add: meta_node_copy_def node_ok_def text_ok_create)
qed

lemma meta_copy_id: "meta_ok m \<Longrightarrow> meta_copy m = m"
  by (induction m rule: meta_copy.induct) (auto simp: text_ok_create map_idI split: option.splits)

section \<open>Encoding\<close>

definition node_fields :: "meta_node \<Rightarrow> field list" where
  "node_fields n = [FStr (mn_name n), F8 (mn_role n), F32 (word_of_nat (length (mn_uris n)))] @
     map (\<lambda>u. FStr (Some (u_str (the u)))) (mn_uris n)"

fun meta_fields :: "meta \<Rightarrow> field list" where
  "meta_fields (Meta nm us t i v ns p) =
     [FStr nm, FStr us, F64 t, F64 i, F32 v, F32 (word_of_nat (length ns))] @
     concat (map node_fields ns) @
     (case p of None \<Rightarrow> [FBool False] | Some q \<Rightarrow> FBool True # meta_fields q)"

definition meta_bytes :: "meta \<Rightarrow> bytes" where
  "meta_bytes m = concat (map enc_field (meta_fields m))"

lemma meta_node_encode_fields: "meta_node_encode n b = foldl put_field b (node_fields n)"
  by (simp add: meta_node_encode_def node_fields_def Let_def foldl_map)

lemma meta_encode_fields: "meta_encode m b = foldl put_field b (meta_fields m)"
proof (induction m b rule: meta_encode.induct)
  case (1 nm us t i v ns p b)
  have ns: "foldl (\<lambda>b n. meta_node_encode n b) b ns = foldl put_field b (concat (map node_fields ns))" for b
    by (induction ns arbitrary: b) (simp_all add: meta_node_encode_fields)
  show ?case using 1 by (cases p) (simp_all add: ns Let_def)
qed

lemma node_fields_ok: "node_ok n \<Longrightarrow> f \<in> set (node_fields n) \<Longrightarrow> field_ok f"
  by (auto simp: node_fields_def node_ok_def uri_ok_str text_ok_create)

lemma meta_fields_ok: "meta_ok m \<Longrightarrow> f \<in> set (meta_fields m) \<Longrightarrow> field_ok f"
  by (induction m rule: meta_fields.induct)
    (auto simp: text_ok_create dest: node_fields_ok split: option.splits)

lemma meta_get_uris_enc:
  assumes "\<forall>u \<in> set us. uri_ok u" "holds b (concat (map (\<lambda>u. enc_str (Some (u_str (the u)))) us) @ xs)"
  shows "\<exists>b'. meta_get_uris (length us) b = (us, b') \<and> holds b' xs"
  using assms
proof (induction us arbitrary: b)
  case (Cons u us)
  let ?s = "Some (u_str (the u))"
  have ok: "str_ok ?s" "sc_uri_create ?s = u" using Cons.prems(1) uri_ok_str [of u] by simp_all
  have g: "sc_buf_get_str b = (?s, adv b (length (enc_str ?s)))" "holds (adv b (length (enc_str ?s)))
      (concat (map (\<lambda>u. enc_str (Some (u_str (the u)))) us) @ xs)"
    using holds_str [OF _ ok(1), of b] Cons.prems(2) by simp_all
  obtain b' where "meta_get_uris (length us) (adv b (length (enc_str ?s))) = (us, b')" "holds b' xs"
    using Cons.IH [OF _ g(2)] Cons.prems(1) by auto
  then show ?case using g(1) ok(2) by simp
qed simp

lemma meta_node_decode_enc:
  assumes ok: "node_ok n" and h: "holds b (concat (map enc_field (node_fields n)) @ xs)"
  shows "\<exists>b'. meta_node_decode b = (n, b') \<and> holds b' xs"
proof -
  let ?us = "concat (map (\<lambda>u. enc_str (Some (u_str (the u)))) (mn_uris n))"
  have e: "concat (map enc_field (node_fields n)) =
      enc_str (mn_name n) @ mn_role n # le32 (word_of_nat (length (mn_uris n))) @ ?us"
    by (simp add: node_fields_def comp_def)
  have o: "str_ok (mn_name n)" "sc_str_create (mn_name n) = mn_name n" "length (mn_uris n) < 2 ^ 32"
      "\<forall>u \<in> set (mn_uris n). uri_ok u"
    using ok text_ok_create [of "mn_name n"] by (auto simp: node_ok_def)
  obtain b1 where 1: "sc_buf_get_str b = (mn_name n, b1)"
      "holds b1 (mn_role n # le32 (word_of_nat (length (mn_uris n))) @ ?us @ xs)"
    using holds_str [OF _ o(1), of b] h e by auto
  obtain b2 where 2: "sc_buf_get_8 b1 = (mn_role n, b2)" "holds b2 (le32 (word_of_nat (length (mn_uris n))) @ ?us @ xs)"
    using holds_8 [OF 1(2)] by blast
  obtain b3 where 3: "sc_buf_get_32 b2 = (word_of_nat (length (mn_uris n)), b3)" "holds b3 (?us @ xs)"
    using holds_32 [OF 2(2)] by blast
  obtain b4 where 4: "meta_get_uris (length (mn_uris n)) b3 = (mn_uris n, b4)" "holds b4 xs"
    using meta_get_uris_enc [OF o(4) 3(2)] by blast
  show ?thesis
    using 1(1) 2(1) 3(1) 4 o(2,3) by (simp add: meta_node_decode_def)
qed

lemma meta_get_nodes_enc:
  assumes "\<forall>n \<in> set ns. node_ok n" "holds b (concat (map enc_field (concat (map node_fields ns))) @ xs)"
  shows "\<exists>b'. meta_get_nodes (length ns) b = (ns, b') \<and> holds b' xs"
  using assms
proof (induction ns arbitrary: b)
  case (Cons n ns)
  obtain b1 where 1: "meta_node_decode b = (n, b1)"
      "holds b1 (concat (map enc_field (concat (map node_fields ns))) @ xs)"
    using meta_node_decode_enc [of n b] Cons.prems by auto
  obtain b2 where "meta_get_nodes (length ns) b1 = (ns, b2)" "holds b2 xs"
    using Cons.IH [OF _ 1(2)] Cons.prems(1) by auto
  then show ?case using 1(1) by simp
qed simp

lemma meta_decode_enc:
  assumes "meta_ok m" "holds b (meta_bytes m @ xs)" "m_nodes m0 = []" "m_prev m0 = None"
  shows "\<exists>b'. meta_decode m0 b = Some (m, b') \<and> holds b' xs"
  using assms
proof (induction m arbitrary: b m0 rule: meta_fields.induct)
  case (1 nm us t i v ns p)
  let ?ns = "concat (map enc_field (concat (map node_fields ns)))"
  let ?p = "case p of None \<Rightarrow> enc_bool False | Some q \<Rightarrow> enc_bool True @ meta_bytes q"
  have e: "meta_bytes (Meta nm us t i v ns p) = enc_str nm @ enc_str us @ le64 t @ le64 i @ le32 v @
      le32 (word_of_nat (length ns)) @ ?ns @ ?p"
    by (simp add: meta_bytes_def split: option.split)
  have o: "str_ok nm" "str_ok us" "snd (sc_str_set (m_name m0) nm) = nm" "snd (sc_str_set (m_uris m0) us) = us"
      "length ns < 2 ^ 32" "\<forall>n \<in> set ns. node_ok n"
    using "1.prems"(1) text_ok_create by (auto simp: text_ok_create)
  obtain b1 where 1: "sc_buf_get_str b = (nm, b1)"
      "holds b1 (enc_str us @ le64 t @ le64 i @ le32 v @ le32 (word_of_nat (length ns)) @ ?ns @ ?p @ xs)"
    using holds_str [OF _ o(1), of b] "1.prems"(2) e by auto
  obtain b2 where 2: "sc_buf_get_str b1 = (us, b2)"
      "holds b2 (le64 t @ le64 i @ le32 v @ le32 (word_of_nat (length ns)) @ ?ns @ ?p @ xs)"
    using holds_str [OF 1(2) o(2)] by blast
  obtain b3 where 3: "sc_buf_get_64 b2 = (t, b3)"
      "holds b3 (le64 i @ le32 v @ le32 (word_of_nat (length ns)) @ ?ns @ ?p @ xs)"
    using holds_64 [OF 2(2)] by blast
  obtain b4 where 4: "sc_buf_get_64 b3 = (i, b4)"
      "holds b4 (le32 v @ le32 (word_of_nat (length ns)) @ ?ns @ ?p @ xs)"
    using holds_64 [OF 3(2)] by blast
  obtain b5 where 5: "sc_buf_get_32 b4 = (v, b5)" "holds b5 (le32 (word_of_nat (length ns)) @ ?ns @ ?p @ xs)"
    using holds_32 [OF 4(2)] by blast
  obtain b6 where 6: "sc_buf_get_32 b5 = (word_of_nat (length ns), b6)" "holds b6 (?ns @ ?p @ xs)"
    using holds_32 [OF 5(2)] by blast
  obtain b7 where 7: "meta_get_nodes (length ns) b6 = (ns, b7)" "holds b7 (?p @ xs)"
    using meta_get_nodes_enc [OF o(6) 6(2)] by blast
  note st = 1(1) 2(1) 3(1) 4(1) 5(1) 6(1) 7(1) o(3-5) "1.prems"(3,4)
  show ?case
  proof (cases p)
    case None
    obtain b8 where "sc_buf_get_bool b7 = (False, b8)" "holds b8 xs"
      using holds_bool [of b7 False xs] 7(2) None by auto
    then show ?thesis using st None by (subst meta_decode.simps) simp
  next
    case (Some q)
    obtain b8 where b8: "sc_buf_get_bool b7 = (True, b8)" "holds b8 (meta_bytes q @ xs)"
      using holds_bool [of b7 True "meta_bytes q @ xs"] 7(2) Some by auto
    obtain b9 where "meta_decode (meta_init nm) b8 = Some (q, b9)" "holds b9 xs"
      using "1.IH" [OF Some _ b8(2), of "meta_init nm"] "1.prems"(1) Some by (auto simp: meta_init_def)
    then show ?thesis using st b8(1) Some by (subst meta_decode.simps) simp
  qed
qed

section \<open>The address text\<close>

text \<open>The text that clients get: the leader's addresses first, each followed by a space.\<close>

definition node_text :: "meta_node \<Rightarrow> cstring" where
  "node_text n = concat (map (\<lambda>u. u_str (the u) @ [32]) (mn_uris n))"

definition leader_first :: "meta_node list \<Rightarrow> meta_node list" where
  "leader_first ns = (case find (\<lambda>n. mn_role n = META_LEADER) ns of Some n \<Rightarrow> [n] | None \<Rightarrow> []) @
     filter (\<lambda>n. mn_role n \<noteq> META_LEADER) ns"

definition nodes_text :: "meta_node list \<Rightarrow> cstring" where
  "nodes_text ns = concat (map node_text (leader_first ns))"

lemma put_uris_holds:
  assumes "holds_text b t" "room b (length (mn_uris n) + k) (length (node_text n) + length (mn_uris n) + m)"
  shows "holds_text (put_uris b n) (t @ node_text n) \<and> room (put_uris b n) k m"
proof -
  have "holds_text (foldl (\<lambda>b uri. sc_buf_put_text b (Some (u_str (the uri) @ [32]))) b us)
        (t @ concat (map (\<lambda>u. u_str (the u) @ [32]) us)) \<and>
      room (foldl (\<lambda>b uri. sc_buf_put_text b (Some (u_str (the uri) @ [32]))) b us) k m"
    if "holds_text b t" "room b (length us + k) (length (concat (map (\<lambda>u. u_str (the u) @ [32]) us)) + length us + m)"
    for us b t
    using that
  proof (induction us arbitrary: b t)
    case (Cons u us)
    let ?b = "sc_buf_put_text b (Some (u_str (the u) @ [32]))"
    have "holds_text ?b (t @ u_str (the u) @ [32]) \<and>
        room ?b (length us + k) (length (concat (map (\<lambda>u. u_str (the u) @ [32]) us)) + length us + m)"
      using Cons.prems by (intro put_text_holds) (simp_all add: ac_simps)
    then show ?case using Cons.IH [of ?b "t @ u_str (the u) @ [32]"] by simp
  qed simp
  then show ?thesis using assms by (simp add: put_uris_def node_text_def)
qed

definition uri_count :: "meta_node list \<Rightarrow> nat" where
  "uri_count ns = sum_list (map (\<lambda>n. length (mn_uris n)) ns)"

lemma put_nodes_holds:
  assumes "holds_text b t" "room b (uri_count ns + k) (length (concat (map node_text ns)) + uri_count ns + m)"
  shows "holds_text (foldl put_uris b ns) (t @ concat (map node_text ns)) \<and> room (foldl put_uris b ns) k m"
  using assms
proof (induction ns arbitrary: b t)
  case (Cons n ns)
  have "holds_text (put_uris b n) (t @ node_text n) \<and>
      room (put_uris b n) (uri_count ns + k) (length (concat (map node_text ns)) + uri_count ns + m)"
    using Cons.prems by (intro put_uris_holds) (simp_all add: uri_count_def ac_simps)
  then show ?case using Cons.IH [of "put_uris b n" "t @ node_text n"] by simp
qed (simp add: uri_count_def)

lemma text_cstr:
  assumes "holds_text b t" "0 \<notin> set t"
  shows "cstr_at (mem b) (rpos b) = t"
proof -
  have w: "sc_buf_wf b" "rpos b = 0" using assms(1) by (auto simp: holds_text_def)
  consider "sc_buf_contents b = t @ [0]" | "t = []" "mem b = [] \<or> hd (mem b) = 0"
    using assms(1) by (auto simp: holds_text_def)
  then show ?thesis
  proof cases
    case 1
    then have "drop 0 (mem b) = t @ 0 # drop (wpos b) (mem b)"
      using append_take_drop_id [of "wpos b" "mem b"] by (simp add: sc_buf_contents_def)
    then show ?thesis using cstr_at_terminated [OF assms(2)] w(2) by simp
  next
    case 2
    then show ?thesis using w(2) by (cases "mem b") (simp_all add: cstr_at_def)
  qed
qed

lemma leader_first_in: "n \<in> set (leader_first ns) \<Longrightarrow> n \<in> set ns"
  by (auto simp: leader_first_def find_Some_iff dest!: sym [of "Some n"] split: option.splits)

lemma node_text_terminated: "node_ok n \<Longrightarrow> 0 \<notin> set (node_text n)"
  by (auto simp: node_text_def node_ok_def uri_ok_def)

text \<open>Room for the text of a configuration, with the rounding of every growth of the buffer.\<close>

definition config_size :: "meta_node list \<Rightarrow> nat" where
  "config_size ns = sum_list (map (\<lambda>n. length (node_text n) + 5000 * length (mn_uris n)) ns)"

definition text_fits :: "meta_node list \<Rightarrow> bool" where
  "text_fits ns \<longleftrightarrow> config_size ns + 10000 < 2 ^ 32"

lemma config_size_simps [simp]:
  "config_size [] = 0" "config_size (n # ns) = length (node_text n) + 5000 * length (mn_uris n) + config_size ns"
  "config_size (ns @ ms) = config_size ns + config_size ms"
  by (simp_all add: config_size_def)

lemma config_size_leader_first: "config_size (leader_first ns) \<le> config_size ns"
proof (induction ns)
  case (Cons n ns)
  have "config_size (filter P ns) \<le> config_size ns" for P by (induction ns) auto
  from this [of "\<lambda>n. mn_role n \<noteq> META_LEADER"] show ?case
    using Cons by (auto simp: leader_first_def split: option.splits)
qed (simp add: leader_first_def)

lemma text_fits_text:
  assumes "text_fits ns"
  shows "length (nodes_text ns) + 5000 * uri_count (leader_first ns) + 10000 < 2 ^ 32"
proof -
  have "config_size ms = length (concat (map node_text ms)) + 5000 * uri_count ms" for ms
    by (induction ms) (simp_all add: uri_count_def)
  then show ?thesis
    using assms config_size_leader_first [of ns] by (simp add: nodes_text_def text_fits_def)
qed

lemma nodes_text_ok:
  assumes "\<forall>n \<in> set ns. node_ok n" "text_fits ns"
  shows "0 \<notin> set (nodes_text ns)" "text_ok (Some (nodes_text ns))"
proof -
  show z: "0 \<notin> set (nodes_text ns)"
    using assms(1) node_text_terminated leader_first_in by (fastforce simp: nodes_text_def)
  show "text_ok (Some (nodes_text ns))"
    using z text_fits_text [OF assms(2)] by (simp add: text_ok_def SC_STR_MAX_def)
qed

lemma meta_update_eq:
  assumes ok: "\<forall>n \<in> set (m_nodes m). node_ok n" and fits: "text_fits (m_nodes m)"
  shows "meta_update m = Meta (m_name m) (Some (nodes_text (m_nodes m))) (m_term m) (m_index m)
    (word_of_nat (length (m_nodes m))) (m_nodes m) (m_prev m)"
proof -
  let ?b = "foldl put_uris (sc_buf_init 1024) (leader_first (m_nodes m))"
  note z = nodes_text_ok [OF ok fits]
  have "holds_text (sc_buf_init 1024) []"
    by (simp add: holds_text_def sc_buf_init_def sc_buf_wrap_def sc_buf_wf_def)
  moreover have "room (sc_buf_init 1024) (uri_count (leader_first (m_nodes m)) + 0)
      (length (concat (map node_text (leader_first (m_nodes m)))) + uri_count (leader_first (m_nodes m)) + 0)"
    using text_fits_text [OF fits] by (simp add: nodes_text_def room_def sc_buf_init_def sc_buf_wrap_def SC_BUF_MAX_def)
  ultimately have "holds_text ?b (nodes_text (m_nodes m))"
    using put_nodes_holds [of "sc_buf_init 1024" "[]" "leader_first (m_nodes m)" 0 0]
    by (simp add: nodes_text_def)
  then have c: "cstr_at (mem ?b) (rpos ?b) = nodes_text (m_nodes m)" using z(1) by (rule text_cstr)
  have "meta_update m = Meta (m_name m) (snd (sc_str_set (m_uris m) (Some (cstr_at (mem ?b) (rpos ?b)))))
      (m_term m) (m_index m) (word_of_nat (length (m_nodes m))) (m_nodes m) (m_prev m)"
    by (simp add: meta_update_def leader_first_def Let_def split: option.split)
  then show ?thesis using c text_ok_create [OF z(2)] by simp
qed

section \<open>Configuration changes\<close>

definition names :: "meta_node list \<Rightarrow> cstring list" where
  "names ns = map (\<lambda>n. the (mn_name n)) ns"

definition addresses :: "meta_node list \<Rightarrow> (cstring \<times> cstring) list" where
  "addresses ns = concat (map (\<lambda>n. map (\<lambda>u. (u_host (the u), u_port (the u))) (mn_uris n)) ns)"

definition leaders :: "meta_node list \<Rightarrow> cstring list" where
  "leaders ns = names (filter (\<lambda>n. mn_role n = META_LEADER) ns)"

text \<open>
  A valid configuration: names and addresses are unique, there is at most one leader, and the voter
  count and the address text agree with the nodes.
\<close>

definition valid_config :: "meta \<Rightarrow> bool" where
  "valid_config m \<longleftrightarrow> meta_ok m \<and> text_fits (m_nodes m) \<and> distinct (names (m_nodes m)) \<and>
     distinct (addresses (m_nodes m)) \<and> length (leaders (m_nodes m)) \<le> 1 \<and>
     m_voter m = word_of_nat (length (m_nodes m)) \<and> m_uris m = Some (nodes_text (m_nodes m))"

lemma names_simps [simp]:
  "names [] = []" "names (n # ns) = the (mn_name n) # names ns" "names (ns @ ms) = names ns @ names ms"
  by (simp_all add: names_def)

lemma addresses_simps [simp]:
  "addresses [] = []"
  "addresses (n # ns) = map (\<lambda>u. (u_host (the u), u_port (the u))) (mn_uris n) @ addresses ns"
  "addresses (ns @ ms) = addresses ns @ addresses ms"
  by (simp_all add: addresses_def)

lemma leaders_simps [simp]:
  "leaders [] = []" "leaders (n # ns) = (if mn_role n = META_LEADER then [the (mn_name n)] else []) @ leaders ns"
  "leaders (ns @ ms) = leaders ns @ leaders ms"
  by (simp_all add: leaders_def)

lemma meta_ok_iff:
  "meta_ok m \<longleftrightarrow> text_ok (m_name m) \<and> text_ok (m_uris m) \<and> length (m_nodes m) < 2 ^ 32 \<and>
     (\<forall>n \<in> set (m_nodes m). node_ok n) \<and> (\<forall>q. m_prev m = Some q \<longrightarrow> meta_ok q)"
  by (cases m) (auto split: option.splits)

text \<open>The common end of every change: the derived fields are recomputed.\<close>

lemma meta_update_valid:
  assumes "text_ok nm" "length ns < 2 ^ 32" "\<forall>n \<in> set ns. node_ok n" "\<forall>q. p = Some q \<longrightarrow> meta_ok q"
    "text_fits ns" "distinct (names ns)" "distinct (addresses ns)" "length (leaders ns) \<le> 1"
  shows "valid_config (meta_update (Meta nm us t i v ns p))"
    "m_nodes (meta_update (Meta nm us t i v ns p)) = ns" "m_prev (meta_update (Meta nm us t i v ns p)) = p"
    "m_index (meta_update (Meta nm us t i v ns p)) = i" "m_term (meta_update (Meta nm us t i v ns p)) = t"
    "m_name (meta_update (Meta nm us t i v ns p)) = nm"
  using assms meta_update_eq [of "Meta nm us t i v ns p"] nodes_text_ok(2) [of ns]
  by (auto simp: valid_config_def split: option.split)

definition new_node :: "sc_uri \<Rightarrow> meta_node" where
  "new_node uri = \<lparr>mn_name = Some (u_userinfo uri), mn_role = META_FOLLOWER, mn_uris = [Some uri]\<rparr>"

lemma in_names: "nm \<in> set (names ns) \<longleftrightarrow> (\<exists>n \<in> set ns. the (mn_name n) = nm)"
  by (auto simp: names_def)

lemma in_addresses:
  "(h, p) \<in> set (addresses ns) \<longleftrightarrow>
     (\<exists>n \<in> set ns. \<exists>u \<in> set (mn_uris n). u_host (the u) = h \<and> u_port (the u) = p)"
  by (induction ns) (auto simp: image_iff)

lemma meta_validate_iff:
  "meta_validate m uri \<longleftrightarrow> u_userinfo uri \<noteq> [] \<and> u_scheme uri \<noteq> [] \<and> u_port uri \<noteq> [] \<and>
     u_userinfo uri \<notin> set (names (m_nodes m)) \<and> (u_host uri, u_port uri) \<notin> set (addresses (m_nodes m))"
  unfolding meta_validate_def in_names in_addresses list_all_iff by auto

lemma meta_exists_iff: "meta_exists m nm \<longleftrightarrow> nm \<in> set (names (m_nodes m))"
  by (auto simp: meta_exists_def in_names list_ex_iff)

lemma del_node_split:
  "nm \<in> set (names ns) \<Longrightarrow> \<exists>a n b. ns = a @ n # b \<and> the (mn_name n) = nm \<and> nm \<notin> set (names a) \<and>
     del_node nm ns = a @ b"
proof (induction ns)
  case (Cons x ns)
  show ?case
  proof (cases "the (mn_name x) = nm")
    case True
    then show ?thesis by (intro exI [of _ "[]"] exI [of _ x] exI [of _ ns]) simp
  next
    case False
    then obtain a n b where "ns = a @ n # b" "the (mn_name n) = nm" "nm \<notin> set (names a)" "del_node nm ns = a @ b"
      using Cons by auto
    then show ?thesis using False by (intro exI [of _ "x # a"] exI [of _ n] exI [of _ b]) auto
  qed
qed simp

definition addable :: "meta \<Rightarrow> sc_uri \<Rightarrow> bool" where
  "addable m uri \<longleftrightarrow> valid_config m \<and> uri_ok (Some uri) \<and> text_ok (Some (u_userinfo uri)) \<and>
     text_fits (m_nodes m @ [new_node uri]) \<and> length (m_nodes m) + 1 < 2 ^ 32"

lemma meta_add_valid:
  assumes "addable m uri" "meta_validate m uri"
  obtains m' where "meta_add m uri = (True, m')" "valid_config m'" "m_nodes m' = m_nodes m @ [new_node uri]"
    "m_prev m' = Some m" "m_index m' = m_index m" "m_term m' = m_term m"
proof -
  have u: "sc_uri_create (Some (u_str uri)) = Some uri" and t: "text_ok (Some (u_userinfo uri))"
    using assms(1) by (auto simp: addable_def uri_ok_def)
  have n: "(meta_node_init (Some uri))\<lparr>mn_role := META_FOLLOWER\<rparr> = new_node uri"
    using text_ok_create [OF t] by (simp add: meta_node_init_def new_node_def)
  have v: "valid_config m" "meta_ok m" using assms(1) by (simp_all add: addable_def valid_config_def)
  have ok: "node_ok (new_node uri)" using assms(1) by (simp add: addable_def node_ok_def new_node_def)
  define m' where "m' = meta_update (Meta (m_name m) (m_uris m) (m_term m) (m_index m) (m_voter m)
      (m_nodes m @ [new_node uri]) (Some m))"
  have e: "meta_add m uri = (True, m')"
    using assms(2) u n meta_copy_id [OF v(2)] by (simp add: meta_add_def m'_def)
  note upd = meta_update_valid [of "m_name m" "m_nodes m @ [new_node uri]" "Some m" "m_uris m" "m_term m"
      "m_index m" "m_voter m", folded m'_def]
  have w: "text_ok (m_name m)" "\<forall>n \<in> set (m_nodes m). node_ok n" "distinct (names (m_nodes m))"
      "distinct (addresses (m_nodes m))" "length (leaders (m_nodes m)) \<le> 1"
    using v(1) by (simp_all add: valid_config_def meta_ok_iff [of m])
  have l: "length (m_nodes m @ [new_node uri]) < 2 ^ 32" "text_fits (m_nodes m @ [new_node uri])"
    using assms(1) by (simp_all add: addable_def)
  have o: "\<forall>n \<in> set (m_nodes m @ [new_node uri]). node_ok n" using w(2) ok by simp
  have d: "distinct (names (m_nodes m @ [new_node uri]))" "distinct (addresses (m_nodes m @ [new_node uri]))"
      "length (leaders (m_nodes m @ [new_node uri])) \<le> 1"
    using w(3-5) assms(2) by (simp_all add: meta_validate_iff new_node_def META_FOLLOWER_def META_LEADER_def)
  have q: "\<forall>q. Some m = Some q \<longrightarrow> meta_ok q" using v(2) by simp
  note u = upd [OF w(1) l(1) o q l(2) d]
  show thesis by (rule that [OF e u(1-5)])
qed

lemma meta_remove_valid:
  assumes "valid_config m" "nm \<in> set (names (m_nodes m))"
  obtains m' a n b where "meta_remove m nm = (True, m')" "valid_config m'" "m_nodes m = a @ n # b"
    "the (mn_name n) = nm" "m_nodes m' = a @ b" "m_prev m' = Some m" "m_index m' = m_index m"
    "m_term m' = m_term m"
proof -
  obtain a n b where s: "m_nodes m = a @ n # b" "the (mn_name n) = nm" "del_node nm (m_nodes m) = a @ b"
    using del_node_split [OF assms(2)] by blast
  define m' where "m' = meta_update (Meta (m_name m) (m_uris m) (m_term m) (m_index m) (m_voter m) (a @ b) (Some m))"
  have ok: "meta_ok m" using assms(1) by (simp add: valid_config_def)
  have e: "meta_remove m nm = (True, m')"
    using assms(2) s(3) meta_copy_id [OF ok] by (simp add: meta_remove_def meta_exists_iff m'_def)
  note upd = meta_update_valid [of "m_name m" "a @ b" "Some m" "m_uris m" "m_term m" "m_index m" "m_voter m",
      folded m'_def]
  have w: "text_ok (m_name m)" "\<forall>n \<in> set (m_nodes m). node_ok n" "distinct (names (m_nodes m))"
      "distinct (addresses (m_nodes m))" "length (leaders (m_nodes m)) \<le> 1" "text_fits (m_nodes m)"
      "length (m_nodes m) < 2 ^ 32"
    using assms(1) by (simp_all add: valid_config_def meta_ok_iff [of m])
  have l: "text_fits (a @ b)" "length (a @ b) < 2 ^ 32" using w(6,7) s(1) by (simp_all add: text_fits_def)
  have o: "\<forall>n \<in> set (a @ b). node_ok n" using w(2) s(1) by simp
  have d: "distinct (names (a @ b))" "distinct (addresses (a @ b))" "length (leaders (a @ b)) \<le> 1"
    using w(3-5) s(1) by auto
  have q: "\<forall>q. Some m = Some q \<longrightarrow> meta_ok q" using ok by simp
  note u = upd [OF w(1) l(2) o q l(1) d]
  show thesis by (rule that [OF e u(1) s(1,2) u(2-5)])
qed

definition with_leader :: "cstring option \<Rightarrow> meta_node list \<Rightarrow> meta_node list" where
  "with_leader nm ns = map (\<lambda>n. if nm \<noteq> None \<and> the (mn_name n) = the nm then n\<lparr>mn_role := META_LEADER\<rparr>
     else n\<lparr>mn_role := META_FOLLOWER\<rparr>) ns"

lemma with_leader_simps [simp]:
  "length (with_leader nm ns) = length ns" "names (with_leader nm ns) = names ns"
  "addresses (with_leader nm ns) = addresses ns" "config_size (with_leader nm ns) = config_size ns"
  by (induction ns) (simp_all add: with_leader_def node_text_def)

lemma leaders_with_leader:
  "distinct (names ns) \<Longrightarrow>
     leaders (with_leader nm ns) = (if nm \<noteq> None \<and> the nm \<in> set (names ns) then [the nm] else [])"
  by (induction ns) (auto simp: with_leader_def META_LEADER_def META_FOLLOWER_def)

lemma meta_set_leader_valid:
  assumes "valid_config m"
  shows "valid_config (meta_set_leader m nm)" "m_nodes (meta_set_leader m nm) = with_leader nm (m_nodes m)"
    "m_prev (meta_set_leader m nm) = m_prev m" "m_index (meta_set_leader m nm) = m_index m"
    "m_term (meta_set_leader m nm) = m_term m"
proof -
  let ?ns = "with_leader nm (m_nodes m)"
  have w: "text_ok (m_name m)" "\<forall>n \<in> set (m_nodes m). node_ok n" "distinct (names (m_nodes m))"
      "distinct (addresses (m_nodes m))" "text_fits (m_nodes m)"
      "length (m_nodes m) < 2 ^ 32" "\<forall>q. m_prev m = Some q \<longrightarrow> meta_ok q"
    using assms by (simp_all add: valid_config_def meta_ok_iff [of m])
  have l: "text_fits ?ns" "length ?ns < 2 ^ 32" "distinct (names ?ns)" "distinct (addresses ?ns)"
      "length (leaders ?ns) \<le> 1"
    using w(3-6) leaders_with_leader [OF w(3)] by (simp_all add: text_fits_def)
  have o: "\<forall>n \<in> set ?ns. node_ok n" using w(2) by (auto simp: with_leader_def node_ok_def)
  have e: "meta_set_leader m nm =
      meta_update (Meta (m_name m) (m_uris m) (m_term m) (m_index m) (m_voter m) ?ns (m_prev m))"
    by (simp add: meta_set_leader_def with_leader_def)
  note u = meta_update_valid [OF w(1) l(2) o w(7) l(1,3,4,5), of "m_uris m" "m_term m" "m_index m" "m_voter m",
      folded e]
  show "valid_config (meta_set_leader m nm)" "m_nodes (meta_set_leader m nm) = with_leader nm (m_nodes m)"
    "m_prev (meta_set_leader m nm) = m_prev m" "m_index (meta_set_leader m nm) = m_index m"
    "m_term (meta_set_leader m nm) = m_term m"
    by (rule u)+
qed

section \<open>Reading addresses\<close>

text \<open>The loop of \<^verbatim>\<open>meta_parse_uris\<close> over the tokens.\<close>

fun parse_tokens :: "cstring list \<Rightarrow> meta_node list \<Rightarrow> bool \<times> meta_node list" where
  "parse_tokens [] ns = (True, ns)"
| "parse_tokens (tok # toks) ns =
     (if tok = [] then (True, ns)
      else case sc_uri_create (Some tok) of
          None \<Rightarrow> (False, ns)
        | Some uri \<Rightarrow>
            if u_userinfo uri = [] \<or> u_port uri = [] \<or> u_host uri = [] then (False, ns)
            else parse_tokens toks (add_uri uri ns))"

lemma parse_uris_loop_tokens:
  assumes "token_loop m n save delim = Some (toks, m')" "delim = [32]"
  shows "parse_uris_loop m n save ns = Some (parse_tokens toks ns)"
proof -
  have "\<forall>ns. delim = [32] \<longrightarrow> parse_uris_loop m n save ns = Some (parse_tokens (fst r) ns)"
    if "token_loop m n save delim = Some r" for r
    using that
  proof (rule token_loop.raw_induct [where P = "\<lambda>m n save delim r.
      \<forall>ns. delim = [32] \<longrightarrow> parse_uris_loop m n save ns = Some (parse_tokens (fst r) ns)", rotated])
    fix rec m n save delim r
    assume ih: "\<And>m n save delim r. rec m n save delim = Some r \<Longrightarrow>
        \<forall>ns. delim = [32] \<longrightarrow> parse_uris_loop m n save ns = Some (parse_tokens (fst r) ns)"
      and st: "(case sc_str_token_begin m n save delim of
        (None, save, m) \<Rightarrow> Some ([], m)
      | (Some it, save, m) \<Rightarrow>
          Option.bind (rec m n save delim) (\<lambda>(toks, m'). Some (cstr_at m it # toks, m'))) = Some r"
    obtain it save' m1 where b: "sc_str_token_begin m n save delim = (it, save', m1)" by (metis prod.exhaust)
    show "\<forall>ns. delim = [32] \<longrightarrow> parse_uris_loop m n save ns = Some (parse_tokens (fst r) ns)"
    proof (intro allI impI)
      fix ns assume d: "delim = [32]"
      show "parse_uris_loop m n save ns = Some (parse_tokens (fst r) ns)"
      proof (cases it)
        case None
        then show ?thesis using st b d by (subst parse_uris_loop.simps) auto
      next
        case (Some a)
        then obtain q where q: "rec m1 n save' delim = Some q" "r = (cstr_at m1 a # fst q, snd q)"
          using st b by (auto simp: Option.bind_eq_Some_conv)
        show ?thesis
          using ih [OF q(1)] q(2) b d Some
          by (subst parse_uris_loop.simps) (simp split: option.split)
      qed
    qed
  qed
  then show ?thesis using assms by fastforce
qed

lemma meta_parse_uris_tokens:
  assumes "length s \<le> SC_STR_MAX" "0 \<notin> set s"
  shows "meta_parse_uris m (Some s) =
    Some (case parse_tokens (split_at [32] s) (m_nodes m) of
        (True, ns) \<Rightarrow> (True, meta_update (Meta (m_name m) (m_uris m) (m_term m) (m_index m) (m_voter m) ns (m_prev m)))
      | (False, ns) \<Rightarrow> (False, Meta None None (m_term m) (m_index m) (m_voter m) ns (m_prev m)))"
proof -
  have c: "sc_str_create (Some s) = Some s"
    using assms text_ok_create [of "Some s"] by (simp add: text_ok_def)
  obtain rc ns where p: "parse_tokens (split_at [32] s) (m_nodes m) = (rc, ns)" by (metis prod.exhaust)
  have "parse_uris_loop (s @ [0]) (length s) None (m_nodes m) = Some (rc, ns)"
    using parse_uris_loop_tokens [OF token_loop_split [of s "[32]"] refl] assms(2) p by simp
  then show ?thesis using c p by (cases rc) (simp_all add: meta_parse_uris_def)
qed

text \<open>A node whose addresses, as text, name it again.\<close>

definition uri_named :: "cstring \<Rightarrow> sc_uri option \<Rightarrow> bool" where
  "uri_named nm u \<longleftrightarrow> (\<exists>x. u = Some x \<and> sc_uri_create (Some (u_str x)) = Some x \<and> u_userinfo x = nm \<and>
     u_port x \<noteq> [] \<and> u_host x \<noteq> [] \<and> u_str x \<noteq> [] \<and> 32 \<notin> set (u_str x))"

definition node_named :: "meta_node \<Rightarrow> bool" where
  "node_named n \<longleftrightarrow> node_ok n \<and> the (mn_name n) \<noteq> [] \<and> mn_uris n \<noteq> [] \<and>
     (\<forall>u \<in> set (mn_uris n). uri_named (the (mn_name n)) u)"

lemma split_at_spaced:
  "\<forall>s \<in> set ss. d \<notin> set s \<Longrightarrow> split_at [d] (concat (map (\<lambda>s. s @ [d]) ss)) = ss @ [[]]"
proof (induction ss)
  case (Cons s ss)
  have "d \<notin> set s \<Longrightarrow> split_at [d] (s @ d # r) = s # split_at [d] r" for s r
    by (induction s) (auto split: list.split)
  then show ?case using Cons by simp
qed simp

lemma add_uri_known:
  "u_userinfo x \<notin> set (names acc) \<Longrightarrow> u_userinfo x = the (mn_name n) \<Longrightarrow>
     add_uri x (acc @ [n]) = acc @ [n\<lparr>mn_uris := mn_uris n @ [Some x]\<rparr>]"
  by (induction acc) auto

lemma add_uri_new:
  "u_userinfo x \<notin> set (names acc) \<Longrightarrow> text_ok (Some (u_userinfo x)) \<Longrightarrow> add_uri x acc = acc @ [new_node x]"
  using text_ok_create [of "Some (u_userinfo x)"]
  by (induction acc) (auto simp: meta_node_init_def new_node_def)

lemma parse_tokens_step:
  "uri_named nm u \<Longrightarrow> nm \<noteq> [] \<Longrightarrow>
     parse_tokens (u_str (the u) # toks) ns = parse_tokens toks (add_uri (the u) ns)"
  by (auto simp: uri_named_def)

lemma parse_tokens_rest:
  assumes "\<forall>u \<in> set us. uri_named nm u" "nm \<noteq> []" "nm \<notin> set (names acc)" "mn_name n = Some nm"
  shows "parse_tokens (map (\<lambda>u. u_str (the u)) us @ toks) (acc @ [n]) =
    parse_tokens toks (acc @ [n\<lparr>mn_uris := mn_uris n @ us\<rparr>])"
  using assms
proof (induction us arbitrary: n)
  case (Cons u us)
  obtain x where x: "u = Some x" "u_userinfo x = nm" using Cons.prems(1) by (auto simp: uri_named_def)
  have "parse_tokens (u_str (the u) # map (\<lambda>u. u_str (the u)) us @ toks) (acc @ [n]) =
      parse_tokens (map (\<lambda>u. u_str (the u)) us @ toks) (add_uri (the u) (acc @ [n]))"
    using Cons.prems(1,2) by (intro parse_tokens_step) simp_all
  also have "add_uri (the u) (acc @ [n]) = acc @ [n\<lparr>mn_uris := mn_uris n @ [u]\<rparr>]"
    using add_uri_known [of x acc n] x Cons.prems(3,4) by simp
  finally show ?case using Cons.IH [of "n\<lparr>mn_uris := mn_uris n @ [u]\<rparr>"] Cons.prems by simp
qed simp

lemma parse_tokens_node:
  assumes "node_named n" "the (mn_name n) \<notin> set (names acc)"
  shows "parse_tokens (map (\<lambda>u. u_str (the u)) (mn_uris n) @ toks) acc =
    parse_tokens toks (acc @ [n\<lparr>mn_role := META_FOLLOWER\<rparr>])"
proof -
  obtain u us where us: "mn_uris n = u # us" using assms(1) by (auto simp: node_named_def neq_Nil_conv)
  obtain x where x: "u = Some x" "u_userinfo x = the (mn_name n)"
    using assms(1) us by (auto simp: node_named_def uri_named_def)
  have t: "text_ok (mn_name n)" "mn_name n = Some (the (mn_name n))"
    using assms(1) by (auto simp: node_named_def node_ok_def text_ok_def)
  let ?n = "new_node x"
  have "parse_tokens (map (\<lambda>u. u_str (the u)) (mn_uris n) @ toks) acc =
      parse_tokens (map (\<lambda>u. u_str (the u)) us @ toks) (add_uri (the u) acc)"
    using assms(1) us parse_tokens_step [of "the (mn_name n)" u] by (simp add: node_named_def)
  also have "add_uri (the u) acc = acc @ [?n]"
    using add_uri_new [of x acc] x assms(2) t by simp
  also have "parse_tokens (map (\<lambda>u. u_str (the u)) us @ toks) (acc @ [?n]) =
      parse_tokens toks (acc @ [?n\<lparr>mn_uris := mn_uris ?n @ us\<rparr>])"
    using assms us x by (intro parse_tokens_rest [where nm = "the (mn_name n)"]) (simp_all add: node_named_def new_node_def)
  also have "?n\<lparr>mn_uris := mn_uris ?n @ us\<rparr> = n\<lparr>mn_role := META_FOLLOWER\<rparr>"
    using us x t(2) by (simp add: new_node_def)
  finally show ?thesis .
qed

lemma parse_tokens_nodes:
  assumes "\<forall>n \<in> set ns. node_named n" "distinct (names (acc @ ns))"
  shows "parse_tokens (concat (map (\<lambda>n. map (\<lambda>u. u_str (the u)) (mn_uris n)) ns) @ [[]]) acc =
    (True, acc @ with_leader None ns)"
  using assms
proof (induction ns arbitrary: acc)
  case (Cons n ns)
  have d: "the (mn_name n) \<notin> set (names acc)" "distinct (names ((acc @ [n\<lparr>mn_role := META_FOLLOWER\<rparr>]) @ ns))"
    using Cons.prems(2) by simp_all
  show ?case
    using parse_tokens_node [of n acc] Cons.prems(1) d(1) Cons.IH [OF _ d(2)] by (simp add: with_leader_def)
qed (simp add: with_leader_def)

lemma nodes_text_tokens:
  assumes "\<forall>n \<in> set ns. node_named n"
  shows "split_at [32] (nodes_text ns) =
    concat (map (\<lambda>n. map (\<lambda>u. u_str (the u)) (mn_uris n)) (leader_first ns)) @ [[]]"
proof -
  let ?ss = "concat (map (\<lambda>n. map (\<lambda>u. u_str (the u)) (mn_uris n)) (leader_first ns))"
  have "concat (map node_text xs) = concat (map (\<lambda>s. s @ [32]) (concat (map (\<lambda>n. map (\<lambda>u. u_str (the u)) (mn_uris n)) xs)))"
    for xs by (induction xs) (simp_all add: node_text_def comp_def)
  then have "nodes_text ns = concat (map (\<lambda>s. s @ [32]) ?ss)" by (simp add: nodes_text_def)
  moreover have "\<forall>s \<in> set ?ss. 32 \<notin> set s"
    using assms leader_first_in by (fastforce simp: node_named_def uri_named_def)
  ultimately show ?thesis using split_at_spaced [of ?ss 32] by simp
qed

lemma distinct_leader_first:
  assumes "distinct (names ns)"
  shows "distinct (names (leader_first ns))"
  using assms
proof (induction ns)
  case (Cons n ns)
  have f: "distinct (names (filter P ns)) \<and> set (names (filter P ns)) \<subseteq> set (names ns)" for P
    using Cons.prems by (induction ns) auto
  have s: "set (names (leader_first ns)) \<subseteq> set (names ns)"
    using leader_first_in by (fastforce simp: in_names)
  show ?case
    using Cons f [of "\<lambda>n. mn_role n \<noteq> META_LEADER"] s by (auto simp: leader_first_def split: option.splits)
qed (simp add: leader_first_def)

section \<open>A cluster of one node\<close>

text \<open>The node \<^verbatim>\<open>n\<close> at \<^verbatim>\<open>t://n@h:1\<close>, and the URI \<^verbatim>\<open>t://o@h:2\<close> of a node that may join it.\<close>

definition uri_n :: sc_uri where
  "uri_n = \<lparr>u_str = [116, 58, 47, 47, 110, 64, 104, 58, 49], u_scheme = [116], u_host = [104],
     u_userinfo = [110], u_port = [49], u_path = [], u_query = [], u_fragment = []\<rparr>"

definition uri_o :: sc_uri where
  "uri_o = \<lparr>u_str = [116, 58, 47, 47, 111, 64, 104, 58, 50], u_scheme = [116], u_host = [104],
     u_userinfo = [111], u_port = [50], u_path = [], u_query = [], u_fragment = []\<rparr>"

definition one_node :: meta where
  "one_node = Meta (Some [99]) (Some [116, 58, 47, 47, 110, 64, 104, 58, 49, 32]) 3 7 1
     [\<lparr>mn_name = Some [110], mn_role = META_LEADER, mn_uris = [Some uri_n]\<rparr>] None"

lemma uris_parse:
  "sc_uri_create (Some (u_str uri_n)) = Some uri_n" "sc_uri_create (Some (u_str uri_o)) = Some uri_o"
  by (simp_all add: uri_n_def uri_o_def sc_uri_create_def uri_authority_def strchr_at_def strcspn_def
      chr_at_def strtoul_def is_digit_def digits_val_def slice_def Let_def)

lemma uris_ok: "uri_ok (Some uri_n)" "uri_ok (Some uri_o)"
  using uris_parse by (simp_all add: uri_ok_def uri_n_def uri_o_def)

lemma one_node_ok: "meta_ok one_node"
  using uris_ok by (simp add: one_node_def text_ok_def node_ok_def SC_STR_MAX_def)

lemma one_node_valid: "valid_config one_node"
  using one_node_ok by (simp add: valid_config_def) (simp add: one_node_def text_fits_def node_text_def
      nodes_text_def leader_first_def uri_n_def)

lemma one_node_addable: "addable one_node uri_o" "meta_validate one_node uri_o"
  using one_node_valid uris_ok
  by (simp_all add: addable_def meta_validate_iff text_ok_def SC_STR_MAX_def)
     (simp_all add: one_node_def text_fits_def node_text_def new_node_def uri_n_def uri_o_def)

section \<open>Properties\<close>

text \<open>
  C34: A configuration survives its encoding: writing it, with the configuration before it, to a
  buffer with room, and decoding what was written gives it back, and all the bytes are read.
\<close>

theorem meta_round_trip:
  assumes "meta_ok m" "sc_buf_wf b" "sc_buf_data b = []"
    "room b (2 * length (meta_fields m)) (length (meta_bytes m))"
  shows "\<exists>b'. meta_decode (meta_init nm) (meta_encode m b) = Some (m, b') \<and> sc_buf_data b' = [] \<and> err b' = 0"
proof -
  have "holds (meta_encode m b) (meta_bytes m)"
    unfolding meta_encode_fields meta_bytes_def
    using assms meta_fields_ok by (intro holds_foldl) (auto simp: meta_bytes_def)
  then show ?thesis
    using meta_decode_enc [OF assms(1), of "meta_encode m b" "[]" "meta_init nm"]
    by (auto simp: meta_init_def holds_def)
qed

theorem meta_round_trip_witness:
  "\<exists>b'. meta_decode (meta_init None) (meta_encode one_node (sc_buf_init 256)) = Some (one_node, b') \<and>
     sc_buf_data b' = [] \<and> err b' = 0"
proof -
  have "sc_buf_wf (sc_buf_init 256)" "sc_buf_data (sc_buf_init 256) = []"
    by (simp_all add: sc_buf_init_def sc_buf_wrap_def sc_buf_wf_def sc_buf_data_def sc_buf_contents_def)
  moreover have "room (sc_buf_init 256) (2 * length (meta_fields one_node)) (length (meta_bytes one_node))"
    by (simp add: room_def sc_buf_init_def sc_buf_wrap_def SC_BUF_MAX_def meta_bytes_def one_node_def node_fields_def
        uri_n_def enc_str_def enc_bool_def)
  ultimately show ?thesis using meta_round_trip [OF one_node_ok] by blast
qed

text \<open>
  C35: Changing the cluster. From a valid configuration, \<^verbatim>\<open>meta_add\<close> accepts exactly a URI with a
  scheme, a name and a port whose name and address are new, and appends it as a follower;
  \<^verbatim>\<open>meta_remove\<close> accepts exactly a known name and takes that node out. The result is valid again
  and keeps the configuration it came from; a refused change changes nothing.
\<close>

theorem meta_change_valid:
  assumes "addable m uri"
  shows "(meta_validate m uri \<longrightarrow> (\<exists>m'. meta_add m uri = (True, m') \<and> valid_config m' \<and> m_prev m' = Some m \<and>
             names (m_nodes m') = names (m_nodes m) @ [u_userinfo uri] \<and>
             leaders (m_nodes m') = leaders (m_nodes m))) \<and>
    (\<not> meta_validate m uri \<longrightarrow> meta_add m uri = (False, m)) \<and>
    (nm \<in> set (names (m_nodes m)) \<longrightarrow> (\<exists>m'. meta_remove m nm = (True, m') \<and> valid_config m' \<and>
             m_prev m' = Some m \<and> set (names (m_nodes m')) = set (names (m_nodes m)) - {nm} \<and>
             length (m_nodes m) = length (m_nodes m') + 1)) \<and>
    (nm \<notin> set (names (m_nodes m)) \<longrightarrow> meta_remove m nm = (False, m))"
proof (intro conjI impI)
  assume "meta_validate m uri"
  from meta_add_valid [OF assms this] obtain m' where
    "meta_add m uri = (True, m')" "valid_config m'" "m_nodes m' = m_nodes m @ [new_node uri]" "m_prev m' = Some m" .
  then show "\<exists>m'. meta_add m uri = (True, m') \<and> valid_config m' \<and> m_prev m' = Some m \<and>
      names (m_nodes m') = names (m_nodes m) @ [u_userinfo uri] \<and> leaders (m_nodes m') = leaders (m_nodes m)"
    by (intro exI [of _ m']) (simp add: new_node_def META_FOLLOWER_def META_LEADER_def)
next
  assume "\<not> meta_validate m uri"
  then show "meta_add m uri = (False, m)" by (simp add: meta_add_def)
next
  assume nm: "nm \<in> set (names (m_nodes m))"
  have v: "valid_config m" "distinct (names (m_nodes m))" using assms by (simp_all add: addable_def valid_config_def)
  from meta_remove_valid [OF v(1) nm] obtain m' a n b where
    "meta_remove m nm = (True, m')" "valid_config m'" "m_nodes m = a @ n # b"
    "the (mn_name n) = nm" "m_nodes m' = a @ b" "m_prev m' = Some m" .
  then show "\<exists>m'. meta_remove m nm = (True, m') \<and> valid_config m' \<and> m_prev m' = Some m \<and>
      set (names (m_nodes m')) = set (names (m_nodes m)) - {nm} \<and> length (m_nodes m) = length (m_nodes m') + 1"
    using v(2) by (intro exI [of _ m']) auto
next
  assume "nm \<notin> set (names (m_nodes m))"
  then show "meta_remove m nm = (False, m)" by (simp add: meta_remove_def meta_exists_iff)
qed

theorem meta_change_valid_witness:
  "\<exists>m'. meta_add one_node uri_o = (True, m') \<and> valid_config m' \<and> names (m_nodes m') = [[110], [111]]"
proof -
  have "names (m_nodes one_node) = [[110]]" "u_userinfo uri_o = [111]" by (simp_all add: one_node_def uri_o_def)
  then show ?thesis using meta_change_valid [OF one_node_addable(1), of "[110]"] one_node_addable(2) by auto
qed

text \<open>
  C36: \<^verbatim>\<open>meta_set_leader\<close> keeps a configuration valid and makes the named node, when it is known,
  the one leader; with no name or an unknown one there is no leader.
\<close>

theorem meta_set_leader_unique:
  assumes "valid_config m"
  shows "valid_config (meta_set_leader m nm) \<and> names (m_nodes (meta_set_leader m nm)) = names (m_nodes m) \<and>
    leaders (m_nodes (meta_set_leader m nm)) = (if nm \<noteq> None \<and> the nm \<in> set (names (m_nodes m)) then [the nm] else [])"
  using meta_set_leader_valid [OF assms, of nm] leaders_with_leader [of "m_nodes m" nm] assms
  by (simp add: valid_config_def)

theorem meta_set_leader_unique_witness:
  "valid_config (meta_set_leader one_node None) \<and> leaders (m_nodes (meta_set_leader one_node None)) = []"
  using meta_set_leader_unique [OF one_node_valid, of None] by simp

text \<open>
  Taking a change back. After a change that \<^verbatim>\<open>meta_add\<close> accepted and that was given the index
  \<open>i\<close> of its log entry, \<^verbatim>\<open>meta_rollback\<close> to an index before the previous configuration's entry
  restores that configuration. When the log is cut between the two entries, the change stays in force
  although its entry is gone.
\<close>

theorem meta_rollback_bounds:
  assumes "addable m uri" "meta_validate m uri" "m' = snd (meta_add m uri)"
    "m'' = Meta (m_name m') (m_uris m') (m_term m') i (m_voter m') (m_nodes m') (m_prev m')"
  shows "(j < m_index m \<longrightarrow> meta_rollback m'' j = m) \<and>
    (m_index m \<le> j \<and> j < i \<longrightarrow> meta_rollback m'' j = m'' \<and> m_nodes m'' \<noteq> m_nodes m)"
proof -
  from meta_add_valid [OF assms(1,2)] obtain x where
    x: "meta_add m uri = (True, x)" "m_nodes x = m_nodes m @ [new_node uri]" "m_prev x = Some m" .
  have "meta_copy m = m" using assms(1) meta_copy_id by (simp add: addable_def valid_config_def)
  then show ?thesis using assms(3,4) x by (auto simp: meta_rollback_def)
qed

theorem meta_rollback_bounds_witness:
  "(let m' = snd (meta_add one_node uri_o);
        m'' = Meta (m_name m') (m_uris m') (m_term m') 9 (m_voter m') (m_nodes m') (m_prev m')
    in meta_rollback m'' 6 = one_node \<and> meta_rollback m'' 8 = m'')"
proof -
  have "m_index one_node = 7" by (simp add: one_node_def)
  then show ?thesis
    using meta_rollback_bounds [OF one_node_addable refl refl, of 6 9] meta_rollback_bounds [OF one_node_addable refl refl, of 8 9]
    by (simp add: Let_def)
qed

text \<open>
  Clients can read the addresses they are given: \<^verbatim>\<open>meta_parse_uris\<close> returns on the text that
  \<^verbatim>\<open>meta_update\<close> made, accepts it, and finds the same nodes with the same addresses, the leader
  first.
\<close>

theorem meta_uris_round_trip:
  assumes "valid_config m" "\<forall>n \<in> set (m_nodes m). node_named n" "m_nodes m0 = []"
  shows "\<exists>m'. meta_parse_uris m0 (m_uris m) = Some (True, m') \<and>
    m_nodes m' = with_leader None (leader_first (m_nodes m))"
proof -
  let ?s = "nodes_text (m_nodes m)"
  have u: "m_uris m = Some ?s" "text_ok (Some ?s)" "distinct (names (m_nodes m))"
    using assms(1) meta_ok_iff [of m] by (auto simp: valid_config_def)
  have "parse_tokens (split_at [32] ?s) [] = (True, with_leader None (leader_first (m_nodes m)))"
    unfolding nodes_text_tokens [OF assms(2)]
    using parse_tokens_nodes [of "leader_first (m_nodes m)" "[]"] assms(2) leader_first_in
      distinct_leader_first [OF u(3)] by simp
  then show ?thesis
    using meta_parse_uris_tokens [of ?s m0] u(1,2) assms(3) by (simp add: text_ok_def meta_update_def Let_def)
qed

theorem meta_uris_round_trip_witness:
  "\<exists>m'. meta_parse_uris (meta_init None) (m_uris one_node) = Some (True, m') \<and>
     m_nodes m' = with_leader None (leader_first (m_nodes one_node))"
proof -
  have "\<forall>n \<in> set (m_nodes one_node). node_named n"
    using uris_ok uris_parse
    by (simp add: one_node_def node_named_def node_ok_def text_ok_def uri_named_def SC_STR_MAX_def)
       (simp add: uri_n_def)
  then show ?thesis
    by (intro meta_uris_round_trip [OF one_node_valid]) (simp_all add: meta_init_def)
qed

end
