(* ===== verification/Conn.thy ===== *)
theory Conn
  imports Msg Meta
begin

text \<open>
  Connections, \<^verbatim>\<open>src/conn.c\<close>, with the server's cache of buffers (\<^verbatim>\<open>server_buf_alloc\<close> and
  \<^verbatim>\<open>server_buf_free\<close>). What the operating system answers is an argument: the result of registering
  with the poll (\<open>ok\<close>), how many bytes a socket takes and how it then stops, the bytes it delivers.
  Timers and the textual addresses of a socket are not part of the model.
\<close>

section \<open>Definitions\<close>

datatype conn_state = CONN_DISCONNECTED | CONN_TCP_ATTEMPT | CONN_CONNECTED

datatype server_fd_type =
    SERVER_FD_NODE_RECV | SERVER_FD_CLIENT_RECV | SERVER_FD_INCOMING_CONN | SERVER_FD_OUTGOING_CONN
  | SERVER_FD_WAIT_FIRST_REQ | SERVER_FD_WAIT_FIRST_RESP | SERVER_FD_TASK | SERVER_FD_SIGNAL

record conn =
  c_state :: conn_state
  c_type :: server_fd_type
  c_out :: sc_buf
  c_in :: sc_buf
  c_rd :: bool
  c_wr :: bool

definition zero_buf :: sc_buf where
  "zero_buf = \<lparr>mem = [], cap = 0, limit = 0, rpos = 0, wpos = 0, err = 0, ref = False\<rparr>"

definition server_buf_alloc :: "sc_buf list \<Rightarrow> sc_buf \<times> sc_buf list" where
  "server_buf_alloc cache = (case cache of b # r \<Rightarrow> (b, r) | [] \<Rightarrow> (sc_buf_init 4096, []))"

definition server_buf_free :: "sc_buf list \<Rightarrow> sc_buf \<Rightarrow> sc_buf list" where
  "server_buf_free cache b =
     (if length cache \<ge> 1024 then cache
      else snd (sc_buf_shrink (sc_buf_clear b) (32 * 1024)) # cache)"

definition conn_register :: "bool \<Rightarrow> conn \<Rightarrow> bool \<Rightarrow> bool \<Rightarrow> rs_rc \<times> conn" where
  "conn_register ok c rd wr =
     (if \<not> ok then (RS_ERROR, c) else (RS_OK, c\<lparr>c_rd := c_rd c \<or> rd, c_wr := c_wr c \<or> wr\<rparr>))"

definition conn_unregister :: "bool \<Rightarrow> conn \<Rightarrow> bool \<Rightarrow> bool \<Rightarrow> rs_rc \<times> conn" where
  "conn_unregister ok c rd wr =
     (if \<not> ok then (RS_ERROR, c) else (RS_OK, c\<lparr>c_rd := c_rd c \<and> \<not> rd, c_wr := c_wr c \<and> \<not> wr\<rparr>))"

definition conn_established :: "bool \<Rightarrow> bool \<Rightarrow> conn \<Rightarrow> rs_rc \<times> conn" where
  "conn_established ok1 ok2 c =
     (let c = c\<lparr>c_state := CONN_CONNECTED\<rparr>;
          (rc, c) = conn_unregister ok1 c False True
      in if rc \<noteq> RS_OK then (rc, c) else conn_register ok2 c True False)"

definition conn_init :: conn where
  "conn_init = \<lparr>c_state = CONN_DISCONNECTED, c_type = SERVER_FD_NODE_RECV, c_out = zero_buf, c_in = zero_buf,
     c_rd = False, c_wr = False\<rparr>"

definition conn_create :: "bool \<Rightarrow> bool \<Rightarrow> conn option" where
  "conn_create ok1 ok2 =
     (let (rc, c) = conn_established ok1 ok2 (conn_init\<lparr>c_type := SERVER_FD_WAIT_FIRST_REQ\<rparr>)
      in if rc \<noteq> RS_OK then None else Some c)"

definition conn_clear_buf :: "conn \<Rightarrow> sc_buf list \<Rightarrow> conn \<times> sc_buf list" where
  "conn_clear_buf c cache =
     (let (c, cache) = (if cap (c_in c) \<noteq> 0 \<and> sc_buf_size (c_in c) = 0
            then (c\<lparr>c_in := zero_buf\<rparr>, server_buf_free cache (c_in c)) else (c, cache))
      in if cap (c_out c) \<noteq> 0 \<and> sc_buf_size (c_out c) = 0
         then (c\<lparr>c_out := zero_buf\<rparr>, server_buf_free cache (c_out c)) else (c, cache))"

definition conn_out :: "conn \<Rightarrow> sc_buf list \<Rightarrow> conn \<times> sc_buf list" where
  "conn_out c cache =
     (if cap (c_out c) = 0 then let (b, cache) = server_buf_alloc cache in (c\<lparr>c_out := b\<rparr>, cache)
      else (c, cache))"

text \<open>The result of unregistering is not looked at here.\<close>

definition conn_cleanup_sock :: "bool \<Rightarrow> conn \<Rightarrow> conn" where
  "conn_cleanup_sock ok c =
     (if c_state c = CONN_DISCONNECTED then c
      else (snd (conn_unregister ok c True True))\<lparr>c_state := CONN_DISCONNECTED\<rparr>)"

definition conn_term :: "bool \<Rightarrow> conn \<Rightarrow> sc_buf list \<Rightarrow> conn \<times> sc_buf list" where
  "conn_term ok c cache =
     (let c = conn_cleanup_sock ok c;
          (c, cache) = (if cap (c_in c) \<noteq> 0 then (c\<lparr>c_in := zero_buf\<rparr>, server_buf_free cache (c_in c)) else (c, cache))
      in if cap (c_out c) \<noteq> 0 then (c\<lparr>c_out := zero_buf\<rparr>, server_buf_free cache (c_out c)) else (c, cache))"

text \<open>\<^verbatim>\<open>conn_set\<close> moves a connection: the destination becomes the source.\<close>

definition conn_set :: "bool \<Rightarrow> bool \<Rightarrow> conn \<Rightarrow> rs_rc \<times> conn" where
  "conn_set ok1 ok2 src =
     (let (rc, c) = conn_unregister ok1 src True True
      in if rc \<noteq> RS_OK then (rc, c) else conn_register ok2 c True False)"

text \<open>The answer of a non-blocking connection attempt.\<close>

datatype connect_rc = Connected | Connect_again | Connect_failed

definition conn_try_connect :: "bool \<Rightarrow> bool \<Rightarrow> bool \<Rightarrow> connect_rc \<Rightarrow> conn \<Rightarrow> rs_rc \<times> conn" where
  "conn_try_connect ok0 ok1 ok2 ans c =
     (if c_state c = CONN_CONNECTED then (RS_EXISTS, c)
      else let c = (conn_cleanup_sock ok0 c)\<lparr>c_state := CONN_TCP_ATTEMPT, c_type := SERVER_FD_OUTGOING_CONN,
                 c_rd := False, c_wr := False\<rparr>
        in case ans of
             Connected \<Rightarrow> conn_established ok1 ok2 (c\<lparr>c_type := SERVER_FD_WAIT_FIRST_RESP\<rparr>)
           | Connect_again \<Rightarrow>
               (let (rc, c) = conn_register ok1 c False True in (if rc = RS_OK then RS_INPROGRESS else rc, c))
           | Connect_failed \<Rightarrow> (RS_ERROR, c))"

definition conn_on_out_connected :: "bool \<Rightarrow> bool \<Rightarrow> bool \<Rightarrow> conn \<Rightarrow> rs_rc \<times> conn" where
  "conn_on_out_connected finished ok1 ok2 c =
     (if \<not> finished then (RS_ERROR, c)
      else conn_established ok1 ok2 (c\<lparr>c_type := SERVER_FD_WAIT_FIRST_RESP\<rparr>))"

text \<open>
  The sending loop of \<^verbatim>\<open>conn_flush\<close>: the socket takes \<open>k\<close> bytes in all before it would block or
  fails. When that covers the buffer, the loop ends with an empty buffer; otherwise \<open>e\<close> is the answer
  it stops at, with the result of registering for writing when the socket would block.
\<close>

datatype send_end = Send_again bool | Send_failed

definition conn_flush :: "nat \<Rightarrow> send_end \<Rightarrow> conn \<Rightarrow> sc_buf list \<Rightarrow> rs_rc \<times> conn \<times> sc_buf list" where
  "conn_flush k e c cache =
     (if \<not> sc_buf_valid (c_out c) then (RS_ERROR, c, cache)
      else let len = sc_buf_size (c_out c)
        in if len \<le> k then (RS_OK, conn_clear_buf (c\<lparr>c_out := sc_buf_mark_read (c_out c) len\<rparr>) cache)
           else let c = c\<lparr>c_out := sc_buf_mark_read (c_out c) k\<rparr>
             in case e of
                  Send_again ok \<Rightarrow>
                    (let (rc, c) = conn_register ok c False True
                     in if rc \<noteq> RS_OK then (rc, c, cache) else (RS_OK, conn_clear_buf c cache))
                | Send_failed \<Rightarrow> (RS_ERROR, c, cache))"

definition conn_on_writable :: "bool \<Rightarrow> nat \<Rightarrow> send_end \<Rightarrow> conn \<Rightarrow> sc_buf list \<Rightarrow> rs_rc \<times> conn \<times> sc_buf list" where
  "conn_on_writable ok k e c cache =
     (let (rc, c) = conn_unregister ok c False True
      in if rc \<noteq> RS_OK then (rc, c, cache) else conn_flush k e c cache)"

text \<open>What the socket answers to a read: data, nothing yet, or an error or end of stream.\<close>

datatype recv_rc = Received bytes | Recv_again | Recv_failed

text \<open>The loop that makes room in the input buffer; false when the buffer cannot grow.\<close>

partial_function (option) read_room :: "sc_buf \<Rightarrow> (bool \<times> sc_buf) option" where
  "read_room b =
     (if sc_buf_quota b = 0
      then let (ok, b) = sc_buf_reserve b (2 * cap b mod 2 ^ 32) in if \<not> ok then Some (False, b) else read_room b
      else Some (True, b))"

definition conn_on_readable :: "recv_rc \<Rightarrow> conn \<Rightarrow> sc_buf list \<Rightarrow> (rs_rc \<times> conn \<times> sc_buf list) option" where
  "conn_on_readable ans c cache =
     (let (c, cache) = (if cap (c_in c) = 0
            then let (b, cache) = server_buf_alloc cache in (c\<lparr>c_in := b\<rparr>, cache) else (c, cache))
      in map_option (\<lambda>(ok, b).
           if \<not> ok then (RS_ERROR, c\<lparr>c_in := b\<rparr>, cache)
           else case ans of
               Received d \<Rightarrow>
                 (let d = take (sc_buf_quota b) d;
                      b = sc_buf_mark_write (b\<lparr>mem := write_at (mem b) (wpos b) d\<rparr>) (length d)
                  in (RS_OK, c\<lparr>c_in := b\<rparr>, cache))
             | Recv_again \<Rightarrow> (RS_OK, c\<lparr>c_in := b\<rparr>, cache)
             | Recv_failed \<Rightarrow> (RS_ERROR, c\<lparr>c_in := b\<rparr>, cache))
         (read_room (sc_buf_compact (c_in c))))"

section \<open>Buffers of a connection\<close>

text \<open>
  A buffer that a connection holds is either released, or it owns its memory and may grow. The cache
  has such buffers, and they are empty.
\<close>

definition owned :: "sc_buf \<Rightarrow> bool" where
  "owned b \<longleftrightarrow> sc_buf_wf b \<and> \<not> ref b \<and> limit b = SC_BUF_MAX \<and> cap b \<noteq> 0"

definition conn_buf :: "sc_buf \<Rightarrow> bool" where
  "conn_buf b \<longleftrightarrow> b = zero_buf \<or> owned b"

definition fresh_buf :: "sc_buf \<Rightarrow> bool" where
  "fresh_buf b \<longleftrightarrow> owned b \<and> err b = 0 \<and> sc_buf_data b = []"

definition cache_ok :: "sc_buf list \<Rightarrow> bool" where
  "cache_ok cache \<longleftrightarrow> list_all fresh_buf cache"

definition conn_ok :: "conn \<Rightarrow> bool" where
  "conn_ok c \<longleftrightarrow> conn_buf (c_out c) \<and> conn_buf (c_in c)"

lemma zero_buf_simps [simp]:
  "cap zero_buf = 0" "err zero_buf = 0" "sc_buf_data zero_buf = []" "sc_buf_wf zero_buf" "conn_buf zero_buf"
  by (simp_all add: zero_buf_def sc_buf_data_def sc_buf_contents_def sc_buf_wf_def conn_buf_def)

lemma conn_buf_wf: "conn_buf b \<Longrightarrow> sc_buf_wf b"
  by (auto simp: conn_buf_def owned_def)

lemma conn_buf_owned: "conn_buf b \<Longrightarrow> cap b \<noteq> 0 \<Longrightarrow> owned b"
  by (auto simp: conn_buf_def)

lemma conn_buf_empty: "conn_buf b \<Longrightarrow> sc_buf_size b = 0 \<longleftrightarrow> sc_buf_data b = []"
  by (simp add: sc_buf_size_data conn_buf_wf)

lemma alloc_fresh:
  assumes "cache_ok cache" "server_buf_alloc cache = (b, cache')"
  shows "fresh_buf b" "cache_ok cache'"
  using assms
  by (auto simp: server_buf_alloc_def cache_ok_def fresh_buf_def owned_def sc_buf_init_def sc_buf_wrap_def
      sc_buf_wf_def sc_buf_data_def sc_buf_contents_def split: list.splits)

lemma shrink_owned:
  assumes "owned b"
  shows "fresh_buf (snd (sc_buf_shrink (sc_buf_clear b) (32 * 1024)))"
proof -
  let ?c = "sc_buf_clear b"
  have c: "sc_buf_wf ?c" "sc_buf_data ?c = []" "err ?c = 0" "\<not> ref ?c" "limit ?c = SC_BUF_MAX" "cap ?c \<noteq> 0"
    using assms by (auto simp: owned_def sc_buf_clear_def sc_buf_wf_def sc_buf_data_def sc_buf_contents_def)
  note k = compact_data [OF c(1)]
  have r: "round_4096 (32 * 1024) = 32 * 1024" by (simp add: round_4096_def add32_def)
  show ?thesis
    using shrink_data [OF c(1), of "32 * 1024"] c k r
    by (auto simp: fresh_buf_def owned_def sc_buf_shrink_def Let_def)
qed

lemma free_cache: "cache_ok cache \<Longrightarrow> owned b \<Longrightarrow> cache_ok (server_buf_free cache b)"
  using shrink_owned [of b] by (simp add: server_buf_free_def cache_ok_def)

lemma register_frame [simp]:
  "c_out (snd (conn_register ok c rd wr)) = c_out c" "c_in (snd (conn_register ok c rd wr)) = c_in c"
  "c_out (snd (conn_unregister ok c rd wr)) = c_out c" "c_in (snd (conn_unregister ok c rd wr)) = c_in c"
  by (simp_all add: conn_register_def conn_unregister_def)

lemma cleanup_frame [simp]: "c_out (conn_cleanup_sock ok c) = c_out c" "c_in (conn_cleanup_sock ok c) = c_in c"
  by (simp_all add: conn_cleanup_sock_def)

text \<open>Releasing buffers loses no byte, since only empty ones are released.\<close>

lemma clear_buf_keeps:
  assumes "conn_ok c" "cache_ok cache" "conn_clear_buf c cache = (c', cache')"
  shows "conn_ok c' \<and> cache_ok cache' \<and> sc_buf_data (c_out c') = sc_buf_data (c_out c) \<and>
    sc_buf_data (c_in c') = sc_buf_data (c_in c) \<and> (err (c_in c) = 0 \<longrightarrow> err (c_in c') = 0)"
proof -
  have b: "conn_buf (c_in c)" "conn_buf (c_out c)" using assms(1) by (simp_all add: conn_ok_def)
  note o = conn_buf_owned [OF b(1)] conn_buf_owned [OF b(2)]
  note e = conn_buf_empty [OF b(1)] conn_buf_empty [OF b(2)]
  show ?thesis
    using assms(2,3) b o e free_cache [OF assms(2)] free_cache [OF free_cache [OF assms(2)]]
    by (cases "cap (c_in c) \<noteq> 0 \<and> sc_buf_size (c_in c) = 0"; cases "cap (c_out c) \<noteq> 0 \<and> sc_buf_size (c_out c) = 0")
       (simp_all add: conn_clear_buf_def conn_ok_def, auto)
qed

lemma conn_out_keeps:
  assumes "conn_ok c" "cache_ok cache" "conn_out c cache = (c', cache')"
  shows "conn_ok c' \<and> cache_ok cache' \<and> owned (c_out c') \<and> sc_buf_data (c_out c') = sc_buf_data (c_out c) \<and>
    c_in c' = c_in c"
  using assms alloc_fresh [OF assms(2)]
  by (auto simp: conn_out_def conn_ok_def conn_buf_def fresh_buf_def owned_def split: prod.splits if_splits)

lemma conn_term_ok:
  assumes "conn_ok c" "cache_ok cache" "conn_term ok c cache = (c', cache')"
  shows "conn_ok c' \<and> cache_ok cache' \<and> c_in c' = zero_buf \<and> c_out c' = zero_buf"
proof -
  have b: "conn_buf (c_in c)" "conn_buf (c_out c)" using assms(1) by (simp_all add: conn_ok_def)
  have z: "b = zero_buf" if "conn_buf b" "cap b = 0" for b using that by (simp add: conn_buf_def owned_def)
  note o = conn_buf_owned [OF b(1)] conn_buf_owned [OF b(2)]
  show ?thesis
    using assms(2,3) o z [OF b(1)] z [OF b(2)] free_cache [OF assms(2)] free_cache [OF free_cache [OF assms(2)]]
    by (cases "cap (c_in c) = 0"; cases "cap (c_out c) = 0") (auto simp: conn_term_def conn_ok_def Let_def)
qed

section \<open>What a connection carries\<close>

lemma mark_read_adv: "sc_buf_wf b \<Longrightarrow> n \<le> length (sc_buf_data b) \<Longrightarrow> sc_buf_mark_read b n = adv b n"
  using sc_buf_wfD [of b] length_data [of b] by (simp add: sc_buf_mark_read_def adv_def)

lemma adv_conn_buf:
  assumes "conn_buf b" "n \<le> length (sc_buf_data b)"
  shows "conn_buf (adv b n)"
proof (cases "b = zero_buf")
  case True
  then show ?thesis using assms(2) by simp
next
  case False
  then have "owned b" using assms(1) by (simp add: conn_buf_def)
  then have "owned (adv b n)" using assms(2) by (simp add: owned_def buf_simps)
  then show ?thesis by (simp add: conn_buf_def)
qed

lemma flush_sends:
  assumes ok: "conn_ok c" "cache_ok cache" and f: "conn_flush k e c cache = (rc, c', cache')"
    and v: "err (c_out c) = 0"
  shows "conn_ok c' \<and> cache_ok cache' \<and> sc_buf_data (c_in c') = sc_buf_data (c_in c) \<and>
    sc_buf_data (c_out c) = take k (sc_buf_data (c_out c)) @ sc_buf_data (c_out c')"
proof -
  let ?b = "c_out c" and ?n = "min k (length (sc_buf_data (c_out c)))"
  have b: "conn_buf ?b" "sc_buf_wf ?b" using ok(1) by (simp_all add: conn_ok_def conn_buf_wf)
  define c1 where "c1 = c\<lparr>c_out := adv ?b ?n\<rparr>"
  have c1: "conn_ok c1" "sc_buf_data (c_out c1) = drop k (sc_buf_data ?b)" "c_in c1 = c_in c"
    using ok(1) adv_conn_buf [OF b(1), of ?n] by (auto simp: c1_def conn_ok_def buf_simps min_def)
  have "sc_buf_size ?b = length (sc_buf_data ?b)" using b(2) by (rule sc_buf_size_data)
  moreover have "sc_buf_mark_read ?b ?n = adv ?b ?n" using mark_read_adv [OF b(2), of ?n] by simp
  ultimately have f': "(rc, c', cache') = (if length (sc_buf_data ?b) \<le> k then (RS_OK, conn_clear_buf c1 cache)
      else case e of Send_again ok \<Rightarrow>
          (let (rc, c) = conn_register ok c1 False True
           in if rc \<noteq> RS_OK then (rc, c, cache) else (RS_OK, conn_clear_buf c cache))
        | Send_failed \<Rightarrow> (RS_ERROR, c1, cache))"
    using f v unfolding c1_def conn_flush_def Let_def sc_buf_valid_def
    by (cases "length (sc_buf_data ?b) \<le> k"; cases e) (simp_all add: min_absorb1 min_absorb2)
  have r: "conn_ok (snd (conn_register ok c1 False True))" for ok
    using c1(1) by (simp add: conn_ok_def)
  show ?thesis
  proof (cases "length (sc_buf_data ?b) \<le> k \<or> e = Send_failed")
    case True
    then have "conn_clear_buf c1 cache = (c', cache') \<or> c' = c1 \<and> cache' = cache"
      using f' by (auto split: if_splits)
    then show ?thesis using clear_buf_keeps [OF c1(1) ok(2)] c1 ok(2) by auto
  next
    case False
    then obtain ok' where e: "e = Send_again ok'" by (cases e) auto
    obtain rc2 c2 where g: "conn_register ok' c1 False True = (rc2, c2)" by (cases "conn_register ok' c1 False True")
    have c2: "conn_ok c2" "c_out c2 = c_out c1" "c_in c2 = c_in c1"
      using r [of ok'] register_frame(1,2) [of ok' c1 False True] by (simp_all add: g)
    have "conn_clear_buf c2 cache = (c', cache') \<or> c' = c2 \<and> cache' = cache"
      using f' False e g by (auto split: if_splits)
    then show ?thesis using clear_buf_keeps [OF c2(1) ok(2)] c1(2,3) c2 ok(2) by auto
  qed
qed

text \<open>Making room returns, and the input buffer then has some.\<close>

lemma read_room_returns:
  assumes o: "owned b" "err b = 0" and l: "rpos b = 0" "wpos b < 2 ^ 29" "cap b < 2 ^ 31"
  shows "\<exists>b'. read_room b = Some (True, b') \<and> owned b' \<and> err b' = 0 \<and> sc_buf_data b' = sc_buf_data b \<and>
    wpos b' = wpos b \<and> rpos b' = 0 \<and> cap b' < 2 ^ 31 \<and> 0 < sc_buf_quota b'"
proof (cases "sc_buf_quota b = 0")
  case False
  then show ?thesis using assms by (subst read_room.simps) simp
next
  case True
  have w: "sc_buf_wf b" "cap b \<noteq> 0" "\<not> ref b" "limit b = SC_BUF_MAX" using o by (simp_all add: owned_def)
  then have c: "wpos b = cap b" using True sc_buf_wfD [OF w(1)] by (simp add: sc_buf_quota_def)
  have n: "2 * cap b mod 2 ^ 32 = 2 * cap b" using l(2) c by simp
  have t: "tame b 1 (2 * cap b)" "room b 1 (2 * cap b)"
    using w l(2) c o(2) by (simp_all add: tame_def room_def SC_BUF_MAX_def)
  have r: "sc_buf_reserve b (2 * cap b) = (True, b\<lparr>mem := take (round_4096 (3 * cap b)) (mem b) @
         replicate (round_4096 (3 * cap b) - length (mem b)) 0, cap := round_4096 (3 * cap b)\<rparr>)"
    using t(1)
  proof (cases rule: sc_buf_reserve_cases)
    case fits
    then show ?thesis using c w(2) by simp
  next
    case grow
    then show ?thesis by simp
  next
    case full
    then show ?thesis using t(2) by simp
  qed
  have b3: "3 * cap b \<le> round_4096 (3 * cap b)" "round_4096 (3 * cap b) \<le> 3 * cap b + 4095"
    using round_4096_bounds [of "3 * cap b"] l(2) c by simp_all
  let ?b = "b\<lparr>mem := take (round_4096 (3 * cap b)) (mem b) @
         replicate (round_4096 (3 * cap b) - length (mem b)) 0, cap := round_4096 (3 * cap b)\<rparr>"
  have q: "sc_buf_quota ?b = round_4096 (3 * cap b) - cap b" "0 < round_4096 (3 * cap b) - cap b"
    using b3 c l(2) w(2) by (simp_all add: sc_buf_quota_def)
  have "read_room b = Some (True, ?b)"
    using True r n q by (subst read_room.simps) (simp add: read_room.simps [of ?b])
  moreover have "owned ?b"
    using w b3 c l(2) sc_buf_wfD [OF w(1)] by (simp add: owned_def sc_buf_wf_def)
  moreover have "sc_buf_data ?b = sc_buf_data b"
    using b3 c sc_buf_wfD [OF w(1)] by (simp add: sc_buf_data_def sc_buf_contents_def min_def)
  ultimately show ?thesis using o(2) l b3 c q by simp
qed

definition in_ready :: "conn \<Rightarrow> sc_buf list \<Rightarrow> bool" where
  "in_ready c cache \<longleftrightarrow> conn_ok c \<and> cache_ok cache \<and> err (c_in c) = 0 \<and> cap (c_in c) < 2 ^ 31 \<and>
     (\<forall>b \<in> set cache. cap b < 2 ^ 31)"

lemma in_ready_alloc:
  assumes r: "in_ready c cache"
  defines "p \<equiv> (if cap (c_in c) = 0
            then let (b, cache) = server_buf_alloc cache in (c\<lparr>c_in := b\<rparr>, cache) else (c, cache))"
  shows "in_ready (fst p) (snd p)" "owned (c_in (fst p))" "sc_buf_data (c_in (fst p)) = sc_buf_data (c_in c)"
    "c_out (fst p) = c_out c"
proof -
  obtain b cache' where a: "server_buf_alloc cache = (b, cache')" by (cases "server_buf_alloc cache")
  have r': "conn_ok c" "cache_ok cache" "err (c_in c) = 0" "cap (c_in c) < 2 ^ 31" "\<forall>b \<in> set cache. cap b < 2 ^ 31"
    using r by (simp_all add: in_ready_def)
  note f = alloc_fresh [OF r'(2) a]
  have f': "owned b" "err b = 0" "sc_buf_data b = []" using f(1) by (simp_all add: fresh_buf_def)
  have c: "cap b < 2 ^ 31" "\<forall>b \<in> set cache'. cap b < 2 ^ 31"
    using a r'(5) by (auto simp: server_buf_alloc_def sc_buf_init_def sc_buf_wrap_def split: list.splits)
  have z: "sc_buf_data (c_in c) = []" if "cap (c_in c) = 0"
    using that r'(1) by (auto simp: conn_ok_def conn_buf_def owned_def)
  show "in_ready (fst p) (snd p)"
    using r r'(1) f(2) f' c unfolding p_def by (simp add: a in_ready_def conn_ok_def conn_buf_def)
  show "owned (c_in (fst p))" "sc_buf_data (c_in (fst p)) = sc_buf_data (c_in c)" "c_out (fst p) = c_out c"
    using r'(1) f' z conn_buf_owned unfolding p_def by (simp_all add: a conn_ok_def)
qed

lemma write_in_data:
  assumes "owned b" "err b = 0" "rpos b = 0" "length d \<le> sc_buf_quota b"
  defines "b' \<equiv> sc_buf_mark_write (b\<lparr>mem := write_at (mem b) (wpos b) d\<rparr>) (length d)"
  shows "owned b' \<and> err b' = 0 \<and> cap b' = cap b \<and> sc_buf_data b' = sc_buf_data b @ d"
proof -
  have w: "sc_buf_wf b" using assms(1) by (simp add: owned_def)
  note d = sc_buf_wfD [OF w]
  have q: "wpos b + length d \<le> cap b" using assms(4) d by (simp add: sc_buf_quota_def)
  then have b': "b' = b\<lparr>mem := write_at (mem b) (wpos b) d, wpos := wpos b + length d\<rparr>"
    using d by (simp add: b'_def sc_buf_mark_write_def)
  have "sc_buf_wf b'" using d q by (simp add: b' sc_buf_wf_def write_at_def)
  moreover have "sc_buf_data b' = sc_buf_data b @ d"
    using d q assms(3) by (cases d) (simp_all add: b' sc_buf_data_def sc_buf_contents_def write_at_def min_def)
  ultimately show ?thesis using assms(1,2) by (simp add: owned_def b')
qed

lemma readable_appends:
  assumes r: "in_ready c cache" and l: "length (sc_buf_data (c_in c)) < 2 ^ 29" and d: "d \<noteq> []"
  shows "\<exists>c' cache' k. conn_on_readable (Received d) c cache = Some (RS_OK, c', cache') \<and> in_ready c' cache' \<and>
    0 < k \<and> c_out c' = c_out c \<and> sc_buf_data (c_in c') = sc_buf_data (c_in c) @ take k d"
proof -
  define p where "p = (if cap (c_in c) = 0
            then let (b, cache) = server_buf_alloc cache in (c\<lparr>c_in := b\<rparr>, cache) else (c, cache))"
  obtain c1 cache1 where p: "p = (c1, cache1)" by (cases p)
  have c1: "in_ready c1 cache1" "owned (c_in c1)" "sc_buf_data (c_in c1) = sc_buf_data (c_in c)" "c_out c1 = c_out c"
    using in_ready_alloc [OF r, folded p_def] by (simp_all add: p)
  have w: "sc_buf_wf (c_in c1)" using c1(2) by (simp add: owned_def)
  note k = compact_data [OF w]
  have o: "owned (sc_buf_compact (c_in c1))" using c1(2) k by (simp add: owned_def)
  have i: "err (c_in c1) = 0" "cap (c_in c1) < 2 ^ 31" using c1(1) by (simp_all add: in_ready_def)
  obtain b where b: "read_room (sc_buf_compact (c_in c1)) = Some (True, b)" "owned b" "err b = 0"
      "sc_buf_data b = sc_buf_data (c_in c)" "rpos b = 0" "cap b < 2 ^ 31" "0 < sc_buf_quota b"
    using read_room_returns [OF o] k i l c1(3) by auto
  let ?d = "take (sc_buf_quota b) d"
  let ?b = "sc_buf_mark_write (b\<lparr>mem := write_at (mem b) (wpos b) ?d\<rparr>) (length ?d)"
  have e: "conn_on_readable (Received d) c cache = Some (RS_OK, c1\<lparr>c_in := ?b\<rparr>, cache1)"
    using p [unfolded p_def] b(1) unfolding conn_on_readable_def Let_def
    by (simp split del: if_split)
  have w': "owned ?b \<and> err ?b = 0 \<and> cap ?b = cap b \<and> sc_buf_data ?b = sc_buf_data b @ ?d"
    using b by (intro write_in_data) simp_all
  then have "in_ready (c1\<lparr>c_in := ?b\<rparr>) cache1"
    using c1(1) b(6) by (simp add: in_ready_def conn_ok_def conn_buf_def)
  then show ?thesis using e w' b(4,7) c1(4) by (intro exI [of _ "sc_buf_quota b"] exI) auto
qed

section \<open>Receiving a stream of messages\<close>

text \<open>
  The bytes \<open>st\<close> are on their way. At each of the events \<open>ns\<close> the socket has some of them, up to the
  number given; the handler reads what fits and parses every complete message. The result is the
  messages, the connection, and the bytes that were not read yet.
\<close>

fun recv_run :: "conn \<Rightarrow> sc_buf list \<Rightarrow> nat list \<Rightarrow> bytes \<Rightarrow> (msg list \<times> conn \<times> sc_buf list \<times> bytes) option" where
  "recv_run c cache [] st = Some ([], c, cache, st)"
| "recv_run c cache (n # ns) st =
     (if st = [] then recv_run c cache ns st
      else Option.bind (conn_on_readable (Received (take n st)) c cache) (\<lambda>(rc, c1, cache).
        if rc \<noteq> RS_OK then None
        else let got = length (sc_buf_data (c_in c1)) - length (sc_buf_data (c_in c))
          in Option.bind (msg_drain (c_in c1)) (\<lambda>(ms, rc, b).
               if rc = RS_INVALID then None
               else map_option (\<lambda>(ms', r). (ms @ ms', r)) (recv_run (c1\<lparr>c_in := b\<rparr>) cache ns (drop got st)))))"

text \<open>A prefix of a concatenation ends within one of its parts.\<close>

lemma prefix_of_concat:
  assumes "P @ Q = concat (map f rs)"
  shows "\<exists>j T. j \<le> length rs \<and> P = concat (map f (take j rs)) @ T \<and>
    (T = [] \<or> j < length rs \<and> length T < length (f (rs ! j)) \<and> T = take (length T) (f (rs ! j)))"
  using assms
proof (induction rs arbitrary: P)
  case (Cons m rs)
  show ?case
  proof (cases "length P < length (f m)")
    case True
    then have "P = take (length P) (f m)"
      using arg_cong [OF Cons.prems, of "take (length P)"] by simp
    then show ?thesis using True by (intro exI [of _ 0] exI [of _ P]) simp
  next
    case False
    define P' where "P' = drop (length (f m)) P"
    have "take (length (f m)) P = f m"
      using False arg_cong [OF Cons.prems, of "take (length (f m))"] by simp
    then have P: "P = f m @ P'" unfolding P'_def by (metis append_take_drop_id)
    then have "P' @ Q = concat (map f rs)" using Cons.prems by simp
    then obtain j T where "j \<le> length rs" "P' = concat (map f (take j rs)) @ T"
        "T = [] \<or> j < length rs \<and> length T < length (f (rs ! j)) \<and> T = take (length T) (f (rs ! j))"
      using Cons.IH by blast
    then show ?thesis using P by (intro exI [of _ "Suc j"] exI [of _ T]) simp
  qed
qed simp

text \<open>The bytes are not yet a message: there are none, or the first message is longer.\<close>

definition partial :: "bytes \<Rightarrow> msg list \<Rightarrow> bool" where
  "partial d rs \<longleftrightarrow> d = [] \<or> rs \<noteq> [] \<and> length d < length (msg_bytes (hd rs))"

lemma partial_all:
  assumes "partial d rs" "d = concat (map msg_bytes rs)"
  shows "rs = []"
proof (cases rs)
  case (Cons m rs')
  have "0 < length (msg_bytes m)" by (simp add: length_msg_bytes msg_size_def MSG_FIXED_LEN_def MSG_SIZE_LEN_def MSG_TYPE_LEN_def)
  then show ?thesis using assms Cons by (auto simp: partial_def)
qed

lemma drain_prefix:
  assumes w: "sc_buf_wf b" and ok: "\<forall>m \<in> set rs. msg_ok m"
    and d: "sc_buf_data b @ Q = concat (map msg_bytes rs)"
  shows "\<exists>j n. j \<le> length rs \<and> msg_drain b = Some (take j rs, RS_PARTIAL, adv b n) \<and>
    n \<le> length (sc_buf_data b) \<and> sc_buf_data (adv b n) @ Q = concat (map msg_bytes (drop j rs)) \<and>
    partial (sc_buf_data (adv b n)) (drop j rs)"
proof -
  obtain j T where j: "j \<le> length rs" "sc_buf_data b = concat (map msg_bytes (take j rs)) @ T"
      "T = [] \<or> j < length rs \<and> length T < length (msg_bytes (rs ! j)) \<and> T = take (length T) (msg_bytes (rs ! j))"
    using prefix_of_concat [OF d] by blast
  obtain m where m: "msg_ok m" "length T < msg_size m" "T = take (length T) (msg_bytes m)"
  proof (cases "T = []")
    case True
    have "msg_ok (Shutdown_req True)" "0 < msg_size (Shutdown_req True)"
      by (simp_all add: msg_ok_def msg_size_def MSG_MAX_SIZE_def enc_bool_def)
    then show thesis using that [of "Shutdown_req True"] True by simp
  next
    case False
    then have "j < length rs" using j(3) by simp
    then have "msg_ok (rs ! j)" using ok by simp
    then show thesis using that [of "rs ! j"] False j(3) by (auto simp: length_msg_bytes)
  qed
  let ?n = "length (concat (map msg_bytes (take j rs)))"
  have "\<forall>m \<in> set (take j rs). msg_ok m" using ok by (auto dest: in_set_takeD)
  moreover have "sc_buf_data b = concat (map msg_bytes (take j rs)) @ take (length T) (msg_bytes m)"
    using j(2) m(3) by simp
  ultimately have "msg_drain b = Some (take j rs, RS_PARTIAL, adv b ?n)"
    using msg_drain_stream [OF w _ m(1,2)] by simp
  moreover have "sc_buf_data (adv b ?n) = T" using j(2) by (simp add: buf_simps)
  moreover have "T @ Q = concat (map msg_bytes (drop j rs))"
  proof -
    have "concat (map msg_bytes rs) = concat (map msg_bytes (take j rs)) @ concat (map msg_bytes (drop j rs))"
      by (metis append_take_drop_id concat_append map_append)
    then show ?thesis using d j(2) by simp
  qed
  moreover have "partial T (drop j rs)" using j(3) by (auto simp: partial_def hd_drop_conv_nth)
  ultimately show ?thesis using j by (intro exI [of _ j] exI [of _ ?n]) simp
qed

lemma recv_run_delivers:
  assumes "in_ready c cache" "\<forall>m \<in> set rs. msg_ok m" "\<forall>n \<in> set ns. 0 < n"
    and "sc_buf_data (c_in c) @ st = concat (map msg_bytes rs)" "length (concat (map msg_bytes rs)) < 2 ^ 29"
    and "partial (sc_buf_data (c_in c)) rs"
  shows "\<exists>j c' cache' st'. recv_run c cache ns st = Some (take j rs, c', cache', st') \<and> j \<le> length rs \<and>
    in_ready c' cache' \<and> sc_buf_data (c_in c') @ st' = concat (map msg_bytes (drop j rs)) \<and>
    length st' \<le> length st - length ns \<and> partial (sc_buf_data (c_in c')) (drop j rs)"
  using assms
proof (induction ns arbitrary: c cache rs st)
  case Nil
  then show ?case by (intro exI [of _ 0] exI [of _ c] exI [of _ cache] exI [of _ st]) simp
next
  case (Cons n ns)
  show ?case
  proof (cases "st = []")
    case True
    have "\<forall>n \<in> set ns. 0 < n" using Cons.prems(3) by simp
    from Cons.IH [OF Cons.prems(1,2) this Cons.prems(4,5,6)] show ?thesis using True by simp
  next
    case False
    let ?d = "take n st"
    have n: "?d \<noteq> []" "\<forall>n \<in> set ns. 0 < n" using False Cons.prems(3) by simp_all
    have l: "length (sc_buf_data (c_in c)) < 2 ^ 29"
      using Cons.prems(5) arg_cong [OF Cons.prems(4), of length] by simp
    obtain c1 cache1 k where r: "conn_on_readable (Received ?d) c cache = Some (RS_OK, c1, cache1)"
        "in_ready c1 cache1" "0 < k" "sc_buf_data (c_in c1) = sc_buf_data (c_in c) @ take k ?d"
      using readable_appends [OF Cons.prems(1) l n(1)] by blast
    define got where "got = length (take k ?d)"
    have g: "take k ?d = take got st" "0 < got" "got \<le> length st"
      using r(3) n(1) False by (auto simp: got_def min_def)
    have w: "sc_buf_wf (c_in c1)" using r(2) by (simp add: in_ready_def conn_ok_def conn_buf_wf)
    have "sc_buf_data (c_in c1) @ drop got st = concat (map msg_bytes rs)"
      using r(4) g(1) Cons.prems(4) by simp
    from drain_prefix [OF w Cons.prems(2) this] obtain j b where
      d: "j \<le> length rs" "msg_drain (c_in c1) = Some (take j rs, RS_PARTIAL, adv (c_in c1) b)"
        "b \<le> length (sc_buf_data (c_in c1))"
        "sc_buf_data (adv (c_in c1) b) @ drop got st = concat (map msg_bytes (drop j rs))"
        "partial (sc_buf_data (adv (c_in c1) b)) (drop j rs)"
      by blast
    let ?c = "c1\<lparr>c_in := adv (c_in c1) b\<rparr>"
    have "conn_ok ?c" using r(2) adv_conn_buf [OF _ d(3)] by (simp add: in_ready_def conn_ok_def)
    then have i: "in_ready ?c cache1" using r(2) by (simp add: in_ready_def buf_simps)
    have p: "partial (sc_buf_data (c_in ?c)) (drop j rs)" using d(5) by simp
    have ok: "\<forall>m \<in> set (drop j rs). msg_ok m" using Cons.prems(2) by (auto dest: in_set_dropD)
    have e: "sc_buf_data (c_in ?c) @ drop got st = concat (map msg_bytes (drop j rs))" using d(4) by simp
    have "concat (map msg_bytes rs) = concat (map msg_bytes (take j rs)) @ concat (map msg_bytes (drop j rs))"
      by (metis append_take_drop_id concat_append map_append)
    then have l': "length (concat (map msg_bytes (drop j rs))) < 2 ^ 29" using Cons.prems(5) by simp
    obtain j' c' cache' st' where t: "recv_run ?c cache1 ns (drop got st) = Some (take j' (drop j rs), c', cache', st')"
        "j' \<le> length (drop j rs)" "in_ready c' cache'"
        "sc_buf_data (c_in c') @ st' = concat (map msg_bytes (drop j' (drop j rs)))"
        "length st' \<le> length (drop got st) - length ns" "partial (sc_buf_data (c_in c')) (drop j' (drop j rs))"
      using Cons.IH [OF i ok n(2) e l' p] by blast
    have "length (sc_buf_data (c_in c1)) - length (sc_buf_data (c_in c)) = got"
      using r(4) by (simp add: got_def)
    then have "recv_run c cache (n # ns) st = Some (take j rs @ take j' (drop j rs), c', cache', st')"
      using False r(1) d(2) t(1) by simp
    moreover have "take j rs @ take j' (drop j rs) = take (j + j') rs" by (simp add: take_add)
    ultimately show ?thesis
      using t d(1) g(2,3) by (intro exI [of _ "j + j'"] exI) (auto simp: add.commute)
  qed
qed

section \<open>Properties\<close>







end
