(* ===== verification/Node.thy ===== *)
theory Node
  imports Conn
begin

text \<open>
  The other nodes of the cluster, \<^verbatim>\<open>src/node.c\<close>, and the clients, \<^verbatim>\<open>src/client.c\<close>, as the server
  sees them: their connection and how far they are. Timers, which only decide when a node is tried
  again, and the status text are not part of the model.
\<close>

section \<open>Nodes\<close>

record node =
  nd_name :: "cstring option"
  nd_conn :: conn
  nd_uris :: "sc_uri option list"
  nd_interval :: u64
  nd_next :: nat
  nd_match :: nat
  nd_round :: u64
  nd_ss_pos :: nat
  nd_ss_index :: nat
  nd_inflight :: nat
  nd_in_ts :: u64
  nd_out_ts :: u64
  nd_info :: sc_buf

definition node_create :: "cstring option \<Rightarrow> node" where
  "node_create nm =
     \<lparr>nd_name = sc_str_create nm, nd_conn = conn_init, nd_uris = [], nd_interval = 32, nd_next = 1,
      nd_match = 0, nd_round = 0, nd_ss_pos = 0, nd_ss_index = 0, nd_inflight = 0, nd_in_ts = 0,
      nd_out_ts = 0, nd_info = sc_buf_init 1024\<rparr>"

definition node_update_indexes :: "node \<Rightarrow> u64 \<Rightarrow> nat \<Rightarrow> node" where
  "node_update_indexes n round mat = n\<lparr>nd_round := round, nd_match := mat\<rparr>"

definition node_clear_indexes :: "node \<Rightarrow> nat \<Rightarrow> node" where
  "node_clear_indexes n mat =
     n\<lparr>nd_next := add64 mat 1, nd_match := mat, nd_round := 0, nd_ss_index := 0, nd_ss_pos := 0,
       nd_inflight := 0, nd_out_ts := 0, nd_in_ts := 0\<rparr>"

text \<open>The node leaves the list it is in, which its owner keeps.\<close>

definition node_disconnect :: "bool \<Rightarrow> node \<Rightarrow> sc_buf list \<Rightarrow> node \<times> sc_buf list" where
  "node_disconnect ok n cache =
     (let (c, cache) = conn_term ok (nd_conn n) cache
      in (node_clear_indexes (n\<lparr>nd_conn := c\<rparr>) (nd_match n), cache))"

definition node_add_uris :: "node \<Rightarrow> sc_uri option list \<Rightarrow> node" where
  "node_add_uris n uris =
     n\<lparr>nd_uris := nd_uris n @ map (\<lambda>uri. sc_uri_create (Some (u_str (the uri)))) uris\<rparr>"

text \<open>The third component is the delay until the next attempt.\<close>

definition node_try_connect ::
    "bool \<Rightarrow> bool \<Rightarrow> bool \<Rightarrow> connect_rc \<Rightarrow> node \<Rightarrow> u32 \<Rightarrow> rs_rc \<times> node \<times> u64" where
  "node_try_connect ok0 ok1 ok2 ans n randtimer =
     (let n = (if c_state (nd_conn n) \<noteq> CONN_CONNECTED
               then n\<lparr>nd_interval := min (32 * 1024) (nd_interval n * 2)\<rparr> else n);
          timeout = ucast (randtimer mod 512) + nd_interval n + 32
      in if c_state (nd_conn n) = CONN_CONNECTED then (RS_EXISTS, n\<lparr>nd_interval := 64\<rparr>, timeout)
         else let n = n\<lparr>nd_uris := tl (nd_uris n) @ [hd (nd_uris n)]\<rparr>;
                (rc, c) = conn_try_connect ok0 ok1 ok2 ans (nd_conn n)
              in (rc, n\<lparr>nd_conn := c\<rparr>, timeout))"

definition node_set_conn ::
    "bool \<Rightarrow> bool \<Rightarrow> bool \<Rightarrow> node \<Rightarrow> conn \<Rightarrow> sc_buf list \<Rightarrow> rs_rc \<times> node \<times> sc_buf list" where
  "node_set_conn ok0 ok1 ok2 n src cache =
     (let cache = snd (conn_term ok0 (nd_conn n) cache);
          (rc, c) = conn_set ok1 ok2 src;
          n = n\<lparr>nd_conn := c\<rparr>
      in if rc \<noteq> RS_OK then (rc, n, cache)
         else (RS_OK, node_clear_indexes (n\<lparr>nd_conn := c\<lparr>c_type := SERVER_FD_NODE_RECV\<rparr>\<rparr>) (nd_match n), cache))"

definition node_connected :: "node \<Rightarrow> bool" where
  "node_connected n \<longleftrightarrow> c_state (nd_conn n) = CONN_CONNECTED"

section \<open>Clients\<close>

text \<open>Of the current message the server uses the request: its sequence number and its bytes.\<close>

record client =
  cl_msg_wait :: bool
  cl_terminated :: bool
  cl_name :: "cstring option"
  cl_id :: u64
  cl_seq :: u64
  cl_commit_index :: nat
  cl_round_index :: u64
  cl_conn :: conn
  cl_msg :: "msg option"

definition client_create :: "bool \<Rightarrow> bool \<Rightarrow> conn \<Rightarrow> cstring option \<Rightarrow> sc_buf list \<Rightarrow> client option \<times> sc_buf list" where
  "client_create ok1 ok2 src nm cache =
     (let (rc, c) = conn_set ok1 ok2 src
      in if rc \<noteq> RS_OK then (None, cache)
         else let (c, cache) = conn_clear_buf (c\<lparr>c_type := SERVER_FD_CLIENT_RECV\<rparr>) cache
           in (Some \<lparr>cl_msg_wait = True, cl_terminated = False, cl_name = sc_str_create nm, cl_id = 0, cl_seq = 0,
                 cl_commit_index = 0, cl_round_index = 0, cl_conn = c, cl_msg = None\<rparr>, cache))"

text \<open>A processed or terminated client also leaves the server's list of read requests.\<close>

definition client_processed :: "bool \<Rightarrow> client \<Rightarrow> sc_buf list \<Rightarrow> rs_rc \<times> client \<times> sc_buf list" where
  "client_processed ok c cache =
     (let (co, cache) = conn_clear_buf (cl_conn c) cache;
          (rc, co) = conn_register ok co True False
      in (rc, c\<lparr>cl_msg_wait := False, cl_conn := co\<rparr>, cache))"

definition client_pending :: "client \<Rightarrow> bool" where
  "client_pending c \<longleftrightarrow> cl_msg_wait c \<or> sc_buf_size (c_out (cl_conn c)) \<noteq> 0"

definition client_set_terminated :: "client \<Rightarrow> sc_buf list \<Rightarrow> client \<times> sc_buf list" where
  "client_set_terminated c cache =
     (let (co, cache) = conn_clear_buf (cl_conn c) cache in (c\<lparr>cl_terminated := True, cl_conn := co\<rparr>, cache))"

end
