(* ===== verification/Snapshot.thy ===== *)
theory Snapshot
  imports Resql_Prelude
begin

text \<open>
  The snapshot a server holds and the one it receives, \<^verbatim>\<open>src/snapshot.c\<close>. The file at
  \<^verbatim>\<open>ss->path\<close> and the file being received are byte lists; the results of file operations are
  arguments. Compacting runs on another thread, on the state machine; here it is the answer of
  \<^verbatim>\<open>snapshot_wait\<close>.
\<close>

section \<open>Definitions\<close>

record snapshot =
  ss_index :: nat
  ss_term :: u64
  ss_latest_index :: nat
  ss_latest_term :: u64
  ss_recv_index :: nat
  ss_recv_term :: u64
  ss_tmp :: "bytes option"
  ss_file :: bytes
  ss_map :: bytes
  ss_open :: bool

definition snapshot_open :: "bool \<Rightarrow> snapshot \<Rightarrow> u64 \<Rightarrow> nat \<Rightarrow> rs_rc \<times> snapshot" where
  "snapshot_open ok ss term index =
     (if \<not> ok then (RS_ERROR, ss)
      else (RS_OK, ss\<lparr>ss_map := ss_file ss, ss_term := term, ss_index := index, ss_open := True\<rparr>))"

definition snapshot_close :: "bool \<Rightarrow> rs_rc" where
  "snapshot_close ok = (if \<not> ok then RS_ERROR else RS_OK)"

definition snapshot_replace :: "bool \<Rightarrow> bool \<Rightarrow> snapshot \<Rightarrow> rs_rc \<times> snapshot" where
  "snapshot_replace ok1 ok2 ss =
     (if snapshot_close ok1 \<noteq> RS_OK then (snapshot_close ok1, ss)
      else snapshot_open ok2 ss (ss_latest_term ss) (ss_latest_index ss))"

definition snapshot_clear :: "snapshot \<Rightarrow> snapshot" where
  "snapshot_clear ss =
     (if ss_tmp ss \<noteq> None then ss\<lparr>ss_tmp := None, ss_recv_index := 0, ss_recv_term := 0\<rparr> else ss)"

text \<open>Writing at an offset of a file; a gap before the offset reads as zeros.\<close>

definition file_write_at :: "bytes \<Rightarrow> nat \<Rightarrow> bytes \<Rightarrow> bytes" where
  "file_write_at f off d = take off f @ replicate (off - length f) 0 @ d @ drop (off + length d) f"

text \<open>
  \<open>o\<close>, \<open>w\<close>, \<open>f\<close> and \<open>r\<close> are the results of opening, writing, flushing and renaming. A file that was
  allocated stays allocated when opening it fails.
\<close>

definition snapshot_recv ::
    "rs_rc \<Rightarrow> rs_rc \<Rightarrow> rs_rc \<Rightarrow> rs_rc \<Rightarrow> snapshot \<Rightarrow> u64 \<Rightarrow> nat \<Rightarrow> bool \<Rightarrow> nat \<Rightarrow> bytes \<Rightarrow> rs_rc \<times> snapshot" where
  "snapshot_recv o_rc w_rc f_rc r_rc ss term index done off data =
     (let ss = (if ss_recv_term ss \<noteq> term \<or> ss_recv_index ss \<noteq> index
                then (snapshot_clear ss)\<lparr>ss_recv_term := term, ss_recv_index := index\<rparr> else ss);
          rc = (if ss_tmp ss = None then o_rc else RS_OK);
          ss = (if ss_tmp ss = None then ss\<lparr>ss_tmp := Some []\<rparr> else ss)
      in if rc \<noteq> RS_OK then (rc, ss)
         else if w_rc \<noteq> RS_OK then (w_rc, ss)
         else let ss = ss\<lparr>ss_tmp := Some (file_write_at (the (ss_tmp ss)) off data)\<rparr>
           in if \<not> done then (RS_OK, ss)
              else if f_rc \<noteq> RS_OK then (f_rc, ss)
              else let content = the (ss_tmp ss); ss = ss\<lparr>ss_tmp := None\<rparr>
                in if r_rc \<noteq> RS_OK then (r_rc, ss)
                   else (RS_SNAPSHOT, ss\<lparr>ss_file := content, ss_term := 0, ss_index := 0\<rparr>))"

section \<open>Reassembling a snapshot\<close>

text \<open>Chunks that follow each other build the file they were cut from.\<close>

lemma file_write_at_end: "file_write_at f (length f) d = f @ d"
  by (simp add: file_write_at_def)

text \<open>The chunks of a file, each with its offset and whether it is the last one.\<close>

fun chunks :: "nat \<Rightarrow> nat \<Rightarrow> bytes \<Rightarrow> (nat \<times> bool \<times> bytes) list" where
  "chunks n off d =
     (if d = [] \<or> n = 0 then []
      else (off, length d \<le> n, take n d) # chunks n (off + n) (drop n d))"

declare chunks.simps [simp del]

text \<open>Receiving a list of chunks with every file operation succeeding.\<close>

fun recv_all :: "snapshot \<Rightarrow> u64 \<Rightarrow> nat \<Rightarrow> (nat \<times> bool \<times> bytes) list \<Rightarrow> rs_rc \<times> snapshot" where
  "recv_all ss term index [] = (RS_OK, ss)"
| "recv_all ss term index ((off, fin, d) # cs) =
     (case snapshot_recv RS_OK RS_OK RS_OK RS_OK ss term index fin off d of
        (rc, ss) \<Rightarrow> if rc = RS_OK then recv_all ss term index cs else (rc, ss))"

lemma recv_more:
  assumes "ss_tmp ss = Some g" "ss_recv_term ss = term" "ss_recv_index ss = index" "n > 0" "d \<noteq> []"
  shows "fst (recv_all ss term index (chunks n (length g) d)) = RS_SNAPSHOT \<and>
    ss_file (snd (recv_all ss term index (chunks n (length g) d))) = g @ d"
  using assms
proof (induction "length d" arbitrary: d g ss rule: less_induct)
  case less
  show ?case
  proof (cases "length d \<le> n")
    case True
    have "chunks n (length g + n) (drop n d) = []" using True by (subst chunks.simps) simp
    then have "chunks n (length g) d = [(length g, True, d)]" using less.prems True by (subst chunks.simps) simp
    then show ?thesis using less.prems by (simp add: snapshot_recv_def file_write_at_end)
  next
    case False
    let ?ss = "ss\<lparr>ss_tmp := Some (g @ take n d)\<rparr>"
    have c: "chunks n (length g) d = (length g, False, take n d) # chunks n (length (g @ take n d)) (drop n d)"
      using less.prems False by (subst chunks.simps) simp
    have "snapshot_recv RS_OK RS_OK RS_OK RS_OK ss term index False (length g) (take n d) = (RS_OK, ?ss)"
      using less.prems by (simp add: snapshot_recv_def file_write_at_end)
    moreover have "fst (recv_all ?ss term index (chunks n (length (g @ take n d)) (drop n d))) = RS_SNAPSHOT \<and>
        ss_file (snd (recv_all ?ss term index (chunks n (length (g @ take n d)) (drop n d)))) = (g @ take n d) @ drop n d"
      using less.prems False by (intro less.hyps) simp_all
    ultimately show ?thesis by (simp add: c)
  qed
qed

section \<open>Properties\<close>

text \<open>
  C12: A snapshot arrives whole. Cut into chunks of any size and received in order, with a transfer of
  another snapshot abandoned before or none begun, the chunks make up the file they were cut from: the
  last one, and no other, reports \<^verbatim>\<open>RS_SNAPSHOT\<close>, and then the file is in place of the old one.
\<close>

theorem snapshot_reassembles:
  assumes "ss_tmp ss = None \<or> ss_recv_term ss \<noteq> term \<or> ss_recv_index ss \<noteq> index" "0 < n" "d \<noteq> []"
  shows "fst (recv_all ss term index (chunks n 0 d)) = RS_SNAPSHOT \<and>
    ss_file (snd (recv_all ss term index (chunks n 0 d))) = d \<and>
    (\<forall>k < length (chunks n 0 d). fst (recv_all ss term index (take k (chunks n 0 d))) = RS_OK \<and>
       ss_file (snd (recv_all ss term index (take k (chunks n 0 d)))) = ss_file ss)"
proof -
  let ?ss = "ss\<lparr>ss_tmp := Some [], ss_recv_term := term, ss_recv_index := index\<rparr>"
  have s: "snapshot_recv RS_OK RS_OK RS_OK RS_OK ss term index fin off x =
      snapshot_recv RS_OK RS_OK RS_OK RS_OK ?ss term index fin off x" for fin off x
    using assms(1) by (auto simp: snapshot_recv_def snapshot_clear_def Let_def)
  have r: "recv_all ss term index cs = recv_all ?ss term index cs" if "cs \<noteq> []" for cs
    using that s by (cases cs) auto
  have c: "chunks n 0 d \<noteq> []" using assms(2,3) by (subst chunks.simps) simp
  have early: "fst (recv_all ss' term index (take k (chunks n (length g) x))) = RS_OK \<and>
      ss_file (snd (recv_all ss' term index (take k (chunks n (length g) x)))) = ss_file ss'"
    if "ss_tmp ss' = Some g" "ss_recv_term ss' = term" "ss_recv_index ss' = index"
      "k < length (chunks n (length g) x)" for k ss' g x
    using that
  proof (induction k arbitrary: ss' g x)
    case (Suc k)
    have ne: "x \<noteq> []" using Suc.prems(4) by (cases x) (simp_all add: chunks.simps)
    have l: "\<not> length x \<le> n"
    proof
      assume "length x \<le> n"
      then have "length (chunks n (length g) x) \<le> 1" by (simp add: chunks.simps)
      then show False using Suc.prems(4) by simp
    qed
    have ch: "chunks n (length g) x = (length g, False, take n x) # chunks n (length (g @ take n x)) (drop n x)"
      using ne l assms(2) by (subst chunks.simps) simp
    let ?s = "ss'\<lparr>ss_tmp := Some (g @ take n x)\<rparr>"
    have "snapshot_recv RS_OK RS_OK RS_OK RS_OK ss' term index False (length g) (take n x) = (RS_OK, ?s)"
      using Suc.prems by (simp add: snapshot_recv_def file_write_at_end)
    moreover have "fst (recv_all ?s term index (take k (chunks n (length (g @ take n x)) (drop n x)))) = RS_OK \<and>
      ss_file (snd (recv_all ?s term index (take k (chunks n (length (g @ take n x)) (drop n x))))) = ss_file ?s"
      using Suc.prems ch by (intro Suc.IH) simp_all
    ultimately show ?case by (simp add: ch)
  qed simp
  have "fst (recv_all ss term index (take k (chunks n 0 d))) = RS_OK \<and>
      ss_file (snd (recv_all ss term index (take k (chunks n 0 d)))) = ss_file ss"
    if "k < length (chunks n 0 d)" for k
  proof (cases "k = 0")
    case False
    then have "take k (chunks n 0 d) \<noteq> []" using c by simp
    then show ?thesis using r early [of ?ss "[]" k d] that by simp
  qed simp
  moreover have "fst (recv_all ?ss term index (chunks n 0 d)) = RS_SNAPSHOT \<and>
      ss_file (snd (recv_all ?ss term index (chunks n 0 d))) = d"
    using recv_more [of ?ss "[]" "term" index n d] assms(2,3) by simp
  ultimately show ?thesis using r [OF c] by simp
qed

theorem snapshot_reassembles_witness:
  "let ss = \<lparr>ss_index = 0, ss_term = 0, ss_latest_index = 0, ss_latest_term = 0, ss_recv_index = 4,
       ss_recv_term = 1, ss_tmp = Some [9, 9], ss_file = [], ss_map = [], ss_open = False\<rparr>
   in chunks 2 0 [1, 2, 3] = [(0, False, [1, 2]), (2, True, [3])] \<and>
      ss_file (snd (recv_all ss 2 7 (chunks 2 0 [1, 2, 3]))) = [1, 2, 3]"
  using snapshot_reassembles [of "\<lparr>ss_index = 0, ss_term = 0, ss_latest_index = 0, ss_latest_term = 0,
      ss_recv_index = 4, ss_recv_term = 1, ss_tmp = Some [9, 9], ss_file = [], ss_map = [], ss_open = False\<rparr>"
      2 7 2 "[1, 2, 3]"]
  by (simp add: chunks.simps)

end
