(* ===== verification/Sc_Core.thy ===== *)
theory Sc_Core
  imports Resql_Prelude "HOL-Library.Multiset"
begin

text \<open>
  Helpers of \<^verbatim>\<open>lib/sc/sc.c\<close>: the random number generator, powers of two. The conversions between
  sizes and their text are not modelled.
\<close>

unbundle bit_operations_syntax

section \<open>Definitions\<close>

text \<open>The generator: two positions and an array of 256 bytes, of which a seed is the first value.\<close>

record sc_rand =
  r_i :: u8
  r_j :: u8
  r_init :: bytes

definition rand_swap :: "bytes \<Rightarrow> nat \<Rightarrow> nat \<Rightarrow> bytes" where
  "rand_swap xs a b = xs[a := xs ! b, b := xs ! a]"

primrec rand_mix :: "bytes \<Rightarrow> nat \<Rightarrow> sc_rand \<Rightarrow> sc_rand" where
  "rand_mix seed 0 r = r"
| "rand_mix seed (Suc n) r =
     (let r = rand_mix seed n r;
          j = r_j r + (r_init r ! n + seed ! n)
      in r\<lparr>r_j := j, r_init := rand_swap (r_init r) n (unat j)\<rparr>)"

definition sc_rand_init :: "bytes \<Rightarrow> sc_rand" where
  "sc_rand_init seed = rand_mix seed 256 \<lparr>r_i = 0, r_j = 0, r_init = take 256 seed\<rparr>"

definition rand_next :: "sc_rand \<Rightarrow> u8 \<times> sc_rand" where
  "rand_next r =
     (let i = r_i r + 1;
          t = r_init r ! unat i;
          j = r_j r + t;
          s = (r_init r)[unat i := r_init r ! unat j];
          s = s[unat j := t];
          t = t + s ! unat i
      in (s ! unat t, \<lparr>r_i = i, r_j = j, r_init = s\<rparr>))"

primrec rand_bytes :: "sc_rand \<Rightarrow> nat \<Rightarrow> bytes \<times> sc_rand" where
  "rand_bytes r 0 = ([], r)"
| "rand_bytes r (Suc n) = (let (b, r) = rand_next r; (bs, r) = rand_bytes r n in (b # bs, r))"

definition sc_rand_read :: "sc_rand \<Rightarrow> int \<Rightarrow> bytes \<times> sc_rand" where
  "sc_rand_read r sz = (if sz \<le> 0 then ([], r) else rand_bytes r (nat sz))"

definition sc_is_pow2 :: "u64 \<Rightarrow> bool" where
  "sc_is_pow2 num \<longleftrightarrow> num \<noteq> 0 \<and> num AND (num - 1) = 0"

definition sc_to_pow2 :: "u64 \<Rightarrow> u64" where
  "sc_to_pow2 sz =
     (if sz = 0 then 1
      else let s = sz - 1;
               s = s OR drop_bit 1 s;
               s = s OR drop_bit 2 s;
               s = s OR drop_bit 4 s;
               s = s OR drop_bit 8 s;
               s = s OR drop_bit 16 s;
               s = s OR drop_bit 32 s
           in s + 1)"

section \<open>The next power of two\<close>

lemma smear_step:
  fixes s x :: "'a :: len word"
  assumes "\<And>k. bit s k \<longleftrightarrow> (\<exists>i < n. bit x (k + i))"
  shows "bit (s OR drop_bit n s) k \<longleftrightarrow> (\<exists>i < 2 * n. bit x (k + i))"
proof -
  have "(\<exists>i < 2 * n. bit x (k + i)) \<longleftrightarrow> (\<exists>i < n. bit x (k + i)) \<or> (\<exists>i < n. bit x (n + k + i))"
    (is "?l \<longleftrightarrow> ?a \<or> ?b")
  proof
    assume ?l
    then obtain i where i: "i < 2 * n" "bit x (k + i)" by blast
    show "?a \<or> ?b"
    proof (cases "i < n")
      case False
      then have "i - n < n" "n + k + (i - n) = k + i" using i(1) by simp_all
      then show ?thesis using i(2) by metis
    qed (use i in blast)
  next
    assume "?a \<or> ?b"
    then show ?l
    proof
      assume ?b
      then obtain i where "i < n" "bit x (n + k + i)" by blast
      then show ?l by (intro exI [of _ "n + i"]) (simp add: ac_simps)
    next
      assume ?a
      then obtain i where "i < n" "bit x (k + i)" by blast
      then show ?l by (intro exI [of _ i]) simp
    qed
  qed
  then show ?thesis by (simp add: bit_or_iff bit_drop_bit_eq assms add.commute)
qed

definition smear :: "u64 \<Rightarrow> u64" where
  "smear s =
     (let s = s OR drop_bit 1 s; s = s OR drop_bit 2 s; s = s OR drop_bit 4 s;
          s = s OR drop_bit 8 s; s = s OR drop_bit 16 s
      in s OR drop_bit 32 s)"

lemma bit_smear: "bit (smear s) k \<longleftrightarrow> (\<exists>j \<ge> k. bit s j)"
proof -
  have 0: "bit s k \<longleftrightarrow> (\<exists>i < 1. bit s (k + i))" for k by simp
  have "bit (smear s) k \<longleftrightarrow> (\<exists>i < 64. bit s (k + i))"
    unfolding smear_def Let_def
    using smear_step [OF smear_step [OF smear_step [OF smear_step [OF smear_step [OF smear_step [OF 0]]]]], of k]
    by simp
  also have "\<dots> \<longleftrightarrow> (\<exists>j \<ge> k. bit s j)"
  proof
    assume "\<exists>j \<ge> k. bit s j"
    then obtain j where j: "k \<le> j" "bit s j" by blast
    have "j < 64" using bit_imp_le_length [OF j(2)] by simp
    then show "\<exists>i < 64. bit s (k + i)" using j by (intro exI [of _ "j - k"]) simp
  qed (metis le_add1)
  finally show ?thesis .
qed

text \<open>A word whose bit is set exactly below and at the highest bit of \<open>s\<close> is a mask.\<close>

lemma smear_mask:
  fixes s t :: "'a :: len word"
  assumes "s \<noteq> 0" and t: "\<And>k. bit t k \<longleftrightarrow> (\<exists>j \<ge> k. bit s j)"
  shows "\<exists>h < LENGTH('a). bit s h \<and> t = mask (Suc h)"
proof -
  have ex: "\<exists>j. bit s j"
  proof (rule ccontr)
    assume "\<nexists>j. bit s j"
    then have "s = 0" by (intro bit_word_eqI) simp
    then show False using assms(1) by simp
  qed
  define h where "h = Max {j. bit s j}"
  have sub: "{j. bit s j} \<subseteq> {..<LENGTH('a)}" using bit_imp_le_length [of s] by auto
  then have f: "finite {j. bit s j}" by (rule finite_subset) simp
  have h: "bit s h" unfolding h_def using Max_in [OF f] ex by blast
  have m: "bit s j \<Longrightarrow> j \<le> h" for j unfolding h_def using f by (intro Max_ge) simp_all
  have "t = mask (Suc h)"
  proof (rule bit_word_eqI)
    fix k assume k: "k < LENGTH('a)"
    have "(\<exists>j \<ge> k. bit s j) \<longleftrightarrow> k < Suc h" using m h by (metis less_Suc_eq_le le_trans)
    then show "bit t k = bit (mask (Suc h) :: 'a word) k"
      using k by (simp add: t bit_mask_iff)
  qed
  then show ?thesis using h sub by blast
qed

lemma bit_lower: "bit (s :: 'a :: len word) h \<Longrightarrow> 2 ^ h \<le> unat s"
proof (rule ccontr)
  assume b: "bit s h" and l: "\<not> 2 ^ h \<le> unat s"
  have "bit (unat s) h" using b by (simp add: bit_unsigned_iff)
  then have "odd (unat s div 2 ^ h)" by (rule bit_iff_odd [THEN iffD1])
  moreover have "unat s div 2 ^ h = 0" using l by (intro div_less) (simp only: not_le)
  ultimately show False by simp
qed

lemma mask_upper: "s = s AND mask n \<Longrightarrow> unat (s :: 'a :: len word) < 2 ^ n"
  by (metis take_bit_eq_mask and.commute unsigned_take_bit_eq take_bit_nat_less_exp)

text \<open>One more than the mask of \<open>sz - 1\<close> is the least power of two that is not below \<open>sz\<close>.\<close>

lemma smear_pow2:
  fixes sz t :: "'a :: len word"
  assumes "1 < unat sz" "unat sz \<le> 2 ^ (LENGTH('a) - 1)" and t: "\<And>k. bit t k \<longleftrightarrow> (\<exists>j \<ge> k. bit (sz - 1) j)"
  shows "\<exists>h. unat (t + 1) = 2 ^ Suc h \<and> 2 ^ h < unat sz \<and> unat sz \<le> 2 ^ Suc h"
proof -
  have sz: "sz \<noteq> 0" "sz - 1 \<noteq> 0" using assms(1) by auto
  have u: "unat (sz - 1) = unat sz - 1" using sz(1) by (simp add: unat_minus_one)
  obtain h where h: "h < LENGTH('a)" "bit (sz - 1) h" "t = mask (Suc h)"
    using smear_mask [OF sz(2) t] by blast
  have lo: "2 ^ h \<le> unat sz - 1" using bit_lower [OF h(2)] u by simp
  have "(2::nat) ^ h < 2 ^ (LENGTH('a) - 1)" using lo assms(1,2) by linarith
  then have hl: "Suc h < LENGTH('a)" by (simp only: power_strict_increasing_iff)
  have "\<not> bit (sz - 1) j" if "h < j" for j
    using h(3) that t [of j] by (auto simp: bit_mask_iff)
  then have "sz - 1 = (sz - 1) AND mask (Suc h)"
    by (intro bit_word_eqI) (auto simp: bit_and_iff bit_mask_iff less_Suc_eq_le intro: leI)
  then have "unat (sz - 1) < 2 ^ Suc h" by (rule mask_upper)
  then have hi: "unat sz \<le> 2 ^ Suc h" using u by linarith
  have "t + 1 = 2 ^ Suc h" unfolding h(3) mask_eq_exp_minus_1 by simp
  moreover have "unat (2 ^ Suc h :: 'a word) = 2 ^ Suc h"
    using power_strict_increasing [OF hl, of "2 :: nat"] unsigned_of_nat [where 'b = 'a and 'a = nat, of "2 ^ Suc h"]
    by (simp add: take_bit_nat_eq_self)
  ultimately have "unat (t + 1) = 2 ^ Suc h" by simp
  then show ?thesis using lo hi assms(1) by (intro exI [of _ h]) linarith
qed

lemma sc_to_pow2_smear: "sz \<noteq> 0 \<Longrightarrow> sc_to_pow2 sz = smear (sz - 1) + 1"
  by (simp add: sc_to_pow2_def smear_def Let_def)

text \<open>What \<^verbatim>\<open>sc_to_pow2\<close> returns above one.\<close>

lemma sc_to_pow2_val:
  assumes "1 < unat sz" "unat sz \<le> 2 ^ 63"
  shows "\<exists>h. unat (sc_to_pow2 sz) = 2 ^ Suc h \<and> 2 ^ h < unat sz \<and> unat sz \<le> 2 ^ Suc h"
proof -
  have "sz \<noteq> 0" using assms(1) by auto
  then show ?thesis
    using smear_pow2 [OF assms(1) _ bit_smear] assms(2) by (simp add: sc_to_pow2_smear)
qed

section \<open>The random number generator\<close>

lemma byte_less: "unat (b :: u8) < 256"
  using unsigned_less [where 'a = nat, of b] by simp

lemma rand_swap_mset [simp]:
  "a < length xs \<Longrightarrow> b < length xs \<Longrightarrow> mset (rand_swap xs a b) = mset xs" "length (rand_swap xs a b) = length xs"
  unfolding rand_swap_def by (simp_all add: mset_swap)

lemma rand_mix_mset:
  assumes "length (r_init r) = 256" "n \<le> 256"
  shows "mset (r_init (rand_mix seed n r)) = mset (r_init r) \<and> length (r_init (rand_mix seed n r)) = 256"
  using assms(2) by (induction n) (use assms(1) byte_less in \<open>simp_all add: Let_def\<close>)

lemma rand_next_mset:
  assumes "length (r_init r) = 256" "rand_next r = (b, r')"
  shows "mset (r_init r') = mset (r_init r)" "length (r_init r') = 256" "b \<in> set (r_init r)"
proof -
  let ?i = "r_i r + 1" and ?s = "r_init r"
  let ?j = "r_j r + ?s ! unat ?i"
  have r': "r_init r' = rand_swap ?s (unat ?i) (unat ?j)"
    using assms(2) by (auto simp: rand_next_def rand_swap_def Let_def)
  then show m: "mset (r_init r') = mset ?s" and l: "length (r_init r') = 256"
    using assms(1) byte_less by (simp_all only: rand_swap_mset)
  obtain t where "b = r_init r' ! unat (t :: u8)"
    using assms(2) by (auto simp: rand_next_def Let_def)
  then have "b \<in> set (r_init r')"
    using byte_less [of t] l by simp
  then show "b \<in> set ?s" using mset_eq_setD [OF m] by simp
qed

lemma rand_bytes_mset:
  assumes "length (r_init r) = 256"
  shows "mset (r_init (snd (rand_bytes r n))) = mset (r_init r) \<and> length (r_init (snd (rand_bytes r n))) = 256 \<and>
    set (fst (rand_bytes r n)) \<subseteq> set (r_init r) \<and> length (fst (rand_bytes r n)) = n"
  using assms
proof (induction n arbitrary: r)
  case (Suc n)
  obtain b r1 where 1: "rand_next r = (b, r1)" by (cases "rand_next r")
  note m = rand_next_mset [OF Suc.prems 1]
  show ?case using Suc.IH [OF m(2)] m mset_eq_setD [OF m(1)] 1 by (auto simp: Let_def split: prod.splits)
qed simp

section \<open>Properties\<close>

text \<open>
  C26: \<^verbatim>\<open>sc_to_pow2\<close> returns the least power of two that is not below its argument, up to the
  largest power of two of the type; the loop of \<^verbatim>\<open>page_reserve\<close> relies on it to make progress.
\<close>

theorem sc_to_pow2_least:
  assumes "unat sz \<le> 2 ^ 63"
  shows "\<exists>k. unat (sc_to_pow2 sz) = 2 ^ k \<and> unat sz \<le> 2 ^ k \<and> (\<forall>j. unat sz \<le> 2 ^ j \<longrightarrow> k \<le> j)"
proof (cases "1 < unat sz")
  case True
  obtain h where h: "unat (sc_to_pow2 sz) = 2 ^ Suc h" "2 ^ h < unat sz" "unat sz \<le> 2 ^ Suc h"
    using sc_to_pow2_val [OF True assms] by blast
  have "Suc h \<le> j" if "unat sz \<le> 2 ^ j" for j
  proof -
    have "(2::nat) ^ h < 2 ^ j" using h(2) that by linarith
    then show ?thesis by simp
  qed
  then show ?thesis using h by blast
next
  case False
  then have "sz = 0 \<or> sz = 1" by (metis less_one linorder_neqE_nat unat_0 unat_1 unsigned_word_eqI)
  then have "unat (sc_to_pow2 sz) = 2 ^ 0" by (auto simp: sc_to_pow2_def Let_def)
  then show ?thesis using False by (intro exI [of _ 0]) simp
qed

theorem sc_to_pow2_least_witness: "\<exists>k. unat (sc_to_pow2 33554433) = 2 ^ k"
  using sc_to_pow2_least [of 33554433] by auto

text \<open>
  The generator only permutes its seed: whatever was read before, the array has the bytes of the seed
  with the same multiplicities, and every byte it returns is one of them. A generator of this kind
  that starts from the identity returns every byte value; this one does so only for seeds that have
  every value, and a seed of equal bytes makes it constant.
\<close>

theorem sc_rand_permutes:
  assumes "length seed = 256"
  shows "mset (r_init (snd (sc_rand_read (sc_rand_init seed) n))) = mset seed \<and>
    set (fst (sc_rand_read (sc_rand_init seed) n)) \<subseteq> set seed \<and>
    length (fst (sc_rand_read (sc_rand_init seed) n)) = nat n"
proof -
  let ?r = "\<lparr>r_i = 0, r_j = 0, r_init = take 256 seed\<rparr>"
  have i: "mset (r_init (sc_rand_init seed)) = mset seed" "length (r_init (sc_rand_init seed)) = 256"
    using rand_mix_mset [of ?r 256 seed] assms by (simp_all add: sc_rand_init_def)
  then show ?thesis
    using rand_bytes_mset [OF i(2), of "nat n"] mset_eq_setD [OF i(1)] by (auto simp: sc_rand_read_def)
qed

end
