(* ===== verification/Page_Recovery.thy ===== *)
theory Page_Recovery
  imports Page
begin

text \<open>
  What a log page (\<^verbatim>\<open>src/src/page.c\<close>) recovers from its file: \<open>page_read\<close> and \<open>page_init\<close> on the bytes
  that the operations wrote, on torn writes, and on what stable storage holds after a crash.
\<close>

section \<open>Recovery\<close>

lemma valid_entry_len:
  assumes "valid_entry d" "length d < 2 ^ 32" "4 \<le> length d"
  shows "4 \<le> unat (entry_len d)" "unat (entry_len d) \<le> length d"
proof -
  let ?n = "unat (entry_len d)"
  have s: "sub32 ?n 4 \<le> length d - 4" using assms(1) by (simp add: valid_entry_def)
  have n: "?n < 2 ^ 32" using unsigned_less [of "entry_len d"] by simp
  show "4 \<le> ?n"
  proof (rule ccontr)
    assume "\<not> 4 \<le> ?n"
    then have "sub32 ?n 4 = ?n + 2 ^ 32 - 4" by (simp add: sub32_def)
    then show False using s assms(2,3) \<open>\<not> 4 \<le> ?n\<close> by simp
  qed
  then show "?n \<le> length d" using s n assms(3) by simp
qed

lemma entry_decode_valid:
  assumes "sc_buf_wf b" "err b = 0" "8 \<le> length (sc_buf_data b)"
  shows "entry_decode b =
    (if valid_entry (sc_buf_data b) then (RS_OK, adv b (unat (entry_len (sc_buf_data b))))
     else (RS_ERROR, b))"
proof (cases "valid_entry (sc_buf_data b)")
  case True
  note w = sc_buf_wfD [OF assms(1)] and l = length_data [OF assms(1)]
  have "unat (entry_len (sc_buf_data b)) \<le> length (sc_buf_data b)"
    using valid_entry_len [OF True] w l assms(3) by simp
  then have "sc_buf_set_rpos b (add32 (rpos b) (unat (entry_len (sc_buf_data b)))) =
      adv b (unat (entry_len (sc_buf_data b)))"
    using w l by (simp add: sc_buf_set_rpos_def adv_def)
  then show ?thesis
    using True entry_decode_eq [OF assms] by (simp add: valid_entry_def)
next
  case False
  then show ?thesis
    using entry_decode_eq [OF assms, folded valid_entry_def] by (simp only: if_False)
qed

text \<open>One round of the loop, as a function of the bytes that are left.\<close>

lemma page_read_loop_eq:
  assumes w: "sc_buf_wf b" and e: "err b = 0"
  defines "d \<equiv> sc_buf_data b"
  shows "page_read_loop b =
    (if length d < 36 \<or> entry_crc d = PAGE_END_MARK \<or> \<not> valid_entry d then Some ([], b)
     else map_option (\<lambda>(es, b'). (rpos b # es, b')) (page_read_loop (adv b (unat (entry_len d)))))"
proof -
  have p: "fst (sc_buf_peek_32 b) = entry_crc d" if "4 \<le> length d"
    using peek_32_ok [OF w] that
    by (simp add: d_def entry_crc_def ENTRY_CRC_OFFSET_def entry_get_32_def)
  have "page_read_loop b =
    (if length d = 0 \<or> (4 \<le> length d \<and> entry_crc d = PAGE_END_MARK) then Some ([], b)
     else if length d < 36 then Some ([], b)
     else case entry_decode b of (rc, b') \<Rightarrow>
        if rc \<noteq> RS_OK then Some ([], b')
        else Option.bind (page_read_loop b') (\<lambda>(es, b''). Some (rpos b # es, b'')))"
    using p
    by (subst page_read_loop.simps)
       (auto simp: Let_def sc_buf_size_data [OF w] d_def [symmetric] PAGE_END_MARK_LEN_def ENTRY_HEADER_SIZE_def)
  then show ?thesis
    using entry_decode_valid [OF w e]
    by (auto simp: d_def [symmetric] map_conv_bind_option comp_def case_prod_unfold)
qed

lemma page_read_loop_total:
  assumes "sc_buf_wf b" "err b = 0"
  shows "\<exists>offs n. page_read_loop b = Some (offs, adv b n) \<and> n \<le> length (sc_buf_data b)"
  using assms
proof (induction "length (sc_buf_data b)" arbitrary: b rule: less_induct)
  case less
  let ?d = "sc_buf_data b"
  let ?n = "unat (entry_len ?d)"
  show ?case
  proof (cases "length ?d < 36 \<or> entry_crc ?d = PAGE_END_MARK \<or> \<not> valid_entry ?d")
    case True
    then have "page_read_loop b = Some ([], adv b 0)"
      using page_read_loop_eq [OF less.prems] by simp
    then show ?thesis by blast
  next
    case False
    have "length ?d < 2 ^ 32" using length_data [OF less.prems(1)] sc_buf_wfD [OF less.prems(1)] by simp
    then have n: "4 \<le> ?n" "?n \<le> length ?d" using valid_entry_len [of ?d] False by simp_all
    have w: "sc_buf_wf (adv b ?n)" "err (adv b ?n) = 0"
      "length (sc_buf_data (adv b ?n)) = length ?d - ?n"
      using less.prems n by (simp_all add: buf_simps)
    have "length (sc_buf_data (adv b ?n)) < length ?d" using w(3) n by linarith
    then obtain offs m where "page_read_loop (adv b ?n) = Some (offs, adv (adv b ?n) m)"
      "m \<le> length (sc_buf_data (adv b ?n))"
      using less.hyps [OF _ w(1,2)] by blast
    then show ?thesis
      using page_read_loop_eq [OF less.prems] False n w(3)
      by (intro exI [of _ "rpos b # offs"] exI [of _ "?n + m"]) (simp add: buf_simps)
  qed
qed

definition crc_nonzero :: "entry \<Rightarrow> bool" where
  "crc_nonzero e \<longleftrightarrow> sc_crc32 0 (entry_body e) \<noteq> PAGE_END_MARK"

lemma valid_entry_bytes: "entry_ok e \<Longrightarrow> valid_entry (entry_bytes e @ r)"
proof -
  assume ok: "entry_ok e"
  have s: "sub32 (entry_size e) 4 = length (entry_body e)"
    using ok by (simp add: entry_ok_def entry_size_def length_entry_body)
  have d: "drop 4 (entry_bytes e @ r) = entry_body e @ r" by (simp add: entry_bytes_def)
  have l: "length (entry_bytes e @ r) - 4 = length (entry_body e @ r)"
    by (simp add: entry_bytes_def)
  show ?thesis
    unfolding valid_entry_def entry_fields unat_entry_size [OF ok] s d l by simp
qed

text \<open>The loop takes the entries that were written, and goes on with what follows them.\<close>

lemma page_read_loop_entries:
  assumes "sc_buf_wf b" "err b = 0" "\<forall>e \<in> set es. entry_ok e \<and> crc_nonzero e"
    "sc_buf_data b = log_bytes es @ r"
  shows "page_read_loop b =
    map_option (\<lambda>(offs, b'). (entry_offsets (rpos b) es @ offs, b'))
      (page_read_loop (adv b (length (log_bytes es))))"
  using assms
proof (induction es arbitrary: b)
  case Nil
  then show ?case by (simp add: option.map_ident case_prod_unfold)
next
  case (Cons e es)
  let ?d = "sc_buf_data b"
  have d: "?d = entry_bytes e @ log_bytes es @ r" using Cons.prems(4) by simp
  have "length ?d \<ge> 36" by (simp add: d length_entry_bytes entry_size_def)
  moreover have "entry_crc ?d \<noteq> PAGE_END_MARK" "valid_entry ?d"
    using Cons.prems(3) valid_entry_bytes [of e "log_bytes es @ r"]
    by (simp_all add: d entry_fields crc_nonzero_def)
  moreover have n: "unat (entry_len ?d) = entry_size e"
    using Cons.prems(3) by (simp add: d entry_fields unat_entry_size)
  ultimately have s: "page_read_loop b =
      map_option (\<lambda>(es, b'). (rpos b # es, b')) (page_read_loop (adv b (entry_size e)))"
    using page_read_loop_eq [OF Cons.prems(1,2)] by simp
  have "page_read_loop (adv b (entry_size e)) =
    map_option (\<lambda>(offs, b'). (entry_offsets (rpos (adv b (entry_size e))) es @ offs, b'))
      (page_read_loop (adv (adv b (entry_size e)) (length (log_bytes es))))"
    using Cons.prems by (intro Cons.IH) (simp_all add: buf_simps d length_entry_bytes)
  then show ?case
    unfolding s by (simp add: buf_simps option.map_comp comp_def case_prod_unfold length_entry_bytes)
qed

lemma header_fields:
  "take 28 (page_header prev @ r) = page_header0 prev"
  "de32 (drop 28 (page_header prev @ r)) = sc_crc32 0 (page_header0 prev)"
  "de64 (drop 8 (page_header prev @ r)) = word_of_nat prev"
proof -
  have 28: "drop 28 (page_header prev @ r) = le32 (sc_crc32 0 (page_header0 prev)) @ r"
    by (simp add: page_header_def length_page_header0)
  have 8: "drop 8 (page_header prev @ r) =
      le64 (word_of_nat prev) @ replicate 12 0 @ le32 (sc_crc32 0 (page_header0 prev)) @ r"
    by (simp add: page_header_def page_header0_def)
  show "take 28 (page_header prev @ r) = page_header0 prev"
    by (simp add: page_header_def length_page_header0)
  show "de32 (drop 28 (page_header prev @ r)) = sc_crc32 0 (page_header0 prev)"
    unfolding 28 by simp
  show "de64 (drop 8 (page_header prev @ r)) = word_of_nat prev"
    unfolding 8 by simp
qed

text \<open>The mapping \<open>page_init\<close> makes of a file.\<close>

definition init_len :: "nat \<Rightarrow> int \<Rightarrow> nat" where
  "init_len n len0 = nat (max (max len0 (int n)) (int PAGE_INITIAL_SIZE))"

definition opened :: "page \<Rightarrow> bytes \<Rightarrow> bytes \<Rightarrow> nat \<Rightarrow> nat \<Rightarrow> page" where
  "opened p m d prev n = p\<lparr>p_init := True, p_map_len := n, p_entries := [], p_disk := d,
     p_flush_pos := 0, p_flush_index := 0, p_prev_index := prev,
     p_buf := \<lparr>mem = m, cap = n, limit = n, rpos = 32, wpos = n, err = 0, ref = True\<rparr>\<rparr>"

lemma page_init_open:
  assumes "len0 \<le> int PAGE_MAX_SIZE" "init_len (length f) len0 < 2 ^ 32"
    and "f = page_header prev @ r" "prev < 2 ^ 64"
  defines "n \<equiv> init_len (length f) len0"
  shows "page_init p (Some (f, d)) MMAP_OK len0 prev0 =
    map_option (\<lambda>p. (RS_OK, p))
      (page_read (opened p (f @ replicate (n - length f) 0) (d @ replicate (n - length d) 0) prev n))"
proof -
  let ?m = "f @ replicate (n - length f) 0"
  have m: "?m = page_header prev @ r @ replicate (n - length f) 0" by (simp add: assms(3))
  note h = header_fields [of prev "r @ replicate (n - length f) 0", folded m]
  have n: "n < 2 ^ 32" "72 \<le> n" using assms(2) by (simp_all add: n_def init_len_def PAGE_INITIAL_SIZE_def)
  have b: "sc_buf_set_wpos (sc_buf_wrap ?m (n mod 2 ^ 32) SC_BUF_REF) (n mod 2 ^ 32) =
      \<lparr>mem = ?m, cap = n, limit = n, rpos = 0, wpos = n, err = 0, ref = True\<rparr>"
    using n(1) by (simp add: sc_buf_wrap_def SC_BUF_REF_def SC_BUF_DATA_def sc_buf_set_wpos_def)
  have i: "nat (max (max len0 (int (length f))) (int PAGE_INITIAL_SIZE)) = n"
    by (simp add: n_def init_len_def)
  show ?thesis
    unfolding page_init_def Let_def
    using assms(1,4) n
    by (simp add: i [simplified] b [simplified] h sc_buf_peek_32_at_def sc_buf_peek_32_pos_def
        sc_buf_peek_64_at_def sc_buf_peek_64_pos_def PAGE_CRC_OFFSET_def PAGE_HEADER_LEN_def
        PAGE_PREV_INDEX_OFFSET_def sc_buf_set_wpos_def sc_buf_set_rpos_def opened_def
        sc_buf_wrap_def SC_BUF_REF_def SC_BUF_DATA_def del: take_append drop_append)
qed

lemma page_read_opened:
  assumes m: "m = page_header prev @ log_bytes es @ r" "length m = n" "n < 2 ^ 32"
    and es: "\<forall>e \<in> set es. entry_ok e \<and> crc_nonzero e"
  shows "\<exists>offs p'. page_read (opened p m d prev n) = Some p' \<and>
      p_entries p' = entry_offsets 32 es @ offs \<and> p_prev_index p' = prev \<and> mem (p_buf p') = m \<and>
      (log_end r \<or> offs = [] \<longrightarrow> offs = [] \<and> log_end r \<and> p' = (opened p m d prev n)
        \<lparr>p_entries := entry_offsets 32 es,
         p_buf := \<lparr>mem = m, cap = n, limit = n, rpos = 32 + length (log_bytes es),
           wpos = 32 + length (log_bytes es), err = 0, ref = True\<rparr>\<rparr>)"
proof -
  let ?b = "\<lparr>mem = m, cap = n, limit = n, rpos = 32, wpos = n, err = 0, ref = True\<rparr>"
  let ?k = "length (log_bytes es)"
  have l: "32 + ?k + length r = n" using m(1,2) by auto
  have w: "sc_buf_wf ?b" "err ?b = 0" using m(2,3) l by (simp_all add: sc_buf_wf_def)
  have d: "sc_buf_data ?b = log_bytes es @ r"
    using m(1,2) by (simp add: sc_buf_data_def sc_buf_contents_def)
  note e = page_read_loop_entries [OF w es d]
  have wa: "sc_buf_wf (adv ?b ?k)" "err (adv ?b ?k) = 0" "sc_buf_data (adv ?b ?k) = r"
    using w d by (simp_all add: buf_simps)
  obtain offs j where j: "page_read_loop (adv ?b ?k) = Some (offs, adv (adv ?b ?k) j)" "j \<le> length r"
    using page_read_loop_total [OF wa(1,2)] wa(3) by auto
  have z: "log_end r \<or> offs = [] \<Longrightarrow> offs = [] \<and> log_end r \<and> j = 0"
    using page_read_loop_eq [OF wa(1,2)] j(1) wa(3)
    by (auto simp: log_end_def adv_def split: if_splits)
  have "page_read_loop ?b = Some (entry_offsets 32 es @ offs, adv ?b (?k + j))"
    using e j(1) by (simp add: buf_simps)
  then have "page_read (opened p m d prev n) = Some ((opened p m d prev n)
      \<lparr>p_entries := entry_offsets 32 es @ offs,
       p_buf := \<lparr>mem = m, cap = n, limit = n, rpos = 32 + (?k + j), wpos = 32 + (?k + j), err = 0, ref = True\<rparr>\<rparr>)"
    using l j(2) by (simp add: page_read_def opened_def adv_def sc_buf_set_wpos_def)
  then show ?thesis using z by (auto simp: opened_def)
qed

lemma page_init_recovers:
  assumes f: "f = page_header prev @ log_bytes es @ r" and prev: "prev + length es < 2 ^ 64"
    and es: "\<forall>e \<in> set es. entry_ok e \<and> crc_nonzero e"
    and n: "len0 \<le> int PAGE_MAX_SIZE" "init_len (length f) len0 < 2 ^ 32"
  defines "n \<equiv> init_len (length f) len0"
  shows "\<exists>p' offs. page_init p (Some (f, d)) MMAP_OK len0 prev0 = Some (RS_OK, p') \<and>
     p_entries p' = entry_offsets 32 es @ offs \<and> p_prev_index p' = prev \<and>
     mem (p_buf p') = f @ replicate (n - length f) 0 \<and>
     ((log_end (r @ replicate (n - length f) 0) \<or> offs = []) \<and> 72 + length (log_bytes es) \<le> n \<longrightarrow> page_rep p' prev es)"
proof -
  have l: "length f \<le> n" by (simp add: n_def init_len_def)
  let ?m = "f @ replicate (n - length f) 0" and ?r = "r @ replicate (n - length f) 0"
  let ?d = "d @ replicate (n - length d) 0"
  have m: "?m = page_header prev @ log_bytes es @ ?r" "length ?m = n" "n < 2 ^ 32"
    subgoal by (simp add: f)
    subgoal using l by simp
    subgoal using n(2) by (simp only: n_def)
    done
  obtain offs p' where p': "page_read (opened p ?m ?d prev n) = Some p'"
    "p_entries p' = entry_offsets 32 es @ offs" "p_prev_index p' = prev" "mem (p_buf p') = ?m"
    "log_end ?r \<or> offs = [] \<longrightarrow> offs = [] \<and> log_end ?r \<and> p' = (opened p ?m ?d prev n)
        \<lparr>p_entries := entry_offsets 32 es,
         p_buf := \<lparr>mem = ?m, cap = n, limit = n, rpos = 32 + length (log_bytes es),
           wpos = 32 + length (log_bytes es), err = 0, ref = True\<rparr>\<rparr>"
    using page_read_opened [OF m es, of p ?d] by (elim exE conjE) (rule that)
  have i: "page_init p (Some (f, d)) MMAP_OK len0 prev0 = Some (RS_OK, p')"
    using page_init_open [OF n f, of p d prev0, folded n_def] p'(1) prev by simp
  have "page_rep p' prev es" if le: "log_end ?r \<or> offs = []" and "72 + length (log_bytes es) \<le> n"
  proof -
    have t: "take (32 + length (log_bytes es)) ?m = page_header prev @ log_bytes es"
      "drop (32 + length (log_bytes es)) ?m = ?r" unfolding m(1) by simp_all
    have q: "p' = (opened p ?m ?d prev n)
        \<lparr>p_entries := entry_offsets 32 es,
         p_buf := \<lparr>mem = ?m, cap = n, limit = n, rpos = 32 + length (log_bytes es),
           wpos = 32 + length (log_bytes es), err = 0, ref = True\<rparr>\<rparr>"
      and r: "log_end ?r"
      using p'(5) le by blast+
    show ?thesis
      unfolding q page_rep_def Let_def
      using that(2) r m(2,3) prev es
      by (simp add: sc_buf_wf_def sc_buf_contents_def opened_def t del: take_append drop_append length_append)
  qed
  then show ?thesis using i p'(2-4) by (intro exI [of _ p'] exI [of _ offs]) blast
qed

section \<open>Stable storage\<close>

lemma msync_range:
  fixes len :: nat
  assumes ps: "0 < psize" and l: "length disk = length m" and pre: "take off disk = take off m"
  defines "a \<equiv> off - off mod psize"
  defines "e \<equiv> a + ((len + psize - 1) div psize) * psize"
  shows "take (min e (length m)) (sc_mmap_msync psize m disk off len) = take (min e (length m)) m"
    "drop e (sc_mmap_msync psize m disk off len) = drop e disk"
    "length (sc_mmap_msync psize m disk off len) = length m \<or> length m < a"
proof -
  define n where "n = ((len + psize - 1) div psize) * psize"
  have s: "sc_mmap_msync psize m disk off len = write_at disk a (slice m a n)"
    by (simp add: sc_mmap_msync_def a_def n_def Let_def)
  have e: "e = a + n" by (simp add: e_def n_def)
  have a: "a \<le> off" by (simp add: a_def)
  have ta: "take a disk = take a m" using pre a by (metis take_take min.absorb1)
  have ls: "length (slice m a n) = min n (length m - a)" by (simp add: slice_def)
  show "take (min e (length m)) (sc_mmap_msync psize m disk off len) = take (min e (length m)) m"
  proof (cases "a \<le> length m")
    case True
    have "take (min e (length m)) m = take a m @ slice m a (min e (length m) - a)"
      using True e by (metis le_add_diff_inverse min_def nat_le_iff_add slice_def take_add)
    moreover have "slice m a (min e (length m) - a) = slice m a n"
      using True by (simp add: slice_def e min_def)
    ultimately show ?thesis
      unfolding s write_at_def using True ta l ls by (auto simp: e min_def)
  next
    case False
    then have "slice m a n = []" "min e (length m) = length m" by (simp_all add: slice_def e)
    then show ?thesis unfolding s using ta False l by simp
  qed
  show "drop e (sc_mmap_msync psize m disk off len) = drop e disk"
  proof (cases "a \<le> length m")
    case True
    have "length (take a disk @ slice m a n) = min e (length m)" using True l ls e by simp
    then show ?thesis unfolding s write_at_def append.assoc [symmetric]
      using True l ls e by (auto simp: min_def)
  next
    case False
    then show ?thesis unfolding s using l by (simp add: slice_def)
  qed
  show "length (sc_mmap_msync psize m disk off len) = length m \<or> length m < a"
    unfolding s using l ls by (auto simp: write_at_def)
qed

lemma round_up_reaches: "0 < ps \<Longrightarrow> n \<le> ((n + ps - 1) div ps) * (ps :: nat)"
proof -
  assume ps: "0 < ps"
  have "n + ps - 1 = ((n + ps - 1) div ps) * ps + (n + ps - 1) mod ps" by simp
  moreover have "(n + ps - 1) mod ps \<le> ps - 1" using ps mod_less_divisor [OF ps, of "n + ps - 1"] by linarith
  ultimately show ?thesis using ps by linarith
qed

text \<open>
  \<open>stable p k\<close>: stable storage holds the header and the first \<open>k\<close> bytes of the log as the
  mapping has them.
\<close>

definition stable :: "page \<Rightarrow> nat \<Rightarrow> bool" where
  "stable p k \<longleftrightarrow> length (p_disk p) = length (mem (p_buf p)) \<and>
     take (32 + k) (p_disk p) = take (32 + k) (mem (p_buf p))"

text \<open>How far the range of pages that \<open>page_fsync\<close> synchronises reaches.\<close>

definition sync_end :: "page \<Rightarrow> nat" where
  "sync_end p = p_flush_pos p - p_flush_pos p mod p_psize p +
     ((wpos (p_buf p) - p_flush_pos p + p_psize p - 1) div p_psize p) * p_psize p"

lemma page_fsync_flushes:
  assumes rep: "page_rep p prev es" and es: "es \<noteq> []"
    and f: "p_flush_index p < prev + length es" "p_flush_pos p < wpos (p_buf p)"
  shows "page_fsync p (page_last_index p) = p\<lparr>
     p_disk := sc_mmap_msync (p_psize p) (mem (p_buf p)) (p_disk p) (p_flush_pos p)
       (wpos (p_buf p) - p_flush_pos p),
     p_flush_pos := wpos (p_buf p), p_flush_index := page_last_index p\<rparr>"
  using page_repD [OF rep] page_last_index_rep [OF rep] es f
  by (simp add: page_fsync_def Let_def)

lemma page_fsync_stable:
  assumes rep: "page_rep p prev es" and es: "es \<noteq> []" and ps: "0 < p_psize p"
    and f: "p_flush_index p < prev + length es" "p_flush_pos p < wpos (p_buf p)"
    and d: "length (p_disk p) = length (mem (p_buf p))"
      "take (p_flush_pos p) (p_disk p) = take (p_flush_pos p) (mem (p_buf p))"
    and r: "wpos (p_buf p) \<le> sync_end p"
  shows "stable (page_fsync p (page_last_index p)) (length (log_bytes es))"
proof -
  let ?m = "mem (p_buf p)"
  let ?d = "sc_mmap_msync (p_psize p) ?m (p_disk p) (p_flush_pos p) (wpos (p_buf p) - p_flush_pos p)"
  have w: "wpos (p_buf p) = 32 + length (log_bytes es)" by (rule page_rep_wpos [OF rep])
  have c: "wpos (p_buf p) \<le> length ?m" using page_repD [OF rep] by simp
  have l: "length ?d = length ?m"
    using msync_range(3) [OF ps d, of "wpos (p_buf p) - p_flush_pos p"] f(2) c by auto
  have t: "take (min (sync_end p) (length ?m)) ?d = take (min (sync_end p) (length ?m)) ?m"
    using msync_range(1) [OF ps d, of "wpos (p_buf p) - p_flush_pos p"] by (simp add: sync_end_def)
  have "min (wpos (p_buf p)) (min (sync_end p) (length ?m)) = wpos (p_buf p)" using r c by simp
  then have "take (wpos (p_buf p)) ?d = take (wpos (p_buf p)) ?m"
    using arg_cong [OF t, of "take (wpos (p_buf p))"] by (simp only: take_take)
  then show ?thesis
    unfolding page_fsync_flushes [OF rep es f] stable_def using l w by simp
qed

text \<open>A page file that is opened after a crash holds what was stable.\<close>

lemma page_crash_recovers:
  assumes rep: "page_rep p prev es" and k: "k \<le> length es"
    and st: "stable p (length (log_bytes (take k es)))"
    and nz: "\<forall>e \<in> set (take k es). crc_nonzero e"
    and n: "PAGE_INITIAL_SIZE \<le> length (p_disk p)"
  shows "\<exists>q'. page_init q (Some (p_disk p, p_disk p)) MMAP_OK (- 1) prev0 = Some (RS_OK, q') \<and>
     p_prev_index q' = prev \<and> k \<le> length (p_entries q') \<and>
     map (\<lambda>off. decode_entry (drop off (mem (p_buf q')))) (take k (p_entries q')) = take k es"
proof -
  note r = page_repD [OF rep]
  let ?d = "p_disk p" and ?es = "take k es"
  have es: "es = ?es @ drop k es" by simp
  have lb: "log_bytes es = log_bytes ?es @ log_bytes (drop k es)"
    by (subst es) (rule log_bytes_simps(3))
  have "take (32 + length (log_bytes ?es)) (mem (p_buf p)) = page_header prev @ log_bytes ?es"
    by (subst page_rep_mem [OF rep]) (simp add: lb)
  then have "take (32 + length (log_bytes ?es)) ?d = page_header prev @ log_bytes ?es"
    using st by (simp add: stable_def)
  then have f: "?d = page_header prev @ log_bytes ?es @ drop (32 + length (log_bytes ?es)) ?d"
    by (metis append.assoc append_take_drop_id)
  have il: "init_len (length ?d) (- 1) = length ?d" using n by (simp add: init_len_def)
  have small: "length ?d < 2 ^ 32"
    using st r(4) sc_buf_wfD(4) [OF r(1)] by (simp add: stable_def)
  have ok: "\<forall>e \<in> set ?es. entry_ok e \<and> crc_nonzero e" using r(12) nz by (auto dest: in_set_takeD)
  have pl: "prev + length ?es < 2 ^ 64" using r(9) by simp
  obtain q' offs where q: "page_init q (Some (?d, ?d)) MMAP_OK (- 1) prev0 = Some (RS_OK, q')"
    "p_entries q' = entry_offsets 32 ?es @ offs" "p_prev_index q' = prev" "mem (p_buf q') = ?d"
    using page_init_recovers [OF f pl ok, of "- 1" q ?d prev0] il small by auto
  have dr: "drop 32 ?d = concat (map entry_bytes ?es) @ drop (32 + length (log_bytes ?es)) ?d"
    by (subst f) (simp add: log_bytes_def)
  have "map (\<lambda>off. decode_entry (drop off (mem (p_buf q')))) (entry_offsets 32 ?es) = ?es"
    unfolding q(4) using offsets_decode [OF _ dr] ok by blast
  moreover have "take k (p_entries q') = entry_offsets 32 ?es" using q(2) k by simp
  moreover have "k \<le> length (p_entries q')" using q(2) k by simp
  ultimately show ?thesis using q(1,3) by auto
qed

end
