(* ===== verification/Page_Log.thy ===== *)
theory Page_Log
  imports Page_Recovery
begin

text \<open>
  A page as a log. The first part shows that \<^verbatim>\<open>page_reserve\<close>, which closes the page, extends
  its file and recovers it again, keeps the entries. The second part is the interface that the store
  relies on: what a page represents and what each operation makes of it, with the lemmas for two
  pages that follow each other, interpreted on the operations of \<open>Page\<close>.
\<close>

unbundle bit_operations_syntax

section \<open>Growing a page\<close>

lemma page_grow_returns:
  assumes "unat c < 2 ^ 33" "0 < unat c"
  shows "\<exists>c'. page_grow c need = Some c' \<and> unat c \<le> unat c' \<and> (PAGE_MAX_SIZE < unat c' \<or> need \<le> c')"
  using assms
proof (induction "2 ^ 33 - unat c" arbitrary: c rule: less_induct)
  case less
  show ?case
  proof (cases "unat c \<le> PAGE_MAX_SIZE \<and> c < need")
    case True
    have m: "unat c \<le> 2 ^ 31" using True by (simp add: PAGE_MAX_SIZE_def)
    have s: "unat (c + 1) = unat c + 1" using m by (simp add: unat_word_ariths)
    obtain h where h: "unat (sc_to_pow2 (c + 1)) = 2 ^ Suc h" "2 ^ h < unat (c + 1)"
        "unat (c + 1) \<le> 2 ^ Suc h"
      using sc_to_pow2_val [of "c + 1"] s m less.prems(2) by auto
    have lt: "unat c < unat (sc_to_pow2 (c + 1))" using h(1,3) s by linarith
    have "unat (sc_to_pow2 (c + 1)) < 2 ^ 33" using h(1,2) s m by simp
    moreover have "2 ^ 33 - unat (sc_to_pow2 (c + 1)) < 2 ^ 33 - unat c"
      using lt less.prems(1) by (rule diff_less_mono2)
    moreover have "0 < unat (sc_to_pow2 (c + 1))" using h(1) by simp
    ultimately obtain c' where "page_grow (sc_to_pow2 (c + 1)) need = Some c'"
        "unat (sc_to_pow2 (c + 1)) \<le> unat c'" "PAGE_MAX_SIZE < unat c' \<or> need \<le> c'"
      using less.hyps [of "sc_to_pow2 (c + 1)"] by blast
    then show ?thesis using True lt by (subst page_grow.simps) auto
  next
    case False
    then show ?thesis by (subst page_grow.simps) auto
  qed
qed

text \<open>
  Closing a page and opening its file again. Whatever the entries and what follows them are, the
  page is the same log if it has as many entries as before.
\<close>

lemma log_split_crc:
  obtains es1 es2 where "es = es1 @ es2" "\<forall>e \<in> set es1. crc_nonzero e"
    "es2 \<noteq> [] \<longrightarrow> \<not> crc_nonzero (hd es2)"
  using that [of "takeWhile crc_nonzero es" "dropWhile crc_nonzero es"]
  by (auto simp: hd_dropWhile dest: set_takeWhileD)

lemma init_len_nat:
  "init_len n (int k) = max (max k n) PAGE_INITIAL_SIZE"
  "init_len n (- 1) = max n PAGE_INITIAL_SIZE"
  by (simp_all add: init_len_def max_def)

lemma page_reinit:
  assumes rep: "page_rep p prev es" and f: "f = mem (p_buf p)"
    and n: "len0 \<le> int PAGE_MAX_SIZE" "init_len (length f) len0 < 2 ^ 32"
  shows "\<exists>p'. page_init q (Some (f, d)) MMAP_OK len0 prev0 = Some (RS_OK, p') \<and>
    (page_entry_count p' = length es \<longrightarrow>
      page_rep p' prev es \<and> p_map_len p' = init_len (length f) len0)"
proof -
  note r = page_repD [OF rep]
  obtain es1 es2 where es: "es = es1 @ es2" "\<forall>e \<in> set es1. crc_nonzero e"
      "es2 \<noteq> [] \<longrightarrow> \<not> crc_nonzero (hd es2)"
    by (rule log_split_crc [of es])
  let ?n = "init_len (length f) len0"
  have m: "f = page_header prev @ log_bytes es1 @ log_bytes es2 @ drop (wpos (p_buf p)) f"
    using page_rep_mem [OF rep] es(1) f by simp
  have prev: "prev + length es1 < 2 ^ 64" using r(9) es(1) by simp
  have ok: "\<forall>e \<in> set es1. entry_ok e \<and> crc_nonzero e" using r(12) es by auto
  obtain p' offs where p': "page_init q (Some (f, d)) MMAP_OK len0 prev0 = Some (RS_OK, p')"
    "p_entries p' = entry_offsets 32 es1 @ offs" "mem (p_buf p') = f @ replicate (?n - length f) 0"
    "(log_end ((log_bytes es2 @ drop (wpos (p_buf p)) f) @ replicate (?n - length f) 0) \<or> offs = []) \<and>
      72 + length (log_bytes es1) \<le> ?n \<longrightarrow> page_rep p' prev es1"
    using page_init_recovers [OF m prev ok n, of q d prev0] by (elim exE conjE) (rule that)
  have l: "72 + length (log_bytes es1) \<le> ?n" "length f \<le> ?n"
    using page_rep_wpos [OF rep] r(4,6) es(1) f by (auto simp: init_len_def)
  have "page_rep p' prev es \<and> p_map_len p' = ?n" if c: "page_entry_count p' = length es"
  proof (cases "es2 = []")
    case True
    then have "offs = []" using p'(2) es(1) c by (simp add: page_entry_count_def)
    then have rp: "page_rep p' prev es" using p'(4) l True es(1) by simp
    then show ?thesis using page_repD(4,5) [OF rp] p'(3) l(2) by simp
  next
    case False
    then obtain e es3 where e: "es2 = e # es3" by (cases es2) auto
    have "entry_crc (log_bytes es2 @ x) = PAGE_END_MARK" for x
      using es(3) e by (simp add: entry_fields crc_nonzero_def)
    then have "page_rep p' prev es1" using p'(4) l by (simp add: log_end_def)
    then have "length es1 = length es" using c page_count_rep by metis
    then show ?thesis using e es(1) by simp
  qed
  then show ?thesis using p'(1) by blast
qed

lemma page_init_fails:
  assumes "mm \<noteq> MMAP_OK" "len0 \<le> int PAGE_MAX_SIZE"
  shows "page_init q f mm len0 prev0 =
    Some (if mm = MMAP_ENOSPC then RS_FULL else RS_ERROR, q\<lparr>p_init := False\<rparr>)"
  using assms by (cases mm) (auto simp: page_init_def Let_def split: option.split)

lemma page_rep_same:
  assumes "page_rep p prev es" "page_rep p' prev es"
  shows "p_prev_index p' = prev \<and> page_last_index p' = page_last_index p"
  using page_repD(8) [OF assms(2)] page_last_index_rep [OF assms(1)] page_last_index_rep [OF assms(2)]
  by simp

lemma page_reserve_keeps:
  assumes rep: "page_rep p prev es" and sz: "sz < 2 ^ 32"
  shows "\<exists>rc p'. page_reserve p sz mm1 mm2 = Some (rc, p') \<and>
    (rc = RS_OK \<or> rc = RS_FULL \<longrightarrow> page_rep p' prev es) \<and> (rc = RS_OK \<longrightarrow> sz \<le> page_quota p')"
proof (cases "sz \<le> page_quota p")
  case True
  then show ?thesis using rep by (simp add: page_reserve_def)
next
  case False
  note r = page_repD [OF rep]
  have cap: "p_map_len p < 2 ^ 32" "72 \<le> p_map_len p"
    using r(5,6) sc_buf_wfD(4) [OF r(1)] page_rep_wpos [OF rep] by simp_all
  have q: "page_quota p = p_map_len p - wpos (p_buf p) - 40" using page_quota_rep [OF rep] r(5) by simp
  let ?need = "wpos (p_buf p) + 40 + sz"
  have need: "add64 (sub64 (p_map_len p) (page_quota p)) sz = ?need"
    using q r(5,6) cap sz by simp
  obtain c where c: "page_grow (word_of_nat (p_map_len p)) (word_of_nat ?need) = Some c"
      "p_map_len p \<le> unat c" "PAGE_MAX_SIZE < unat c \<or> word_of_nat ?need \<le> c"
    using page_grow_returns [of "word_of_nat (p_map_len p)" "word_of_nat ?need"] cap by auto
  show ?thesis
  proof (cases "PAGE_MAX_SIZE < unat c")
    case True
    then show ?thesis using c(1) need False rep by (simp add: page_reserve_def)
  next
    case small: False
    let ?t = "page_fsync p (page_last_index p)"
    let ?q = "?t\<lparr>p_entries := [], p_map_len := 0\<rparr>"
    let ?f = "mem (p_buf p)"
    have t: "page_term p = (Some (?f, p_disk ?t), ?q)" using r(7) by (simp add: page_term_def Let_def)
    have nc: "?need \<le> unat c"
    proof -
      have "?need < 2 ^ 64" using r(6) sc_buf_wfD(4) [OF r(1)] sz by simp
      then have "unat (word_of_nat ?need :: u64) = ?need" by (rule unat_word_of_nat_small)
      then show ?thesis using c(3) small unfolding word_le_nat_alt by metis
    qed
    have lf: "length ?f = p_map_len p" using r(4,5) by simp
    have i1: "init_len (length ?f) (int (unat c)) < 2 ^ 32" "init_len (length ?f) (- 1) < 2 ^ 32"
      unfolding init_len_nat using lf c(2) cap small
      by (simp_all add: PAGE_MAX_SIZE_def PAGE_INITIAL_SIZE_def)
    have i0: "int (unat c) \<le> int PAGE_MAX_SIZE" using small by (simp only: of_nat_le_iff not_less)
    obtain p1 where p1: "page_init ?q (Some (?f, p_disk ?t)) MMAP_OK (int (unat c)) prev = Some (RS_OK, p1)"
        "page_entry_count p1 = length es \<longrightarrow>
          page_rep p1 prev es \<and> p_map_len p1 = max (max (unat c) (length ?f)) PAGE_INITIAL_SIZE"
      using page_reinit [OF rep refl i0 i1(1), of ?q "p_disk ?t" prev]
      unfolding init_len_nat by (elim exE conjE) (rule that)
    let ?q1 = "?q\<lparr>p_init := False\<rparr>"
    obtain p2 where p2: "page_init ?q1 (Some (?f, p_disk ?t)) MMAP_OK (- 1) prev = Some (RS_OK, p2)"
        "page_entry_count p2 = length es \<Longrightarrow> page_rep p2 prev es"
      using page_reinit [OF rep refl _ i1(2), of ?q1 "p_disk ?t" prev] by auto
    have q1: "page_entry_count p1 = length es \<Longrightarrow> sz \<le> page_quota p1"
      using p1(2) page_quota_rep [of p1 prev es] page_rep_wpos [OF rep] page_rep_wpos [of p1 prev es]
        page_repD(5) [of p1 prev es] nc by (simp add: max_def split: if_splits)
    note c' = c(1) need False small t r(8) page_count_rep [OF rep]
    note same = page_rep_same [OF rep]
    show ?thesis
    proof (cases "mm1 = MMAP_OK")
      case True
      then show ?thesis
        using c' p1 q1 same [of p1] by (cases "page_entry_count p1 = length es") (simp_all add: page_reserve_def)
    next
      case False
      note g = page_init_fails [OF False i0]
      show ?thesis
      proof (cases "mm2 = MMAP_OK")
        case True
        then show ?thesis using c' g p2 same [of p2]
          by (cases "page_entry_count p2 = length es") (simp_all add: page_reserve_def)
      next
        case mm2: False
        then show ?thesis using c' g page_init_fails [OF mm2, of "- 1"] by (simp add: page_reserve_def)
      qed
    qed
  qed
qed

section \<open>The interface of a page\<close>

text \<open>A log that starts after the index \<open>prev\<close>, and reading it.\<close>

definition log_at :: "nat \<Rightarrow> 'e list \<Rightarrow> nat \<Rightarrow> 'e option" where
  "log_at prev es i = (if prev < i \<and> i \<le> prev + length es then Some (es ! (i - prev - 1)) else None)"

lemma log_at_Nil [simp]: "log_at prev [] i = None"
  by (simp add: log_at_def)

lemma log_at_append:
  "log_at prev (es @ fs) i =
     (case log_at prev es i of None \<Rightarrow> log_at (prev + length es) fs i | Some e \<Rightarrow> Some e)"
  by (auto simp: log_at_def nth_append not_le)

lemma log_at_take: "log_at prev (take (k - prev) es) i = (if i \<le> k then log_at prev es i else None)"
  by (auto simp: log_at_def)

text \<open>The second page follows the first: it is empty, or it starts where the first one ends.\<close>

definition follows ::
    "('p \<Rightarrow> nat \<Rightarrow> 'e list \<Rightarrow> bool) \<Rightarrow> 'p \<Rightarrow> 'p \<Rightarrow> nat \<Rightarrow> 'e list \<Rightarrow> 'e list \<Rightarrow> bool" where
  "follows rep p0 p1 prev es0 es1 \<longleftrightarrow>
     rep p0 prev es0 \<and> (\<exists>prev1. rep p1 prev1 es1 \<and> (es1 = [] \<or> prev1 = prev + length es0))"

locale log_page =
  fixes rep :: "'p \<Rightarrow> nat \<Rightarrow> 'e list \<Rightarrow> bool"
    and entry_at :: "'p \<Rightarrow> nat \<Rightarrow> 'e option"
    and add :: "'p \<Rightarrow> 'e \<Rightarrow> 'p"
    and fits :: "'p \<Rightarrow> 'e \<Rightarrow> bool"
    and remove_after :: "'p \<Rightarrow> nat \<Rightarrow> 'p"
    and last_index :: "'p \<Rightarrow> nat"
    and isempty :: "'p \<Rightarrow> bool"
  assumes rep_entry_at: "rep p prev es \<Longrightarrow> entry_at p i = log_at prev es i"
    and rep_add: "rep p prev es \<Longrightarrow> fits p e \<Longrightarrow> prev + Suc (length es) < 2 ^ 64 \<Longrightarrow>
      rep (add p e) prev (es @ [e])"
    and rep_remove_after: "rep p prev es \<Longrightarrow> i + 1 < 2 ^ 64 \<Longrightarrow>
      rep (remove_after p i) prev (take (i - prev) es)"
    and rep_last_index: "rep p prev es \<Longrightarrow> last_index p = prev + length es"
    and rep_isempty: "rep p prev es \<Longrightarrow> isempty p = (es = [])"
begin

lemma lookup_both:
  assumes "follows rep p0 p1 prev es0 es1"
  shows "(case entry_at p0 i of None \<Rightarrow> entry_at p1 i | Some e \<Rightarrow> Some e) = log_at prev (es0 @ es1) i"
proof -
  obtain prev1 where r: "rep p0 prev es0" "rep p1 prev1 es1" "es1 = [] \<or> prev1 = prev + length es0"
    using assms by (auto simp: follows_def)
  show ?thesis
    unfolding rep_entry_at [OF r(1)] rep_entry_at [OF r(2)] log_at_append using r(3)
    by (auto split: option.split)
qed

lemma remove_after_both:
  assumes "follows rep p0 p1 prev es0 es1" "i + 1 < 2 ^ 64"
  shows "follows rep (remove_after p0 i) (remove_after p1 i) prev (take (i - prev) es0)
    (take (i - prev - length es0) es1)"
proof -
  obtain prev1 where r: "rep p0 prev es0" "rep p1 prev1 es1" "es1 = [] \<or> prev1 = prev + length es0"
    using assms(1) by (auto simp: follows_def)
  have "rep (remove_after p1 i) prev1 (take (i - prev - length es0) es1)"
    using rep_remove_after [OF r(2) assms(2)] r(3) by (auto simp: diff_diff_eq)
  moreover have "take (i - prev - length es0) es1 = [] \<or> prev1 = prev + length (take (i - prev) es0)"
    using r(3) by auto
  ultimately show ?thesis using rep_remove_after [OF r(1) assms(2)] by (auto simp: follows_def)
qed

lemma add_second:
  assumes "rep p0 prev es0" "rep p1 (prev + length es0) es1" "fits p1 e"
    "prev + length es0 + Suc (length es1) < 2 ^ 64"
  shows "follows rep p0 (add p1 e) prev es0 (es1 @ [e])" "rep (add p1 e) (prev + length es0) (es1 @ [e])"
  using rep_add [OF assms(2,3)] assms(1,4) by (auto simp: follows_def)

end

text \<open>The entry a pointer into the page refers to.\<close>

definition page_entry :: "page \<Rightarrow> nat \<Rightarrow> entry option" where
  "page_entry p i = map_option (\<lambda>off. decode_entry (drop off (mem (p_buf p)))) (page_entry_at p i)"

definition page_fits :: "page \<Rightarrow> entry \<Rightarrow> bool" where
  "page_fits p e \<longleftrightarrow> entry_ok e \<and> entry_size e \<le> page_quota p"

definition page_create :: "page \<Rightarrow> entry \<Rightarrow> page" where
  "page_create p e = page_create_entry p (e_term e) (e_seq e) (e_cid e) (e_flags e) (e_data e)"

interpretation created: log_page page_rep page_entry page_create page_fits page_remove_after
  page_last_index page_isempty
  by unfold_locales
    (simp_all add: page_entry_def page_entry_at_decode log_at_def page_create_def page_fits_def
      page_create_entry_rep page_remove_after_rep page_last_index_rep page_isempty_rep)

interpretation copied: log_page page_rep page_entry "\<lambda>p e. page_put_entry p (entry_bytes e)" page_fits
  page_remove_after page_last_index page_isempty
  using page_put_entry_rep [where rest = "[]"]
  by unfold_locales
    (simp_all add: created.rep_entry_at page_fits_def created.rep_remove_after created.rep_last_index
      created.rep_isempty)

section \<open>A page refines a list\<close>

datatype page_op = Create entry | Put entry | Remove_after nat | Fsync nat

fun page_do :: "page_op \<Rightarrow> page \<Rightarrow> page" where
  "page_do (Create e) p = (if entry_size e \<le> page_quota p then page_create p e else p)"
| "page_do (Put e) p = (if entry_size e \<le> page_quota p then page_put_entry p (entry_bytes e) else p)"
| "page_do (Remove_after i) p = page_remove_after p i"
| "page_do (Fsync i) p = page_fsync p i"

fun log_do :: "nat \<Rightarrow> nat \<Rightarrow> page_op \<Rightarrow> entry list \<Rightarrow> entry list" where
  "log_do n prev (Create e) es = (if 72 + length (log_bytes (es @ [e])) \<le> n then es @ [e] else es)"
| "log_do n prev (Put e) es = (if 72 + length (log_bytes (es @ [e])) \<le> n then es @ [e] else es)"
| "log_do n prev (Remove_after i) es = take (i - prev) es"
| "log_do n prev (Fsync i) es = es"

fun page_op_ok :: "page_op \<Rightarrow> bool" where
  "page_op_ok (Create e) = entry_ok e"
| "page_op_ok (Put e) = entry_ok e"
| "page_op_ok (Remove_after i) = (i + 1 < 2 ^ 64)"
| "page_op_ok (Fsync i) = True"

lemma page_fits_bytes:
  assumes "page_rep p prev es"
  shows "entry_size e \<le> page_quota p \<longleftrightarrow> 72 + length (log_bytes (es @ [e])) \<le> cap (p_buf p)"
  using page_quota_rep [OF assms] page_rep_wpos [OF assms] page_repD(6) [OF assms]
  by (auto simp: length_entry_bytes)

lemma page_do_rep:
  assumes "page_rep p prev es" "page_op_ok a" "prev + Suc (length es) < 2 ^ 64"
  shows "page_rep (page_do a p) prev (log_do (cap (p_buf p)) prev a es)"
    "length (log_do (cap (p_buf p)) prev a es) \<le> Suc (length es)"
  using assms created.rep_add [OF assms(1)] copied.rep_add [OF assms(1)]
    created.rep_remove_after [OF assms(1)]
  by (cases a; simp add: page_fits_def page_fits_bytes [OF assms(1)])+

lemma page_map_len_frame [simp]:
  "p_map_len (page_create p e) = p_map_len p" "p_map_len (page_put_entry p d) = p_map_len p"
  "p_map_len (page_clear p prev) = p_map_len p" "p_map_len (page_remove_after p i) = p_map_len p"
  by (simp_all add: page_create_def page_create_entry_def page_put_entry_def page_clear_def
      page_remove_after_def Let_def split: option.split)

lemma page_do_cap:
  assumes "page_rep p prev es" "page_op_ok a" "prev + Suc (length es) < 2 ^ 64"
  shows "cap (p_buf (page_do a p)) = cap (p_buf p)"
proof -
  have "p_map_len (page_do a p) = p_map_len p" by (cases a) simp_all
  then show ?thesis using page_repD(5) [OF assms(1)] page_repD(5) [OF page_do_rep(1) [OF assms]] by simp
qed

lemma page_run_rep:
  assumes "page_rep p prev es" "\<forall>a \<in> set ops. page_op_ok a" "prev + length es + length ops < 2 ^ 64"
  shows "page_rep (fold page_do ops p) prev (fold (log_do (cap (p_buf p)) prev) ops es)"
  using assms
proof (induction ops arbitrary: p es)
  case (Cons a ops)
  have a: "page_op_ok a" "prev + Suc (length es) < 2 ^ 64" using Cons.prems by simp_all
  note d = page_do_rep [OF Cons.prems(1) a] page_do_cap [OF Cons.prems(1) a]
  show ?case using Cons.IH [OF d(1)] Cons.prems(2,3) d(2,3) by simp
qed simp

text \<open>An empty page in a mapping of \<open>n\<close> zeros.\<close>

definition blank_page :: "nat \<Rightarrow> nat \<Rightarrow> page" where
  "blank_page n prev = page_clear
     \<lparr>p_init = True, p_map_len = n, p_psize = 4096, p_prev_index = 0, p_flush_pos = 0,
      p_flush_index = 0, p_buf = sc_buf_wrap (replicate n 0) n SC_BUF_REF, p_entries = [],
      p_disk = replicate n 0\<rparr> prev"

lemma blank_page_rep:
  assumes "72 \<le> n" "n < 2 ^ 32" "prev < 2 ^ 64"
  shows "page_rep (blank_page n prev) prev []" "cap (p_buf (blank_page n prev)) = n"
proof -
  show r: "page_rep (blank_page n prev) prev []"
    unfolding blank_page_def using assms by (intro page_clear_rep) (simp_all add: sc_buf_wrap_def)
  show "cap (p_buf (blank_page n prev)) = n"
    using page_repD(5) [OF r] by (simp add: blank_page_def)
qed

text \<open>
  C24: A page is a list of entries. Creating, copying, truncating and flushing in any order does to the
  entries what the same operations do to a list whose bytes are bounded by the capacity of the page;
  reading any index returns the entry of the list at that index, and nothing outside it.
\<close>

theorem page_refines_log:
  assumes "page_rep p prev es" "\<forall>a \<in> set ops. page_op_ok a" "prev + length es + length ops < 2 ^ 64"
  defines "p' \<equiv> fold page_do ops p" and "es' \<equiv> fold (log_do (cap (p_buf p)) prev) ops es"
  shows "page_rep p' prev es' \<and> (\<forall>i. page_entry p' i = log_at prev es' i) \<and>
    page_last_index p' = prev + length es' \<and> page_isempty p' = (es' = []) \<and>
    page_entry_count p' = length es'"
proof -
  have "page_rep p' prev es'" unfolding p'_def es'_def using assms(1-3) by (rule page_run_rep)
  then show ?thesis
    using created.rep_entry_at created.rep_last_index created.rep_isempty page_count_rep by blast
qed

theorem page_refines_log_witness:
  "let e = \<lparr>e_term = 3, e_seq = 1, e_cid = 2, e_flags = 0, e_data = [7]\<rparr>;
       p = fold page_do [Create e, Put (e\<lparr>e_term := 4\<rparr>), Remove_after 11, Put (e\<lparr>e_term := 5\<rparr>)]
             (blank_page 200 10)
   in page_entry p 11 = Some e \<and> page_entry p 12 = Some (e\<lparr>e_term := 5\<rparr>) \<and> page_entry p 13 = None \<and>
      page_last_index p = 12"
proof -
  let ?e = "\<lparr>e_term = 3, e_seq = 1, e_cid = 2, e_flags = 0, e_data = [7]\<rparr>"
  let ?ops = "[Create ?e, Put (?e\<lparr>e_term := 4\<rparr>), Remove_after 11, Put (?e\<lparr>e_term := 5\<rparr>)]"
  have r: "page_rep (blank_page 200 10) 10 []" "cap (p_buf (blank_page 200 10)) = 200"
    using blank_page_rep [of 200 10] by simp_all
  have ok: "\<forall>a \<in> set ?ops. page_op_ok a" by (simp add: entry_ok_def entry_size_def)
  have l: "10 + length ([] :: entry list) + length ?ops < 2 ^ 64" by simp
  have es: "fold (log_do 200 10) ?ops [] = [?e, ?e\<lparr>e_term := 5\<rparr>]"
    by (simp add: length_entry_bytes entry_size_def)
  define p where "p = fold page_do ?ops (blank_page 200 10)"
  show ?thesis
    using page_refines_log [OF r(1) ok l, unfolded r(2) es, folded p_def]
    unfolding p_def [symmetric] Let_def by (simp add: log_at_def)
qed

section \<open>Evaluating checksums\<close>

lemma crc_bits_8:
  "crc_bits 8 c = crc_bit (crc_bit (crc_bit (crc_bit (crc_bit (crc_bit (crc_bit (crc_bit c)))))))"
  by (simp add: eval_nat_numeral)

lemma crc_bit_literal:
  "crc_bit (numeral k) =
     (if (numeral k :: u32) AND 1 \<noteq> 0 then drop_bit 1 (numeral k) XOR POLY else drop_bit 1 (numeral k))"
  "crc_bit 1 = POLY" "crc_bit 0 = 0"
  by (simp_all add: crc_bit_def)

lemma foldl_literal:
  "foldl f (numeral k :: u32) (b # bs) = foldl f (f (numeral k) b) bs"
  "foldl f (0 :: u32) (b # bs) = foldl f (f 0 b) bs"
  "foldl f (1 :: u32) (b # bs) = foldl f (f 1 b) bs"
  by simp_all

lemma crc32c_start:
  "sc_crc32 0 bs = NOT (foldl (\<lambda>c b. crc_bits 8 (c XOR ucast b)) 0xFFFFFFFF bs)"
proof -
  have "NOT 0 = (0xFFFFFFFF :: u32)" by simp
  then show ?thesis by (simp only: sc_crc32_ref crc32c_ref_def)
qed

lemmas crc_eval = crc32c_start foldl_literal POLY_def crc_bits_8 crc_bit_literal
  entry_body_def entry_size_def le32_def le64_def

section \<open>What recovery and flushing guarantee\<close>

text \<open>
  \<^verbatim>\<open>page_reserve\<close> returns. When it reports success or that it cannot grow, every entry of
  the page is still there and nothing else is; on success an entry of the requested size fits.
\<close>

theorem page_reserve_keeps_log:
  assumes "page_rep p prev es" "sz < 2 ^ 32"
  shows "\<exists>rc p'. page_reserve p sz mm1 mm2 = Some (rc, p') \<and>
    (rc = RS_OK \<or> rc = RS_FULL \<longrightarrow> page_rep p' prev es \<and> (\<forall>i. page_entry p' i = page_entry p i)) \<and>
    (rc = RS_OK \<longrightarrow> sz \<le> page_quota p')"
  using page_reserve_keeps [OF assms, of mm1 mm2] created.rep_entry_at [OF assms(1)]
    created.rep_entry_at
  by metis

theorem page_reserve_keeps_log_witness:
  "\<exists>rc p'. page_reserve (blank_page 200 10) 5000 MMAP_OK MMAP_OK = Some (rc, p') \<and>
     (rc = RS_OK \<longrightarrow> 5000 \<le> page_quota p')"
  using page_reserve_keeps_log [of "blank_page 200 10" 10 "[]" 5000 MMAP_OK MMAP_OK]
    blank_page_rep [of 200 10] by auto

text \<open>
  \<^verbatim>\<open>page_get_entries\<close> returns the packed bytes of consecutive entries starting at the index it is
  asked for: at least one entry, and no more than it takes to reach the limit.
\<close>

lemma page_get_entries_rep:
  assumes "page_rep p prev es" "prev < i" "i \<le> prev + length es"
  shows "\<exists>off k. page_get_entries p i lim =
      (Some off, length (log_bytes (take k (drop (i - prev - 1) es))), k) \<and>
    slice (mem (p_buf p)) off (length (log_bytes (take k (drop (i - prev - 1) es)))) =
      log_bytes (take k (drop (i - prev - 1) es)) \<and>
    0 < k \<and> k \<le> length es - (i - prev - 1) \<and>
    (\<forall>j. 0 < j \<longrightarrow> j < k \<longrightarrow> length (log_bytes (take j (drop (i - prev - 1) es))) < lim) \<and>
    (k < length es - (i - prev - 1) \<longrightarrow> lim \<le> length (log_bytes (take k (drop (i - prev - 1) es))))"
proof -
  note r = page_repD [OF assms(1)]
  let ?j = "i - prev - 1"
  let ?es = "drop ?j es" and ?m = "mem (p_buf p)" and ?off = "entry_offsets 32 es ! ?j"
  have j: "?j < length es" using assms(2,3) by simp
  have off: "?off = 32 + length (log_bytes (take ?j es))" using entry_offsets_nth [OF j] by simp
  have d: "drop ?off ?m = log_bytes ?es @ drop (wpos (p_buf p)) ?m"
    unfolding off by (rule page_rep_drop [OF assms(1)])
  have offs: "drop ?j (p_entries p) = entry_offsets ?off ?es"
    using entry_offsets_append [of 32 "take ?j es" "drop ?j es"] j r(11) off by simp
  have "length (log_bytes es) < 2 ^ 32"
    using page_rep_wpos [OF assms(1)] r(6) sc_buf_wfD(4) [OF r(1)] by simp
  then have l: "0 + length (log_bytes ?es) < 2 ^ 32"
    using log_bytes_simps(3) [of "take ?j es" ?es] by simp
  have ok: "\<forall>e \<in> set ?es. entry_ok e" using r(12) by (auto dest: in_set_dropD)
  obtain k where k: "k \<le> length ?es" "page_get_loop ?m (entry_offsets ?off ?es) lim 0 0 =
      (0 + length (log_bytes (take k ?es)), 0 + k)" "?es \<noteq> [] \<longrightarrow> 0 < k"
      "\<forall>j. 0 < j \<longrightarrow> j < k \<longrightarrow> 0 + length (log_bytes (take j ?es)) < lim"
      "k < length ?es \<longrightarrow> lim \<le> 0 + length (log_bytes (take k ?es))"
    using page_get_loop_run [OF ok d l, of lim 0] by blast
  have g: "page_get_entries p i lim = (Some ?off, length (log_bytes (take k ?es)), k)"
    using assms(2,3) r(8,9,11) k(2) offs by (simp add: page_get_entries_def Let_def)
  have "log_bytes ?es = log_bytes (take k ?es) @ log_bytes (drop k ?es)"
    by (simp only: log_bytes_simps(3) [symmetric] append_take_drop_id)
  then have "slice ?m ?off (length (log_bytes (take k ?es))) = log_bytes (take k ?es)"
    unfolding slice_def d by simp
  then show ?thesis using g k j by (intro exI [of _ ?off] exI [of _ k]) simp
qed


lemma page_create_frame [simp]:
  "p_flush_pos (page_create p e) = p_flush_pos p" "p_flush_index (page_create p e) = p_flush_index p"
  "p_disk (page_create p e) = p_disk p" "p_psize (page_create p e) = p_psize p"
  by (simp_all add: page_create_def page_create_entry_def Let_def)

lemma blank_page_frame [simp]:
  "p_flush_pos (blank_page n prev) = 0" "p_flush_index (blank_page n prev) = 0"
  "p_disk (blank_page n prev) = replicate n 0" "p_psize (blank_page n prev) = 4096"
  by (simp_all add: blank_page_def page_clear_def Let_def)

lemma page_rep_length:
  assumes "page_rep p prev es" "p_map_len p = n"
  shows "length (mem (p_buf p)) = n" "cap (p_buf p) = n"
  using page_repD(4,5) [OF assms(1)] assms(2) by simp_all

lemma blank_page_len [simp]: "p_map_len (blank_page n prev) = n"
  by (simp add: blank_page_def)

lemma blank_create_rep:
  assumes "72 + entry_size e \<le> n" "n < 2 ^ 32" "prev + 1 < 2 ^ 64"
  shows "page_rep (page_create (blank_page n prev) e) prev [e]"
proof -
  have b: "page_rep (blank_page n prev) prev []" "cap (p_buf (blank_page n prev)) = n"
    using blank_page_rep [of n prev] assms by simp_all
  show ?thesis
    using created.rep_add [OF b(1), of e] page_fits_bytes [OF b(1), of e] b(2) assms
    by (simp add: page_fits_def entry_ok_def length_entry_bytes)
qed


text \<open>
  Truncating a page keeps the index up to which it was flushed. When the truncated entries had
  been flushed, the entry that replaces the first of them is not: \<^verbatim>\<open>page_fsync\<close> returns at
  once, and stable storage stays as it was.
\<close>

theorem page_fsync_skips_rewritten:
  assumes "page_rep p prev es" "prev < i" "i < prev + length es" "i + 1 < 2 ^ 64"
    and "i + 1 \<le> p_flush_index p"
  shows "let p' = page_create (page_remove_after p i) e
    in page_fsync p' (i + 1) = p' \<and> p_disk p' = p_disk p"
proof -
  have f: "p_flush_index (page_remove_after p i) = p_flush_index p \<and>
      p_disk (page_remove_after p i) = p_disk p"
    using assms page_repD(8) [OF assms(1)]
    by (auto simp: page_remove_after_def page_fsync_def Let_def split: option.split)
  then show ?thesis using assms(5) by (simp add: page_fsync_def Let_def)
qed

theorem page_fsync_skips_rewritten_witness:
  "let e = \<lparr>e_term = 3, e_seq = 1, e_cid = 2, e_flags = 0, e_data = [7]\<rparr>;
       p = page_fsync (page_create (page_create (blank_page 200 10) e) e) 12;
       p' = page_create (page_remove_after p 11) (e\<lparr>e_term := 4\<rparr>)
   in page_fsync p' 12 = p' \<and> p_disk p' = p_disk p"
proof -
  let ?e = "\<lparr>e_term = 3, e_seq = 1, e_cid = 2, e_flags = 0, e_data = [7]\<rparr>"
  let ?p = "page_create (page_create (blank_page 200 10) ?e) ?e"
  have r1: "page_rep (page_create (blank_page 200 10) ?e) 10 [?e]"
    by (rule blank_create_rep) (simp_all add: entry_size_def)
  have "page_fits (page_create (blank_page 200 10) ?e) ?e"
    using page_fits_bytes [OF r1, of ?e] page_rep_length [OF r1]
    by (simp add: page_fits_def entry_ok_def entry_size_def length_entry_bytes)
  then have r: "page_rep ?p 10 [?e, ?e]" using created.rep_add [OF r1, of ?e] by simp
  have "wpos (p_buf ?p) = 106" using page_rep_wpos [OF r] by (simp add: length_entry_bytes entry_size_def)
  then have f: "12 \<le> p_flush_index (page_fsync ?p 12)"
    using page_last_index_rep [OF r] page_repD(8) [OF r] by (simp add: page_fsync_def Let_def)
  have "page_rep (page_fsync ?p 12) 10 [?e, ?e]" using r by simp
  then show ?thesis
    using page_fsync_skips_rewritten [of "page_fsync ?p 12" 10 "[?e, ?e]" 11 "?e\<lparr>e_term := 4\<rparr>"] f
    by (simp add: Let_def)
qed

text \<open>
  An entry whose checksum is zero ends the log. The checksum comes first in an entry and zero is
  the end mark, so when a page that holds such an entry is opened again, that entry and all that
  follow it are gone.
\<close>

theorem zero_crc_ends_log:
  assumes "page_rep p prev (es @ e # fs)" "\<forall>e \<in> set es. crc_nonzero e"
    and "sc_crc32 0 (entry_body e) = PAGE_END_MARK" "PAGE_INITIAL_SIZE \<le> p_map_len p"
  shows "\<exists>p'. page_init q (Some (mem (p_buf p), d)) MMAP_OK (- 1) prev0 = Some (RS_OK, p') \<and>
    page_rep p' prev es"
proof -
  note r = page_repD [OF assms(1)]
  let ?f = "mem (p_buf p)" and ?r = "log_bytes (e # fs) @ drop (wpos (p_buf p)) (mem (p_buf p))"
  have f: "?f = page_header prev @ log_bytes es @ ?r" using page_rep_mem [OF assms(1)] by simp
  have n: "init_len (length ?f) (- 1) = length ?f" "length ?f < 2 ^ 32"
    using assms(4) r(4,5) sc_buf_wfD(4) [OF r(1)] by (simp_all add: init_len_nat)
  have "entry_crc ?r = PAGE_END_MARK" using assms(3) by (simp add: entry_fields)
  then have le: "log_end ?r" by (simp add: log_end_def)
  have "72 + length (log_bytes es) \<le> length ?f"
    using page_rep_wpos [OF assms(1)] r(4,6) by simp
  then show ?thesis
    using page_init_recovers [OF f, of "- 1" q d prev0] assms(2) r(9,12) n le by auto
qed

theorem zero_crc_ends_log_witness:
  "let e = \<lparr>e_term = 1, e_seq = 0, e_cid = 0, e_flags = 0, e_data = [43, 143, 225, 246]\<rparr>;
       p = page_create (blank_page PAGE_INITIAL_SIZE 10) e
   in page_entry p 11 = Some e \<and>
      (\<exists>p'. page_init p (Some (mem (p_buf p), mem (p_buf p))) MMAP_OK (- 1) 0 = Some (RS_OK, p') \<and>
        page_entry p' 11 = None)"
proof -
  let ?e = "\<lparr>e_term = 1, e_seq = 0, e_cid = 0, e_flags = 0, e_data = [43, 143, 225, 246]\<rparr>"
  let ?p = "page_create (blank_page PAGE_INITIAL_SIZE 10) ?e"
  have r: "page_rep ?p 10 [?e]" by (rule blank_create_rep) (simp_all add: entry_size_def PAGE_INITIAL_SIZE_def)
  have c: "sc_crc32 0 (entry_body ?e) = PAGE_END_MARK" unfolding PAGE_END_MARK_def
    by (simp add: crc_eval del: foldl_Cons)
  obtain p' where p': "page_init ?p (Some (mem (p_buf ?p), mem (p_buf ?p))) MMAP_OK (- 1) 0 = Some (RS_OK, p')"
    "page_rep p' 10 []"
    using zero_crc_ends_log [of ?p 10 "[]" ?e "[]" ?p "mem (p_buf ?p)" 0] r c by auto
  then show ?thesis
    using created.rep_entry_at [OF r] created.rep_entry_at [OF p'(2)] by (auto simp: Let_def log_at_def)
qed

text \<open>
  A flush can leave the end of the log behind. \<^verbatim>\<open>sc_mmap_msync\<close> moves the start of the
  range down to a page boundary without adding the distance to its length, so the last bytes may lie
  beyond the range. Two entries that are created and flushed one after the other: the page records
  both as flushed, a further flush does nothing, and stable storage does not hold the second one.
\<close>

theorem page_fsync_misses_tail:
  "\<exists>e1 e2. let p = page_fsync (page_create (page_fsync (page_create (blank_page PAGE_INITIAL_SIZE 0) e1) 1) e2) 2
     in page_rep p 0 [e1, e2] \<and> p_flush_index p = 2 \<and> page_fsync p 2 = p \<and>
        \<not> stable p (length (log_bytes [e1, e2]))"
proof -
  define e1 where "e1 = \<lparr>e_term = 1, e_seq = 0, e_cid = 0, e_flags = 0, e_data = replicate 3964 (0 :: u8)\<rparr>"
  define e2 where "e2 = \<lparr>e_term = 1, e_seq = 0, e_cid = 0, e_flags = 0, e_data = replicate 30 (1 :: u8)\<rparr>"
  let ?n = PAGE_INITIAL_SIZE
  let ?p1 = "page_create (blank_page ?n 0) e1"
  let ?p2 = "page_create (page_fsync ?p1 1) e2"
  have s: "length (log_bytes [e1]) = 4000" "length (log_bytes [e1, e2]) = 4066"
    by (simp_all add: e1_def e2_def length_entry_bytes entry_size_def)
  have r1: "page_rep ?p1 0 [e1]" by (rule blank_create_rep) (simp_all add: e1_def entry_size_def PAGE_INITIAL_SIZE_def)
  have r1': "page_rep (page_fsync ?p1 1) 0 [e1]" using r1 by simp
  have "page_fits (page_fsync ?p1 1) e2"
    using page_fits_bytes [OF r1', of e2] page_rep_length [OF r1'] s
    by (simp add: page_fits_def entry_ok_def entry_size_def PAGE_INITIAL_SIZE_def) (simp add: e2_def)
  then have r2: "page_rep ?p2 0 [e1, e2]" using created.rep_add [OF r1', of e2] by simp
  note st = page_fsync_stable [OF r1] and fl1 = page_fsync_flushes [OF r1]
  have w1: "wpos (p_buf ?p1) = 4032" "length (mem (p_buf ?p1)) = ?n" "page_last_index ?p1 = 1"
    using page_rep_wpos [OF r1] page_rep_length [OF r1] page_last_index_rep [OF r1] s by simp_all
  have w2: "wpos (p_buf ?p2) = 4098" "length (mem (p_buf ?p2)) = ?n" "page_last_index ?p2 = 2"
    using page_rep_wpos [OF r2] page_rep_length [OF r2] page_last_index_rep [OF r2] s by simp_all
  let ?d1 = "sc_mmap_msync 4096 (mem (p_buf ?p1)) (replicate ?n 0) 0 4032"
  let ?d2 = "sc_mmap_msync 4096 (mem (p_buf ?p2)) ?d1 4032 66"
  have p1: "p_disk (page_fsync ?p1 1) = ?d1" "p_flush_pos (page_fsync ?p1 1) = 4032"
      "p_flush_index (page_fsync ?p1 1) = 1"
    using fl1 w1 by simp_all
  have "stable (page_fsync ?p1 1) 4000" using st w1 s by (simp add: sync_end_def)
  then have "length ?d1 = ?n" "take 4032 ?d1 = take 4032 (mem (p_buf ?p1))"
    using p1 w1 by (simp_all add: stable_def)
  moreover have "take 4032 (mem (p_buf ?p1)) = take 4032 (mem (p_buf ?p2))"
    by (subst page_rep_mem [OF r1], subst page_rep_mem [OF r2])
      (use s in \<open>simp add: length_entry_bytes\<close>)
  ultimately have d1: "length ?d1 = length (mem (p_buf ?p2))"
      "take 4032 ?d1 = take 4032 (mem (p_buf ?p2))"
    using w2 by simp_all
  have dz: "drop 4096 ?d2 = drop 4096 (replicate ?n 0)"
    using msync_range(2) [OF _ d1, of 4096 66]
      msync_range(2) [of 4096 "replicate ?n 0" "mem (p_buf ?p1)" 0 4032] w1 by simp
  have p2: "page_fsync ?p2 2 = ?p2\<lparr>p_disk := ?d2, p_flush_pos := 4098, p_flush_index := 2\<rparr>"
    using page_fsync_flushes [OF r2] w2 p1 by simp
  have "drop 4096 (take 4098 ?d2) = [0, 0]"
    using dz by (simp add: drop_take PAGE_INITIAL_SIZE_def numeral_2_eq_2)
  moreover have "drop 4096 (take 4098 (mem (p_buf ?p2))) = [1, 1]"
  proof -
    have "drop 4096 (take 4098 (mem (p_buf ?p2))) = drop 64 (entry_bytes e2)"
      by (subst page_rep_mem [OF r2])
        (simp add: length_entry_bytes entry_size_def, simp add: e1_def e2_def length_entry_bytes entry_size_def)
    also have "\<dots> = [1, 1]"
      by (simp add: e2_def entry_bytes_def entry_body_def numeral_2_eq_2)
    finally show ?thesis .
  qed
  ultimately have "take 4098 ?d2 \<noteq> take 4098 (mem (p_buf ?p2))" by (metis list.inject zero_neq_one)
  then have "\<not> stable (page_fsync ?p2 2) 4066" unfolding p2 stable_def by simp
  moreover have "page_fsync (page_fsync ?p2 2) 2 = page_fsync ?p2 2"
    unfolding p2 by (simp add: page_fsync_def)
  moreover have "p_flush_index (page_fsync ?p2 2) = 2" unfolding p2 by simp
  moreover have "page_rep (page_fsync ?p2 2) 0 [e1, e2]" using r2 by simp
  ultimately show ?thesis
    unfolding Let_def by (intro exI [of _ e1] exI [of _ e2]) (simp only: s(2) simp_thms)
qed

end
