(* ===== verification/Store.thy ===== *)
theory Store
  imports Page_Log
begin

text \<open>
  The log store, \<^verbatim>\<open>src/store.c\<close>: a log kept in two pages. Entries go to the first page until it
  is full and then to the second one; when a snapshot covers the first page, it is emptied and the
  pages change places. The pointer \<^verbatim>\<open>curr\<close> is modelled by whether it points to the second page;
  a pointer to an entry is the memory of its page from the entry on.
\<close>

section \<open>Definitions\<close>

record store =
  st_ss_index :: nat
  st_ss_term :: u64
  st_p0 :: page
  st_p1 :: page
  st_curr :: bool
  st_last_term :: u64
  st_last_index :: nat

definition st_cur :: "store \<Rightarrow> page" where
  "st_cur s = (if st_curr s then st_p1 s else st_p0 s)"

definition st_set_cur :: "store \<Rightarrow> page \<Rightarrow> store" where
  "st_set_cur s p = (if st_curr s then s\<lparr>st_p1 := p\<rparr> else s\<lparr>st_p0 := p\<rparr>)"

definition store_swap :: "store \<Rightarrow> store" where
  "store_swap s = s\<lparr>st_p0 := st_p1 s, st_p1 := st_p0 s, st_curr := \<not> st_curr s\<rparr>"

text \<open>The part of \<^verbatim>\<open>store_read\<close> that follows the opening of the two files.\<close>

definition store_arrange :: "store \<Rightarrow> store" where
  "store_arrange s =
     (let s = (if page_prev_index (st_p1 s) < page_prev_index (st_p0 s) then store_swap s else s);
          prev = page_prev_index (st_p0 s);
          lst = page_last_index (st_p0 s);
          s = (if prev > st_ss_index s \<or> lst \<le> st_ss_index s
               then s\<lparr>st_p0 := page_clear (st_p0 s) (st_ss_index s)\<rparr> else s);
          s = (if page_prev_index (st_p1 s) \<noteq> page_last_index (st_p0 s)
               then s\<lparr>st_p1 := page_clear (st_p1 s) (st_ss_index s)\<rparr> else s);
          s = (if page_entry_count (st_p0 s) = 0 then store_swap s else s);
          s = s\<lparr>st_curr := page_entry_count (st_p1 s) > 0\<rparr>;
          s = s\<lparr>st_last_index := page_last_index (st_cur s)\<rparr>
      in s\<lparr>st_last_term := (if page_entry_count (st_cur s) \<noteq> 0 then page_last_term (st_cur s)
                             else st_ss_term s)\<rparr>)"

text \<open>
  \<open>f0\<close> and \<open>f1\<close> are the files of the two pages, \<open>m0\<close> and \<open>m1\<close> the results of mapping them.
\<close>

definition store_read ::
    "store \<Rightarrow> (bytes \<times> bytes) option \<Rightarrow> mmap_rc \<Rightarrow> (bytes \<times> bytes) option \<Rightarrow> mmap_rc \<Rightarrow>
      (rs_rc \<times> store) option" where
  "store_read s f0 m0 f1 m1 =
     Option.bind (page_init (st_p0 s) f0 m0 (- 1) (st_ss_index s)) (\<lambda>(rc, p0).
       if rc \<noteq> RS_OK then Some (rc, s\<lparr>st_p0 := snd (page_term p0)\<rparr>)
       else Option.bind (page_init (st_p1 s) f1 m1 (- 1) (st_ss_index s)) (\<lambda>(rc, p1).
         if rc \<noteq> RS_OK then Some (rc, s\<lparr>st_p0 := snd (page_term p0), st_p1 := snd (page_term p1)\<rparr>)
         else Some (RS_OK, store_arrange (s\<lparr>st_p0 := p0, st_p1 := p1\<rparr>))))"

text \<open>\<open>q0\<close> and \<open>q1\<close> are the freshly allocated pages; the result has no store when opening fails.\<close>

definition store_init ::
    "page \<Rightarrow> page \<Rightarrow> u64 \<Rightarrow> nat \<Rightarrow> (bytes \<times> bytes) option \<Rightarrow> mmap_rc \<Rightarrow> (bytes \<times> bytes) option \<Rightarrow>
      mmap_rc \<Rightarrow> (rs_rc \<times> store option) option" where
  "store_init q0 q1 ss_term ss_index f0 m0 f1 m1 =
     map_option (\<lambda>(rc, s). (rc, if rc \<noteq> RS_OK then None else Some s))
       (store_read \<lparr>st_ss_index = ss_index, st_ss_term = ss_term, st_p0 = q0, st_p1 = q1,
         st_curr = False, st_last_term = 0, st_last_index = 0\<rparr> f0 m0 f1 m1)"

text \<open>The files that closing the store leaves behind.\<close>

definition store_term :: "store \<Rightarrow> (bytes \<times> bytes) option \<times> (bytes \<times> bytes) option" where
  "store_term s = (fst (page_term (st_p0 s)), fst (page_term (st_p1 s)))"

definition store_flush :: "store \<Rightarrow> store" where
  "store_flush s = st_set_cur s (page_fsync (st_cur s) (st_last_index s))"

definition store_snapshot_taken :: "store \<Rightarrow> store" where
  "store_snapshot_taken s =
     (let s = s\<lparr>st_ss_index := page_last_index (st_p0 s), st_ss_term := page_last_term (st_p0 s)\<rparr>;
          s = store_swap (s\<lparr>st_p0 := page_clear (st_p0 s) 0\<rparr>)
      in s\<lparr>st_curr := False\<rparr>)"

definition store_ss_index :: "store \<Rightarrow> nat" where
  "store_ss_index s = (if page_isempty (st_p1 s) then UINT64_MAX else page_last_index (st_p0 s))"

definition store_ss_page :: "store \<Rightarrow> page" where
  "store_ss_page s = st_p0 s"

text \<open>
  The retry loop of \<^verbatim>\<open>store_create_entry\<close> and \<^verbatim>\<open>store_put_entry\<close>, up to the point where the
  entry fits. Only the latter flushes the first page before it leaves it. \<open>env k\<close> holds the results
  of the \<open>k\<close>-th attempt to map a page.
\<close>

partial_function (option) store_retry ::
    "nat \<Rightarrow> bool \<Rightarrow> (nat \<Rightarrow> mmap_rc \<times> mmap_rc) \<Rightarrow> store \<Rightarrow> (rs_rc \<times> store) option" where
  "store_retry sz flush env s =
     (if sz > page_quota (st_cur s)
      then Option.bind
        (if sz > page_cap (st_cur s)
         then map_option (\<lambda>(rc, p). (rc, st_set_cur s p))
                (page_reserve (st_cur s) sz (fst (env 0)) (snd (env 0)))
         else Some (RS_FULL, s))
        (\<lambda>(rc, s).
          if rc = RS_OK then store_retry sz flush (\<lambda>k. env (Suc k)) s
          else if rc \<noteq> RS_FULL then Some (rc, s)
          else if \<not> st_curr s
          then store_retry sz flush (\<lambda>k. env (Suc k))
            ((if flush then store_flush s else s)
               \<lparr>st_curr := True, st_p1 := page_clear (st_p1 s) (st_last_index s)\<rparr>)
          else Some (RS_FULL, s))
      else Some (RS_OK, s))"

definition store_create_entry ::
    "(nat \<Rightarrow> mmap_rc \<times> mmap_rc) \<Rightarrow> store \<Rightarrow> u64 \<Rightarrow> u64 \<Rightarrow> u64 \<Rightarrow> u32 \<Rightarrow> bytes \<Rightarrow> (rs_rc \<times> store) option" where
  "store_create_entry env s term seq cid flags data =
     map_option (\<lambda>(rc, s).
         if rc \<noteq> RS_OK then (rc, s)
         else (RS_OK, (st_set_cur s (page_create_entry (st_cur s) term seq cid flags data))
                 \<lparr>st_last_index := add64 (st_last_index s) 1, st_last_term := term\<rparr>))
       (store_retry (entry_encoded_len (length data)) False env s)"

definition store_reserve :: "store \<Rightarrow> nat \<Rightarrow> mmap_rc \<Rightarrow> mmap_rc \<Rightarrow> (rs_rc \<times> store) option" where
  "store_reserve s sz mm1 mm2 =
     map_option (\<lambda>(rc, p). (rc, s\<lparr>st_p1 := p\<rparr>)) (page_reserve (st_p1 s) sz mm1 mm2)"

definition store_last_part :: "store \<Rightarrow> bool" where
  "store_last_part s = page_last_part (st_cur s)"

definition store_put_entry ::
    "(nat \<Rightarrow> mmap_rc \<times> mmap_rc) \<Rightarrow> store \<Rightarrow> nat \<Rightarrow> bytes \<Rightarrow> (rs_rc \<times> store) option" where
  "store_put_entry env s index e =
     map_option (\<lambda>(rc, s).
         if rc \<noteq> RS_OK then (rc, s)
         else (RS_OK, (st_set_cur s (page_put_entry (st_cur s) e))
                 \<lparr>st_last_index := add64 (st_last_index s) 1, st_last_term := entry_term e\<rparr>))
       (store_retry (unat (entry_len e)) True env s)"

definition store_get_entry :: "store \<Rightarrow> nat \<Rightarrow> bytes option" where
  "store_get_entry s index =
     (case page_entry_at (st_p0 s) index of
        None \<Rightarrow> map_option (\<lambda>off. drop off (mem (p_buf (st_p1 s)))) (page_entry_at (st_p1 s) index)
      | Some off \<Rightarrow> Some (drop off (mem (p_buf (st_p0 s)))))"

definition store_prev_term :: "store \<Rightarrow> nat \<Rightarrow> u64" where
  "store_prev_term s index =
     (case store_get_entry s index of Some e \<Rightarrow> entry_term e | None \<Rightarrow> st_ss_term s)"

definition store_entries :: "store \<Rightarrow> nat \<Rightarrow> nat \<Rightarrow> bytes option \<times> nat \<times> nat" where
  "store_entries s index lim =
     (case page_get_entries (st_p0 s) index lim of
        (Some off, n) \<Rightarrow> (Some (drop off (mem (p_buf (st_p0 s)))), n)
      | (None, _) \<Rightarrow>
          (case page_get_entries (st_p1 s) index lim of
             (off, n) \<Rightarrow> (map_option (\<lambda>off. drop off (mem (p_buf (st_p1 s)))) off, n)))"

definition store_remove_after :: "store \<Rightarrow> nat \<Rightarrow> store" where
  "store_remove_after s index =
     (let s = s\<lparr>st_p0 := page_remove_after (st_p0 s) index, st_p1 := page_remove_after (st_p1 s) index\<rparr>;
          s = (if page_isempty (st_p1 s) then s\<lparr>st_curr := False\<rparr> else s)
      in if page_isempty (st_cur s)
         then (st_set_cur s (page_clear (st_cur s) (st_ss_index s)))
                \<lparr>st_last_index := st_ss_index s, st_last_term := st_ss_term s\<rparr>
         else s\<lparr>st_last_index := page_last_index (st_cur s), st_last_term := page_last_term (st_cur s)\<rparr>)"

section \<open>The log a store represents\<close>

text \<open>
  The entries after the snapshot: those of the first page, and those of the second page, which
  follows the first one when it is in use and is empty otherwise.
\<close>

definition store_pages :: "store \<Rightarrow> entry list \<Rightarrow> entry list \<Rightarrow> bool" where
  "store_pages s es0 es1 \<longleftrightarrow>
     page_rep (st_p0 s) (st_ss_index s) es0 \<and>
     (\<exists>prev1. page_rep (st_p1 s) prev1 es1 \<and>
       (if st_curr s then prev1 = st_ss_index s + length es0 else es1 = []))"

definition store_rep :: "store \<Rightarrow> entry list \<Rightarrow> bool" where
  "store_rep s es \<longleftrightarrow>
     (\<exists>es0 es1. es = es0 @ es1 \<and> store_pages s es0 es1) \<and>
     st_ss_index s + length es < 2 ^ 64 \<and>
     st_last_index s = st_ss_index s + length es \<and>
     st_last_term s = (if es = [] then st_ss_term s else e_term (last es))"

lemma store_pages_frame [simp]:
  "store_pages (s\<lparr>st_last_index := i\<rparr>) = store_pages s" "store_pages (s\<lparr>st_last_term := t\<rparr>) = store_pages s"
  by (simp_all add: store_pages_def fun_eq_iff)

lemma st_set_cur_frame [simp]:
  "st_ss_index (st_set_cur s p) = st_ss_index s" "st_ss_term (st_set_cur s p) = st_ss_term s"
  "st_last_index (st_set_cur s p) = st_last_index s" "st_last_term (st_set_cur s p) = st_last_term s"
  by (simp_all add: st_set_cur_def)

lemma store_pages_follows:
  "store_pages s es0 es1 \<Longrightarrow> follows page_rep (st_p0 s) (st_p1 s) (st_ss_index s) es0 es1"
  by (auto simp: store_pages_def follows_def split: if_splits)

lemma store_get_entry_decode:
  "map_option decode_entry (store_get_entry s i) =
     (case page_entry (st_p0 s) i of None \<Rightarrow> page_entry (st_p1 s) i | Some e \<Rightarrow> Some e)"
  by (simp add: store_get_entry_def page_entry_def option.map_comp comp_def split: option.split)

lemma page_clear_any:
  assumes "page_rep p prev es" "prev' < 2 ^ 64"
  shows "page_rep (page_clear p prev') prev' []"
proof -
  note r = page_repD [OF assms(1)]
  show ?thesis
    using assms(2) r(4-7) sc_buf_wfD(4) [OF r(1)] page_rep_wpos [OF assms(1)]
    by (intro page_clear_rep) simp_all
qed

lemma store_cur_rep:
  assumes "store_pages s es0 es1"
  obtains prev es where "page_rep (st_cur s) prev es"
    "st_curr s \<Longrightarrow> prev = st_ss_index s + length es0 \<and> es = es1"
    "\<not> st_curr s \<Longrightarrow> prev = st_ss_index s \<and> es = es0"
  using assms by (cases "st_curr s") (auto simp: store_pages_def st_cur_def)

lemma store_set_cur_pages:
  assumes "store_pages s es0 es1" "st_curr s \<Longrightarrow> page_rep p (st_ss_index s + length es0) fs"
    "\<not> st_curr s \<Longrightarrow> page_rep p (st_ss_index s) fs"
  shows "store_pages (st_set_cur s p) (if st_curr s then es0 else fs) (if st_curr s then fs else es1)"
  using assms by (auto simp: store_pages_def st_set_cur_def)

section \<open>Making room for an entry\<close>

text \<open>The fields that moving to another page does not touch.\<close>

definition same_log :: "store \<Rightarrow> store \<Rightarrow> bool" where
  "same_log s s' \<longleftrightarrow> st_ss_index s' = st_ss_index s \<and> st_ss_term s' = st_ss_term s \<and>
     st_last_index s' = st_last_index s \<and> st_last_term s' = st_last_term s"

lemma same_log_set_cur [simp]: "same_log s (st_set_cur s p)" "same_log s s"
  by (simp_all add: same_log_def st_set_cur_def)

lemma same_log_trans: "same_log s s1 \<Longrightarrow> same_log s1 s2 \<Longrightarrow> same_log s s2"
  by (simp add: same_log_def)

lemma st_cur_set [simp]: "st_cur (st_set_cur s p) = p" "st_curr (st_set_cur s p) = st_curr s"
  by (simp_all add: st_cur_def st_set_cur_def)

lemma reserve_attempt:
  assumes pages: "store_pages s es0 es1" and sz: "sz < 2 ^ 32"
  shows "\<exists>rc s1. (if sz > page_cap (st_cur s)
         then map_option (\<lambda>(rc, p). (rc, st_set_cur s p)) (page_reserve (st_cur s) sz m1 m2)
         else Some (RS_FULL, s)) = Some (rc, s1) \<and> st_curr s1 = st_curr s \<and> same_log s s1 \<and>
      (rc = RS_OK \<or> rc = RS_FULL \<longrightarrow> store_pages s1 es0 es1) \<and>
      (rc = RS_OK \<longrightarrow> sz \<le> page_quota (st_cur s1))"
proof (cases "sz > page_cap (st_cur s)")
  case False
  then show ?thesis using pages by simp
next
  case True
  obtain prev es where c: "page_rep (st_cur s) prev es"
      "st_curr s \<Longrightarrow> prev = st_ss_index s + length es0 \<and> es = es1"
      "\<not> st_curr s \<Longrightarrow> prev = st_ss_index s \<and> es = es0"
    using store_cur_rep [OF pages] by blast
  obtain rc p where p: "page_reserve (st_cur s) sz m1 m2 = Some (rc, p)"
      "rc = RS_OK \<or> rc = RS_FULL \<longrightarrow> page_rep p prev es" "rc = RS_OK \<longrightarrow> sz \<le> page_quota p"
    using page_reserve_keeps [OF c(1) sz, of m1 m2] by blast
  have "store_pages (st_set_cur s p) es0 es1" if "rc = RS_OK \<or> rc = RS_FULL"
    using store_set_cur_pages [OF pages, of p es] p(2) that c(2,3) by (cases "st_curr s") simp_all
  then show ?thesis using True p(1,3) by simp
qed

text \<open>Trying to make room, in the page that is in use.\<close>

definition retry_post :: "nat \<Rightarrow> store \<Rightarrow> entry list \<Rightarrow> (rs_rc \<times> store) option \<Rightarrow> bool" where
  "retry_post sz s es r \<longleftrightarrow>
     (\<exists>rc s'. r = Some (rc, s') \<and>
       (rc = RS_OK \<or> rc = RS_FULL \<longrightarrow>
          same_log s s' \<and> (\<exists>fs0 fs1. es = fs0 @ fs1 \<and> store_pages s' fs0 fs1)) \<and>
       (rc = RS_OK \<longrightarrow> sz \<le> page_quota (st_cur s')))"

lemma retry_postI:
  assumes "r = Some (rc, s')" "same_log s s'" "rc = RS_OK \<or> rc = RS_FULL \<Longrightarrow> store_pages s' fs0 fs1"
    "es = fs0 @ fs1" "rc = RS_OK \<Longrightarrow> sz \<le> page_quota (st_cur s')"
  shows "retry_post sz s es r"
  using assms unfolding retry_post_def by blast

lemma retry_post_trans: "same_log s s1 \<Longrightarrow> retry_post sz s1 es r \<Longrightarrow> retry_post sz s es r"
  unfolding retry_post_def by (blast intro: same_log_trans)

lemma store_retry_fits:
  "sz \<le> page_quota (st_cur s) \<Longrightarrow> store_retry sz flush env s = Some (RS_OK, s)"
  by (subst store_retry.simps) simp

lemma store_retry_done:
  assumes "store_pages s es0 es1" "sz \<le> page_quota (st_cur s)"
  shows "retry_post sz s (es0 @ es1) (store_retry sz flush env s)"
  using assms by (intro retry_postI [OF store_retry_fits]) simp_all

lemma store_retry_second:
  assumes pages: "store_pages s es0 es1" and sz: "sz < 2 ^ 32" and c: "st_curr s"
  shows "retry_post sz s (es0 @ es1) (store_retry sz flush env s)"
proof (cases "sz \<le> page_quota (st_cur s)")
  case True
  then show ?thesis by (rule store_retry_done [OF pages])
next
  case False
  obtain rc s1 where a: "(if sz > page_cap (st_cur s)
         then map_option (\<lambda>(rc, p). (rc, st_set_cur s p))
           (page_reserve (st_cur s) sz (fst (env 0)) (snd (env 0)))
         else Some (RS_FULL, s)) = Some (rc, s1)" "st_curr s1" "same_log s s1"
      "rc = RS_OK \<or> rc = RS_FULL \<longrightarrow> store_pages s1 es0 es1" "rc = RS_OK \<longrightarrow> sz \<le> page_quota (st_cur s1)"
    using reserve_attempt [OF pages sz, of "fst (env 0)" "snd (env 0)"] c by auto
  have "store_retry sz flush env s = Some (rc, s1)"
    using False a by (subst store_retry.simps) (simp add: store_retry_fits)
  then show ?thesis using a by (intro retry_postI [of _ rc s1 s es0 es1]) simp_all
qed

lemma store_retry_returns:
  assumes pages: "store_pages s es0 es1" and sz: "sz < 2 ^ 32"
    and l: "st_last_index s = st_ss_index s + length (es0 @ es1)" "st_last_index s < 2 ^ 64"
  shows "retry_post sz s (es0 @ es1) (store_retry sz flush env s)"
proof (cases "sz \<le> page_quota (st_cur s) \<or> st_curr s")
  case True
  then show ?thesis
    using store_retry_second [OF pages sz] store_retry_done [OF pages] by blast
next
  case False
  obtain rc s1 where a: "(if sz > page_cap (st_cur s)
         then map_option (\<lambda>(rc, p). (rc, st_set_cur s p))
           (page_reserve (st_cur s) sz (fst (env 0)) (snd (env 0)))
         else Some (RS_FULL, s)) = Some (rc, s1)" "\<not> st_curr s1" "same_log s s1"
      "rc = RS_OK \<or> rc = RS_FULL \<longrightarrow> store_pages s1 es0 es1" "rc = RS_OK \<longrightarrow> sz \<le> page_quota (st_cur s1)"
    using reserve_attempt [OF pages sz, of "fst (env 0)" "snd (env 0)"] False by auto
  show ?thesis
  proof (cases "rc = RS_FULL")
    case True
    let ?s2 = "(if flush then store_flush s1 else s1)
      \<lparr>st_curr := True, st_p1 := page_clear (st_p1 s1) (st_last_index s1)\<rparr>"
    have r: "store_retry sz flush env s = store_retry sz flush (\<lambda>k. env (Suc k)) ?s2"
      using False a True by (subst store_retry.simps) simp
    have p1: "store_pages s1 es0 es1" using a(4) True by blast
    then have e: "es1 = []" using a(2) by (auto simp: store_pages_def)
    have "page_rep (page_clear (st_p1 s1) (st_last_index s1)) (st_last_index s1) []"
      using p1 l a(3) page_clear_any by (fastforce simp: store_pages_def same_log_def)
    moreover have "st_last_index s1 = st_ss_index s1 + length es0"
      using l e a(3) by (simp add: same_log_def)
    ultimately have "store_pages ?s2 es0 []"
      using p1 a(2) by (auto simp: store_pages_def store_flush_def st_set_cur_def st_cur_def)
    then have "retry_post sz ?s2 (es0 @ es1) (store_retry sz flush (\<lambda>k. env (Suc k)) ?s2)"
      using store_retry_second [of ?s2 es0 "[]" sz] sz e by simp
    moreover have "same_log s ?s2"
      using a(3) by (simp add: same_log_def store_flush_def st_set_cur_def)
    ultimately show ?thesis unfolding r by (rule retry_post_trans [rotated])
  next
    case rc: False
    have "store_retry sz flush env s = Some (rc, s1)"
      using False a rc by (subst store_retry.simps) (auto simp: store_retry_fits)
    then show ?thesis using a by (intro retry_postI [of _ rc s1 s es0 es1]) simp_all
  qed
qed

section \<open>Appending\<close>

lemma store_repE:
  assumes "store_rep s es"
  obtains es0 es1 where "es = es0 @ es1" "store_pages s es0 es1"
    "st_last_index s = st_ss_index s + length (es0 @ es1)" "st_last_index s < 2 ^ 64"
    "st_last_term s = (if es = [] then st_ss_term s else e_term (last es))"
  using assms by (auto simp: store_rep_def)

text \<open>The common end of the two operations, for either way of adding an entry to a page.\<close>

lemma store_add_rep:
  fixes flush :: bool and env :: "nat \<Rightarrow> mmap_rc \<times> mmap_rc"
  assumes add: "\<And>p prev es. page_rep p prev es \<Longrightarrow> page_fits p e \<Longrightarrow> prev + Suc (length es) < 2 ^ 64 \<Longrightarrow>
      page_rep (add p) prev (es @ [e])"
    and rep: "store_rep s es" and ok: "entry_ok e" and i: "st_ss_index s + Suc (length es) < 2 ^ 64"
  defines "r \<equiv> map_option (\<lambda>(rc, s). if rc \<noteq> RS_OK then (rc, s)
       else (RS_OK, (st_set_cur s (add (st_cur s)))
               \<lparr>st_last_index := add64 (st_last_index s) 1, st_last_term := e_term e\<rparr>))
     (store_retry (entry_size e) flush env s)"
  shows "\<exists>rc s'. r = Some (rc, s') \<and> (rc = RS_OK \<longrightarrow> store_rep s' (es @ [e])) \<and>
    (rc = RS_FULL \<longrightarrow> store_rep s' es) \<and>
    (rc = RS_OK \<or> rc = RS_FULL \<longrightarrow> st_ss_index s' = st_ss_index s \<and> st_ss_term s' = st_ss_term s)"
proof -
  obtain es0 es1 where es: "es = es0 @ es1" "store_pages s es0 es1"
      "st_last_index s = st_ss_index s + length (es0 @ es1)" "st_last_index s < 2 ^ 64"
      "st_last_term s = (if es = [] then st_ss_term s else e_term (last es))"
    using rep by (rule store_repE)
  have sz: "entry_size e < 2 ^ 32" using ok by (simp add: entry_ok_def)
  obtain rc s' where s': "store_retry (entry_size e) flush env s = Some (rc, s')"
      "rc = RS_OK \<or> rc = RS_FULL \<longrightarrow>
          same_log s s' \<and> (\<exists>fs0 fs1. es0 @ es1 = fs0 @ fs1 \<and> store_pages s' fs0 fs1)"
      "rc = RS_OK \<longrightarrow> entry_size e \<le> page_quota (st_cur s')"
    using store_retry_returns [OF es(2) sz es(3,4), of flush env] unfolding retry_post_def by blast
  show ?thesis
  proof (cases "rc = RS_OK")
    case False
    have "store_rep s' es" "st_ss_index s' = st_ss_index s" "st_ss_term s' = st_ss_term s" if "rc = RS_FULL"
      using s'(2) that es rep by (auto simp: store_rep_def same_log_def)
    then show ?thesis using s'(1) False unfolding r_def by auto
  next
    case True
    then obtain fs0 fs1 where f: "es = fs0 @ fs1" "store_pages s' fs0 fs1" "same_log s s'"
      using s'(2) es(1) by auto
    obtain prev fs where c: "page_rep (st_cur s') prev fs"
        "st_curr s' \<Longrightarrow> prev = st_ss_index s' + length fs0 \<and> fs = fs1"
        "\<not> st_curr s' \<Longrightarrow> prev = st_ss_index s' \<and> fs = fs0"
      using store_cur_rep [OF f(2)] by blast
    have e1: "\<not> st_curr s' \<Longrightarrow> fs1 = []" using f(2) by (auto simp: store_pages_def)
    have ss: "st_ss_index s' = st_ss_index s" "st_ss_term s' = st_ss_term s"
        "st_last_index s' = st_last_index s"
      using f(3) by (simp_all add: same_log_def)
    have "page_rep (add (st_cur s')) prev (fs @ [e])"
      using add [OF c(1)] s'(3) True ok i f(1) c(2,3) e1 ss
      by (cases "st_curr s'") (simp_all add: page_fits_def)
    then have "store_pages (st_set_cur s' (add (st_cur s')))
        (if st_curr s' then fs0 else fs @ [e]) (if st_curr s' then fs @ [e] else fs1)"
      using c(2,3) by (intro store_set_cur_pages [OF f(2)]) auto
    then have "\<exists>gs0 gs1. es @ [e] = gs0 @ gs1 \<and> store_pages (st_set_cur s' (add (st_cur s'))) gs0 gs1"
      using c(2,3) e1 f(1) by (cases "st_curr s'") (auto intro: exI [of _ "[]"])
    then have "store_rep ((st_set_cur s' (add (st_cur s')))
          \<lparr>st_last_index := add64 (st_last_index s') 1, st_last_term := e_term e\<rparr>) (es @ [e])"
      using ss es(1,3) i unfolding store_rep_def by simp
    then show ?thesis using s'(1) True ss unfolding r_def by simp
  qed
qed

lemma store_create_rep:
  assumes "store_rep s es" "entry_ok e" "st_ss_index s + Suc (length es) < 2 ^ 64"
  shows "\<exists>rc s'. store_create_entry env s (e_term e) (e_seq e) (e_cid e) (e_flags e) (e_data e) = Some (rc, s') \<and>
    (rc = RS_OK \<longrightarrow> store_rep s' (es @ [e])) \<and> (rc = RS_FULL \<longrightarrow> store_rep s' es) \<and>
    (rc = RS_OK \<or> rc = RS_FULL \<longrightarrow> st_ss_index s' = st_ss_index s \<and> st_ss_term s' = st_ss_term s)"
proof -
  have l: "entry_encoded_len (length (e_data e)) = entry_size e"
    using assms(2) by (simp add: entry_encoded_len_def entry_ok_def entry_size_def ENTRY_HEADER_SIZE_def)
  show ?thesis
    unfolding store_create_entry_def l page_create_def [symmetric]
    using created.rep_add assms by (intro store_add_rep)
qed

lemma store_put_rep:
  assumes "store_rep s es" "entry_ok e" "st_ss_index s + Suc (length es) < 2 ^ 64"
  shows "\<exists>rc s'. store_put_entry env s idx (entry_bytes e @ rest) = Some (rc, s') \<and>
    (rc = RS_OK \<longrightarrow> store_rep s' (es @ [e])) \<and> (rc = RS_FULL \<longrightarrow> store_rep s' es) \<and>
    (rc = RS_OK \<or> rc = RS_FULL \<longrightarrow> st_ss_index s' = st_ss_index s \<and> st_ss_term s' = st_ss_term s)"
proof -
  have l: "unat (entry_len (entry_bytes e @ rest)) = entry_size e" "entry_term (entry_bytes e @ rest) = e_term e"
    using assms(2) by (simp_all add: entry_fields unat_entry_size)
  have a: "page_rep (page_put_entry p (entry_bytes e @ rest)) prev (es @ [e])"
    if "page_rep p prev es" "page_fits p e" "prev + Suc (length es) < 2 ^ 64" for p prev es
    using that page_put_entry_rep by (simp add: page_fits_def)
  show ?thesis
    unfolding store_put_entry_def l using a assms by (intro store_add_rep)
qed

section \<open>Truncating, reading, snapshots\<close>

lemma store_remove_after_rep:
  assumes rep: "store_rep s es" and i: "st_ss_index s \<le> i" "i + 1 < 2 ^ 64"
  shows "store_rep (store_remove_after s i) (take (i - st_ss_index s) es)"
    "st_ss_index (store_remove_after s i) = st_ss_index s" "st_ss_term (store_remove_after s i) = st_ss_term s"
proof -
  let ?ss = "st_ss_index s"
  obtain es0 es1 where es: "es = es0 @ es1" "store_pages s es0 es1"
      "st_last_index s = ?ss + length (es0 @ es1)" "st_last_index s < 2 ^ 64"
    using rep by (rule store_repE)
  obtain prev1 where p: "page_rep (st_p0 s) ?ss es0" "page_rep (st_p1 s) prev1 es1"
      "if st_curr s then prev1 = ?ss + length es0 else es1 = []"
    using es(2) by (auto simp: store_pages_def)
  let ?fs0 = "take (i - ?ss) es0" and ?fs1 = "take (i - ?ss - length es0) es1"
  have t: "take (i - ?ss) es = ?fs0 @ ?fs1" by (simp add: es(1))
  have q: "page_rep (page_remove_after (st_p0 s) i) ?ss ?fs0"
      "page_rep (page_remove_after (st_p1 s) i) prev1 ?fs1"
    using created.rep_remove_after [OF p(1) i(2)] created.rep_remove_after [OF p(2) i(2)] p(3)
    by (auto simp: diff_diff_eq split: if_splits)
  show "store_rep (store_remove_after s i) (take (i - ?ss) es)"
  proof (cases "?fs1 = []")
    case True
    note q1 = q(2) [unfolded True]
    show ?thesis
    proof (cases "?fs0 = []")
      case e: True
      have "page_rep (page_clear (page_remove_after (st_p0 s) i) ?ss) ?ss []"
        using page_clear_any [OF q(1)] es(3,4) by simp
      then show ?thesis
        using q1 page_isempty_rep [OF q(1)] page_isempty_rep [OF q(2)] e True es(3,4)
        unfolding t by (auto simp: store_rep_def store_pages_def store_remove_after_def Let_def st_cur_def
            st_set_cur_def)
    next
      case e: False
      show ?thesis
        using q(1) q1 page_isempty_rep [OF q(1)] page_isempty_rep [OF q(2)] e True es(3,4)
          page_last_index_rep [OF q(1)] page_last_term_rep [OF q(1)]
        unfolding t True store_rep_def
        by (auto simp: store_pages_def store_remove_after_def Let_def st_cur_def st_set_cur_def)
    qed
  next
    case False
    then have c: "st_curr s" "prev1 = ?ss + length es0" "i > ?ss + length es0" using p(3) by (auto split: if_splits)
    have f0: "?fs0 = es0" using c(3) by simp
    have pg: "store_pages (store_remove_after s i) es0 ?fs1"
      using q f0 c(1,2) page_isempty_rep [OF q(2)] False
      by (auto simp: store_pages_def store_remove_after_def Let_def st_cur_def)
    then show ?thesis
      using page_isempty_rep [OF q(2)] False es(3,4) c page_last_index_rep [OF q(2)]
        page_last_term_rep [OF q(2)]
      unfolding t f0 store_rep_def
      by (auto simp: store_remove_after_def Let_def st_cur_def)
  qed
  show "st_ss_index (store_remove_after s i) = ?ss" "st_ss_term (store_remove_after s i) = st_ss_term s"
    by (simp_all add: store_remove_after_def Let_def)
qed

lemma store_snapshot_rep:
  assumes pages: "store_pages s es0 es1" and c: "st_curr s" "es0 \<noteq> []"
    and rep: "store_rep s (es0 @ es1)"
  shows "store_rep (store_snapshot_taken s) es1"
    "st_ss_index (store_snapshot_taken s) = st_ss_index s + length es0"
    "st_ss_term (store_snapshot_taken s) = e_term (last es0)"
proof -
  have p: "page_rep (st_p0 s) (st_ss_index s) es0" "page_rep (st_p1 s) (st_ss_index s + length es0) es1"
    using pages c by (auto simp: store_pages_def)
  note l = page_last_index_rep [OF p(1)] page_last_term_rep [OF p(1) c(2)]
  have "page_rep (page_clear (st_p0 s) 0) 0 []" by (rule page_clear_any [OF p(1)]) simp
  then show "store_rep (store_snapshot_taken s) es1"
    using p l rep c unfolding store_rep_def
    by (auto simp: store_snapshot_taken_def store_pages_def store_swap_def Let_def)
  show "st_ss_index (store_snapshot_taken s) = st_ss_index s + length es0"
    "st_ss_term (store_snapshot_taken s) = e_term (last es0)"
    using l by (simp_all add: store_snapshot_taken_def store_swap_def Let_def)
qed

section \<open>Opening a store\<close>

text \<open>Two logs, of which the second follows the first, as the log after the index \<open>ss\<close>.\<close>

definition arranged :: "nat \<Rightarrow> nat \<Rightarrow> entry list \<Rightarrow> nat \<Rightarrow> entry list \<Rightarrow> entry list \<Rightarrow> bool" where
  "arranged ss a xs b ys es \<longleftrightarrow> a = ss \<and> es = xs @ ys \<and> (ys = [] \<or> b = ss + length xs)"

lemma store_rep_curr:
  assumes "page_rep (st_p0 s) (st_ss_index s) xs" "page_rep (st_p1 s) b ys" "ys = [] \<or> b = st_ss_index s + length xs"
    "es = xs @ ys" "st_ss_index s + length es < 2 ^ 64"
  shows "store_rep (let s = s\<lparr>st_curr := page_entry_count (st_p1 s) > 0\<rparr>;
          s = s\<lparr>st_last_index := page_last_index (st_cur s)\<rparr>
      in s\<lparr>st_last_term := (if page_entry_count (st_cur s) \<noteq> 0 then page_last_term (st_cur s)
                             else st_ss_term s)\<rparr>) es"
proof -
  note f = page_count_rep [OF assms(1)] page_count_rep [OF assms(2)] page_last_index_rep [OF assms(1)]
    page_last_index_rep [OF assms(2)]
  show ?thesis
  proof (cases "ys = []")
    case True
    then show ?thesis
      using assms f page_last_term_rep [OF assms(1)]
      by (auto simp: store_rep_def store_pages_def st_cur_def Let_def)
  next
    case False
    then show ?thesis
      using assms f page_last_term_rep [OF assms(2)] unfolding store_rep_def
      by (auto simp: store_pages_def st_cur_def Let_def)
  qed
qed

lemma store_arrange_rep:
  assumes rep: "page_rep (st_p0 s) a xs" "page_rep (st_p1 s) b ys"
    and arr: "arranged (st_ss_index s) a xs b ys es \<or> arranged (st_ss_index s) b ys a xs es"
    and l: "st_ss_index s + length es < 2 ^ 64"
  shows "store_rep (store_arrange s) es"
    "st_ss_index (store_arrange s) = st_ss_index s" "st_ss_term (store_arrange s) = st_ss_term s"
proof -
  let ?ss = "st_ss_index s"
  define s1 where "s1 = (if page_prev_index (st_p1 s) < page_prev_index (st_p0 s) then store_swap s else s)"
  obtain a1 xs1 b1 ys1 where r1: "page_rep (st_p0 s1) a1 xs1" "page_rep (st_p1 s1) b1 ys1" "a1 \<le> b1"
      "arranged ?ss a1 xs1 b1 ys1 es \<or> arranged ?ss b1 ys1 a1 xs1 es"
  proof (cases "b < a")
    case True
    show thesis
      by (rule that [of b ys a xs]) (use rep arr True page_repD(8) [OF rep(1)] page_repD(8) [OF rep(2)] in
          \<open>auto simp: s1_def store_swap_def page_prev_index_def\<close>)
  next
    case False
    show thesis
      by (rule that [of a xs b ys]) (use rep arr False page_repD(8) [OF rep(1)] page_repD(8) [OF rep(2)] in
          \<open>auto simp: s1_def store_swap_def page_prev_index_def\<close>)
  qed
  have ss1: "st_ss_index s1 = ?ss" "st_ss_term s1 = st_ss_term s" by (simp_all add: s1_def store_swap_def)
  define s2 where "s2 = (if page_prev_index (st_p0 s1) > st_ss_index s1 \<or> page_last_index (st_p0 s1) \<le> st_ss_index s1
               then s1\<lparr>st_p0 := page_clear (st_p0 s1) (st_ss_index s1)\<rparr> else s1)"
  have i1: "page_prev_index (st_p0 s1) = a1" "page_last_index (st_p0 s1) = a1 + length xs1"
      "page_prev_index (st_p1 s1) = b1"
    using page_repD(8) [OF r1(1)] page_repD(8) [OF r1(2)] page_last_index_rep [OF r1(1)]
    by (simp_all add: page_prev_index_def)
  have "?ss < 2 ^ 64" using l by simp
  note clr = page_clear_any [OF r1(1) this] page_clear_any [OF r1(2) this]
  obtain xs2 where r2: "page_rep (st_p0 s2) ?ss xs2" "st_p1 s2 = st_p1 s1" "es = xs2 @ ys1"
      "ys1 = [] \<or> b1 = ?ss + length xs2"
  proof (cases "a1 > ?ss \<or> a1 + length xs1 \<le> ?ss")
    case True
    show thesis
      by (rule that [of "[]"]) (use True r1(3,4) clr(1) i1 ss1 in \<open>auto simp: s2_def arranged_def\<close>)
  next
    case False
    show thesis
      by (rule that [of xs1]) (use False r1 i1 ss1 in \<open>auto simp: s2_def arranged_def\<close>)
  qed
  have ss2: "st_ss_index s2 = ?ss" by (simp add: s2_def ss1)
  define s3 where "s3 = (if page_prev_index (st_p1 s2) \<noteq> page_last_index (st_p0 s2)
               then s2\<lparr>st_p1 := page_clear (st_p1 s2) (st_ss_index s2)\<rparr> else s2)"
  have r3: "page_rep (st_p0 s3) ?ss xs2" "st_ss_index s3 = ?ss" using r2(1) ss2 by (simp_all add: s3_def)
  obtain b3 where b3: "page_rep (st_p1 s3) b3 ys1" "ys1 = [] \<or> b3 = ?ss + length xs2" "xs2 = [] \<longrightarrow> b3 = ?ss"
  proof (cases "b1 = ?ss + length xs2")
    case True
    show thesis
      by (rule that [of b1]) (use True r1(2) r2 i1(3) page_last_index_rep [OF r2(1)] in \<open>auto simp: s3_def\<close>)
  next
    case False
    show thesis
      by (rule that [of ?ss])
        (use False r2 clr(2) i1(3) ss2 page_last_index_rep [OF r2(1)] in \<open>auto simp: s3_def\<close>)
  qed
  define s4 where "s4 = (if page_entry_count (st_p0 s3) = 0 then store_swap s3 else s3)"
  obtain us vs c where r4: "page_rep (st_p0 s4) (st_ss_index s4) us" "page_rep (st_p1 s4) c vs"
      "vs = [] \<or> c = st_ss_index s4 + length us" "es = us @ vs" "st_ss_index s4 + length es < 2 ^ 64"
  proof (cases "xs2 = []")
    case True
    show thesis
      by (rule that [of ys1 ?ss "[]"])
        (use True r3 b3 r2(3) l page_count_rep [OF r3(1)] in \<open>auto simp: s4_def store_swap_def\<close>)
  next
    case False
    show thesis
      by (rule that [of xs2 b3 ys1])
        (use False r3 b3 r2(3) l page_count_rep [OF r3(1)] in \<open>auto simp: s4_def store_swap_def\<close>)
  qed
  have "store_arrange s = (let s = s4\<lparr>st_curr := page_entry_count (st_p1 s4) > 0\<rparr>;
          s = s\<lparr>st_last_index := page_last_index (st_cur s)\<rparr>
      in s\<lparr>st_last_term := (if page_entry_count (st_cur s) \<noteq> 0 then page_last_term (st_cur s)
                             else st_ss_term s)\<rparr>)"
    unfolding store_arrange_def Let_def s4_def s3_def s2_def s1_def by (rule refl)
  then show "store_rep (store_arrange s) es" using store_rep_curr [OF r4] by simp
  show "st_ss_index (store_arrange s) = st_ss_index s" "st_ss_term (store_arrange s) = st_ss_term s"
    by (simp_all add: store_arrange_def store_swap_def Let_def)
qed

lemma page_reopen:
  assumes rep: "page_rep p prev es" and nz: "\<forall>e \<in> set es. crc_nonzero e"
    and n: "PAGE_INITIAL_SIZE \<le> p_map_len p"
  shows "\<exists>p'. page_init q (fst (page_term p)) MMAP_OK (- 1) prev0 = Some (RS_OK, p') \<and> page_rep p' prev es"
proof -
  note r = page_repD [OF rep]
  let ?f = "mem (p_buf p)" and ?d = "p_disk (page_fsync p (page_last_index p))"
  have t: "fst (page_term p) = Some (?f, ?d)" using r(7) by (simp add: page_term_def Let_def)
  have f: "?f = page_header prev @ log_bytes es @ drop (wpos (p_buf p)) ?f" by (rule page_rep_mem [OF rep])
  have l: "init_len (length ?f) (- 1) = length ?f" "length ?f < 2 ^ 32"
    "72 + length (log_bytes es) \<le> length ?f"
    using n r(4-6) sc_buf_wfD(4) [OF r(1)] page_rep_wpos [OF rep] by (simp_all add: init_len_nat)
  have ok: "\<forall>e \<in> set es. entry_ok e \<and> crc_nonzero e" using r(12) nz by blast
  have i: "(- 1 :: int) \<le> int PAGE_MAX_SIZE" "init_len (length ?f) (- 1) < 2 ^ 32" using l by simp_all
  show ?thesis
    unfolding t using page_init_recovers [OF f r(9) ok i, of q ?d prev0] r(13) l by auto
qed

lemma store_reopen:
  assumes rep: "store_rep s es" and nz: "\<forall>e \<in> set es. crc_nonzero e"
    and n: "PAGE_INITIAL_SIZE \<le> p_map_len (st_p0 s)" "PAGE_INITIAL_SIZE \<le> p_map_len (st_p1 s)"
    and f: "store_term s = (f0, f1) \<or> store_term s = (f1, f0)"
  shows "\<exists>s'. store_init q0 q1 (st_ss_term s) (st_ss_index s) f0 MMAP_OK f1 MMAP_OK =
      Some (RS_OK, Some s') \<and> store_rep s' es \<and> st_ss_index s' = st_ss_index s \<and> st_ss_term s' = st_ss_term s"
proof -
  obtain es0 es1 where es: "es = es0 @ es1" "store_pages s es0 es1"
      "st_last_index s = st_ss_index s + length (es0 @ es1)" "st_last_index s < 2 ^ 64"
    using rep by (rule store_repE)
  obtain prev1 where p: "page_rep (st_p0 s) (st_ss_index s) es0" "page_rep (st_p1 s) prev1 es1"
      "if st_curr s then prev1 = st_ss_index s + length es0 else es1 = []"
    using es(2) by (auto simp: store_pages_def)
  have arr: "arranged (st_ss_index s) (st_ss_index s) es0 prev1 es1 es"
    using p(3) es(1) by (auto simp: arranged_def split: if_splits)
  have open0: "\<exists>p'. page_init q (fst (page_term (st_p0 s))) MMAP_OK (- 1) prev0 = Some (RS_OK, p') \<and>
      page_rep p' (st_ss_index s) es0" for q prev0
    by (rule page_reopen [OF p(1) _ n(1)]) (use nz es(1) in simp)
  have open1: "\<exists>p'. page_init q (fst (page_term (st_p1 s))) MMAP_OK (- 1) prev0 = Some (RS_OK, p') \<and>
      page_rep p' prev1 es1" for q prev0
    by (rule page_reopen [OF p(2) _ n(2)]) (use nz es(1) in simp)
  obtain a xs b ys where o: "\<exists>p'. page_init q0 f0 MMAP_OK (- 1) (st_ss_index s) = Some (RS_OK, p') \<and> page_rep p' a xs"
      "\<exists>p'. page_init q1 f1 MMAP_OK (- 1) (st_ss_index s) = Some (RS_OK, p') \<and> page_rep p' b ys"
      "arranged (st_ss_index s) a xs b ys es \<or> arranged (st_ss_index s) b ys a xs es"
    using f
  proof
    assume "store_term s = (f0, f1)"
    then have "fst (page_term (st_p0 s)) = f0" "fst (page_term (st_p1 s)) = f1" by (simp_all add: store_term_def)
    then show thesis using that [of "st_ss_index s" es0 prev1 es1] open0 open1 arr by metis
  next
    assume "store_term s = (f1, f0)"
    then have "fst (page_term (st_p0 s)) = f1" "fst (page_term (st_p1 s)) = f0" by (simp_all add: store_term_def)
    then show thesis using that [of prev1 es1 "st_ss_index s" es0] open0 open1 arr by metis
  qed
  then obtain p0 p1 where i: "page_init q0 f0 MMAP_OK (- 1) (st_ss_index s) = Some (RS_OK, p0)" "page_rep p0 a xs"
      "page_init q1 f1 MMAP_OK (- 1) (st_ss_index s) = Some (RS_OK, p1)" "page_rep p1 b ys"
    by blast
  let ?s = "\<lparr>st_ss_index = st_ss_index s, st_ss_term = st_ss_term s, st_p0 = p0, st_p1 = p1,
         st_curr = False, st_last_term = 0, st_last_index = 0\<rparr>"
  have "store_init q0 q1 (st_ss_term s) (st_ss_index s) f0 MMAP_OK f1 MMAP_OK =
      Some (RS_OK, Some (store_arrange ?s))"
    using i(1,3) by (simp add: store_init_def store_read_def)
  moreover have "store_rep (store_arrange ?s) es" "st_ss_index (store_arrange ?s) = st_ss_index s"
      "st_ss_term (store_arrange ?s) = st_ss_term s"
    using store_arrange_rep [of ?s a xs b ys es] i(2,4) o(3) es by simp_all
  ultimately show ?thesis by blast
qed

section \<open>Properties\<close>

datatype store_op = Created entry | Copied entry | Truncated nat

fun store_step :: "(nat \<Rightarrow> mmap_rc \<times> mmap_rc) \<Rightarrow> store_op \<Rightarrow> store \<Rightarrow> (rs_rc \<times> store) option" where
  "store_step env (Created e) s =
     store_create_entry env s (e_term e) (e_seq e) (e_cid e) (e_flags e) (e_data e)"
| "store_step env (Copied e) s = store_put_entry env s (st_last_index s + 1) (entry_bytes e)"
| "store_step env (Truncated i) s = Some (RS_OK, store_remove_after s i)"

text \<open>A sequence of operations up to the first error, with what each of them returned.\<close>

fun store_run :: "(nat \<Rightarrow> nat \<Rightarrow> mmap_rc \<times> mmap_rc) \<Rightarrow> store_op list \<Rightarrow> store \<Rightarrow> (rs_rc list \<times> store) option" where
  "store_run envs [] s = Some ([], s)"
| "store_run envs (a # ops) s =
     Option.bind (store_step (envs 0) a s) (\<lambda>(rc, s).
       if rc \<noteq> RS_OK \<and> rc \<noteq> RS_FULL then Some ([rc], s)
       else map_option (\<lambda>(rcs, s). (rc # rcs, s)) (store_run (\<lambda>k. envs (Suc k)) ops s))"

text \<open>The same on a list: an operation that returned \<open>RS_FULL\<close> did nothing.\<close>

fun list_step :: "nat \<Rightarrow> store_op \<times> rs_rc \<Rightarrow> entry list \<Rightarrow> entry list" where
  "list_step ss (Created e, rc) es = (if rc = RS_OK then es @ [e] else es)"
| "list_step ss (Copied e, rc) es = (if rc = RS_OK then es @ [e] else es)"
| "list_step ss (Truncated i, rc) es = take (i - ss) es"

fun store_op_ok :: "nat \<Rightarrow> store_op \<Rightarrow> bool" where
  "store_op_ok ss (Created e) = entry_ok e"
| "store_op_ok ss (Copied e) = entry_ok e"
| "store_op_ok ss (Truncated i) = (ss \<le> i \<and> i + 1 < 2 ^ 64)"

lemma store_step_rep:
  assumes "store_rep s es" "store_op_ok (st_ss_index s) a" "st_ss_index s + Suc (length es) < 2 ^ 64"
  shows "\<exists>rc s'. store_step env a s = Some (rc, s') \<and>
    (rc = RS_OK \<or> rc = RS_FULL \<longrightarrow> store_rep s' (list_step (st_ss_index s) (a, rc) es) \<and>
      st_ss_index s' = st_ss_index s \<and> st_ss_term s' = st_ss_term s)"
proof (cases a)
  case (Created e)
  then show ?thesis using store_create_rep [of s es e env] assms by auto
next
  case (Copied e)
  then show ?thesis using store_put_rep [of s es e env "st_last_index s + 1" "[]"] assms by auto
next
  case (Truncated i)
  then show ?thesis using store_remove_after_rep [of s es i] assms by auto
qed

lemma list_step_length: "length (list_step ss x es) \<le> Suc (length es)"
  by (cases "(ss, x, es)" rule: list_step.cases) auto

lemma store_run_rep:
  assumes "store_rep s es" "\<forall>a \<in> set ops. store_op_ok (st_ss_index s) a"
    "st_ss_index s + length es + length ops < 2 ^ 64"
  shows "\<exists>rcs s'. store_run envs ops s = Some (rcs, s') \<and>
    (set rcs \<subseteq> {RS_OK, RS_FULL} \<longrightarrow> length rcs = length ops \<and>
       store_rep s' (fold (list_step (st_ss_index s)) (zip ops rcs) es) \<and>
       st_ss_index s' = st_ss_index s \<and> st_ss_term s' = st_ss_term s)"
  using assms
proof (induction ops arbitrary: s es envs)
  case (Cons a ops)
  have ok: "store_op_ok (st_ss_index s) a" "st_ss_index s + Suc (length es) < 2 ^ 64"
    using Cons.prems by simp_all
  obtain rc s1 where a: "store_step (envs 0) a s = Some (rc, s1)"
      "rc = RS_OK \<or> rc = RS_FULL \<longrightarrow> store_rep s1 (list_step (st_ss_index s) (a, rc) es) \<and>
        st_ss_index s1 = st_ss_index s \<and> st_ss_term s1 = st_ss_term s"
    using store_step_rep [OF Cons.prems(1) ok, of "envs 0"] by blast
  show ?case
  proof (cases "rc = RS_OK \<or> rc = RS_FULL")
    case True
    let ?es = "list_step (st_ss_index s) (a, rc) es"
    have r: "store_rep s1 ?es" "st_ss_index s1 = st_ss_index s" "st_ss_term s1 = st_ss_term s"
      using a(2) True by blast+
    have p: "\<forall>a \<in> set ops. store_op_ok (st_ss_index s1) a" "st_ss_index s1 + length ?es + length ops < 2 ^ 64"
      using Cons.prems(2,3) r(2) list_step_length [of "st_ss_index s" "(a, rc)" es] by auto
    obtain rcs s' where "store_run (\<lambda>k. envs (Suc k)) ops s1 = Some (rcs, s')"
        "set rcs \<subseteq> {RS_OK, RS_FULL} \<longrightarrow> length rcs = length ops \<and>
         store_rep s' (fold (list_step (st_ss_index s1)) (zip ops rcs) ?es) \<and>
         st_ss_index s' = st_ss_index s1 \<and> st_ss_term s' = st_ss_term s1"
      using Cons.IH [OF r(1) p, of "\<lambda>k. envs (Suc k)"] by blast
    then show ?thesis using a(1) True r(2,3) by (intro exI [of _ "rc # rcs"] exI [of _ s']) auto
  qed (use a in auto)
qed simp

lemma store_get_rep:
  assumes "store_rep s es"
  shows "map_option decode_entry (store_get_entry s i) = log_at (st_ss_index s) es i"
proof -
  obtain es0 es1 where es: "es = es0 @ es1" "store_pages s es0 es1"
    using assms by (rule store_repE)
  show ?thesis
    unfolding store_get_entry_decode es(1)
    by (rule created.lookup_both [OF store_pages_follows [OF es(2)]])
qed

lemma entry_term_decode: "entry_term b = e_term (decode_entry b)"
  by (simp add: decode_entry_def)

lemma store_prev_term_rep:
  assumes "store_rep s es"
  shows "store_prev_term s i = (case log_at (st_ss_index s) es i of None \<Rightarrow> st_ss_term s | Some e \<Rightarrow> e_term e)"
  using store_get_rep [OF assms, of i]
  by (auto simp: store_prev_term_def entry_term_decode split: option.splits)

text \<open>
  C27: The store is a log. Whatever sequence of entries is created, copied from a leader, or truncated,
  the calls return, the store stays well-formed, and unless one of them reports an error it holds the
  list the same operations make: in either page, across page switches and however the attempts to grow
  a page turn out. A call that reports that the log is full has changed nothing; every index is read
  back with its entry, and its term.
\<close>

theorem store_refines_log:
  assumes "store_rep s es" "\<forall>a \<in> set ops. store_op_ok (st_ss_index s) a"
    "st_ss_index s + length es + length ops < 2 ^ 64"
  shows "\<exists>rcs s'. store_run envs ops s = Some (rcs, s') \<and>
    (set rcs \<subseteq> {RS_OK, RS_FULL} \<longrightarrow>
      (let es' = fold (list_step (st_ss_index s)) (zip ops rcs) es
       in store_rep s' es' \<and>
         (\<forall>i. map_option decode_entry (store_get_entry s' i) = log_at (st_ss_index s) es' i) \<and>
         (\<forall>i. store_prev_term s' i =
            (case log_at (st_ss_index s) es' i of None \<Rightarrow> st_ss_term s | Some e \<Rightarrow> e_term e))))"
proof -
  obtain rcs s' where r: "store_run envs ops s = Some (rcs, s')"
      "set rcs \<subseteq> {RS_OK, RS_FULL} \<longrightarrow> length rcs = length ops \<and>
       store_rep s' (fold (list_step (st_ss_index s)) (zip ops rcs) es) \<and>
       st_ss_index s' = st_ss_index s \<and> st_ss_term s' = st_ss_term s"
    using store_run_rep [OF assms, of envs] by blast
  then show ?thesis
    using store_get_rep [of s' "fold (list_step (st_ss_index s)) (zip ops rcs) es"]
      store_prev_term_rep [of s' "fold (list_step (st_ss_index s)) (zip ops rcs) es"]
    by (intro exI [of _ rcs] exI [of _ s']) (auto simp: Let_def split: option.split)
qed

text \<open>A store without entries, after the index \<open>ss\<close>.\<close>

definition blank_store :: "nat \<Rightarrow> nat \<Rightarrow> store" where
  "blank_store n ss = \<lparr>st_ss_index = ss, st_ss_term = 1, st_p0 = blank_page n ss, st_p1 = blank_page n 0,
     st_curr = False, st_last_term = 1, st_last_index = ss\<rparr>"

lemma blank_store_rep:
  assumes "72 \<le> n" "n < 2 ^ 32" "ss < 2 ^ 64"
  shows "store_rep (blank_store n ss) []"
  using blank_page_rep(1) [OF assms] blank_page_rep(1) [of n 0] assms
  by (auto simp: store_rep_def store_pages_def blank_store_def)

lemma blank_store_frame [simp]:
  "st_ss_index (blank_store n ss) = ss" "st_ss_term (blank_store n ss) = 1"
  "p_map_len (st_p0 (blank_store n ss)) = n" "p_map_len (st_p1 (blank_store n ss)) = n"
  "st_last_index (blank_store n ss) = ss"
  by (simp_all add: blank_store_def)

theorem store_refines_log_witness:
  "let e = \<lparr>e_term = 3, e_seq = 1, e_cid = 2, e_flags = 0, e_data = [7]\<rparr>
   in \<exists>rcs s'. store_run (\<lambda>_ _. (MMAP_OK, MMAP_OK)) [Created e, Copied e, Truncated 11] (blank_store 150 10) =
        Some (rcs, s') \<and>
      (rcs = [RS_OK, RS_OK, RS_OK] \<longrightarrow> map_option decode_entry (store_get_entry s' 11) = Some e)"
proof -
  let ?e = "\<lparr>e_term = 3, e_seq = 1, e_cid = 2, e_flags = 0, e_data = [7]\<rparr>"
  have "\<forall>a \<in> set [Created ?e, Copied ?e, Truncated 11]. store_op_ok 10 a"
    by (simp add: entry_ok_def entry_size_def)
  then obtain rcs s' where "store_run (\<lambda>_ _. (MMAP_OK, MMAP_OK)) [Created ?e, Copied ?e, Truncated 11]
        (blank_store 150 10) = Some (rcs, s')"
      "set rcs \<subseteq> {RS_OK, RS_FULL} \<longrightarrow> (\<forall>i. map_option decode_entry (store_get_entry s' i) =
        log_at 10 (fold (list_step 10) (zip [Created ?e, Copied ?e, Truncated 11] rcs) []) i)"
    using store_refines_log [of "blank_store 150 10" "[]" "[Created ?e, Copied ?e, Truncated 11]"
        "\<lambda>_ _. (MMAP_OK, MMAP_OK)"] blank_store_rep [of 150 10]
    unfolding Let_def by auto
  then show ?thesis
    unfolding Let_def by (intro exI [of _ rcs] exI [of _ s']) (auto simp: log_at_def)
qed

text \<open>
  C28: A restart keeps the log. Closing the store and opening the two files again, whichever of them is
  the first page by then, gives a store with the same entries after the same snapshot. The files are
  those the store wrote, of at least the initial size, and no entry has a checksum of zero.
\<close>

theorem store_restart:
  assumes "store_rep s es" "\<forall>e \<in> set es. crc_nonzero e"
    and "PAGE_INITIAL_SIZE \<le> p_map_len (st_p0 s)" "PAGE_INITIAL_SIZE \<le> p_map_len (st_p1 s)"
    and "store_term s = (f0, f1) \<or> store_term s = (f1, f0)"
  shows "\<exists>s'. store_init q0 q1 (st_ss_term s) (st_ss_index s) f0 MMAP_OK f1 MMAP_OK =
      Some (RS_OK, Some s') \<and> store_rep s' es \<and> st_last_index s' = st_last_index s \<and>
      st_last_term s' = st_last_term s \<and> (\<forall>i. map_option decode_entry (store_get_entry s' i) =
        map_option decode_entry (store_get_entry s i))"
proof -
  obtain s' where s': "store_init q0 q1 (st_ss_term s) (st_ss_index s) f0 MMAP_OK f1 MMAP_OK =
      Some (RS_OK, Some s')" "store_rep s' es" "st_ss_index s' = st_ss_index s" "st_ss_term s' = st_ss_term s"
    using store_reopen [OF assms, of q0 q1] by blast
  then show ?thesis
    using store_get_rep [OF assms(1)] store_get_rep [OF s'(2)] assms(1)
    by (intro exI [of _ s']) (simp add: store_rep_def)
qed

theorem store_restart_witness:
  "let s = blank_store PAGE_INITIAL_SIZE 10; (f0, f1) = store_term s
   in \<exists>s'. store_init (st_p0 s) (st_p1 s) 1 10 f1 MMAP_OK f0 MMAP_OK = Some (RS_OK, Some s') \<and>
        st_last_index s' = 10"
proof -
  let ?s = "blank_store PAGE_INITIAL_SIZE 10"
  obtain f0 f1 where f: "store_term ?s = (f0, f1)" by (cases "store_term ?s")
  have "store_rep ?s []" using blank_store_rep [of PAGE_INITIAL_SIZE 10] by (simp add: PAGE_INITIAL_SIZE_def)
  then show ?thesis
    using store_restart [of ?s "[]" f1 f0 "st_p0 ?s" "st_p1 ?s"] f
    by (auto simp: Let_def)
qed



text \<open>
  C30: Taking a snapshot drops the entries it covers and no other. While the second page is in use, the
  snapshot covers exactly the first page; afterwards its last entry is the snapshot's index and term,
  the log is what the second page held, and its indexes have not moved.
\<close>

theorem store_snapshot_trims:
  assumes "store_rep s (es0 @ es1)" "store_pages s es0 es1" "st_curr s" "es0 \<noteq> []"
  defines "s' \<equiv> store_snapshot_taken s"
  shows "st_ss_index s' = page_last_index (st_p0 s) \<and> st_ss_term s' = store_prev_term s (st_ss_index s') \<and>
    store_rep s' es1 \<and> st_last_index s' = st_last_index s \<and>
    (\<forall>i > st_ss_index s'. map_option decode_entry (store_get_entry s' i) =
       map_option decode_entry (store_get_entry s i))"
proof -
  note r = store_snapshot_rep [OF assms(2-4,1), folded s'_def]
  have p: "page_rep (st_p0 s) (st_ss_index s) es0" using assms(2) by (simp add: store_pages_def)
  have last: "log_at (st_ss_index s) (es0 @ es1) (st_ss_index s + length es0) = Some (last es0)"
    using assms(4) by (simp add: log_at_def nth_append last_conv_nth)
  have later: "log_at (st_ss_index s + length es0) es1 i = log_at (st_ss_index s) (es0 @ es1) i"
    if "st_ss_index s + length es0 < i" for i
    using that by (auto simp: log_at_def nth_append not_le)
  show ?thesis
    using r page_last_index_rep [OF p] assms(1) store_prev_term_rep [OF assms(1)] last
      store_get_rep [OF assms(1)] store_get_rep [OF r(1)] later
    by (simp add: store_rep_def)
qed

theorem store_snapshot_trims_witness:
  "let e = \<lparr>e_term = 3, e_seq = 1, e_cid = 2, e_flags = 0, e_data = [7]\<rparr>;
       s = \<lparr>st_ss_index = 10, st_ss_term = 1, st_p0 = page_create (blank_page 200 10) e,
            st_p1 = page_create (blank_page 200 11) (e\<lparr>e_term := 4\<rparr>), st_curr = True, st_last_term = 4,
            st_last_index = 12\<rparr>
   in st_ss_index (store_snapshot_taken s) = 11 \<and>
      store_rep (store_snapshot_taken s) [e\<lparr>e_term := 4\<rparr>]"
proof -
  let ?e = "\<lparr>e_term = 3, e_seq = 1, e_cid = 2, e_flags = 0, e_data = [7]\<rparr>"
  let ?s = "\<lparr>st_ss_index = 10, st_ss_term = 1, st_p0 = page_create (blank_page 200 10) ?e,
            st_p1 = page_create (blank_page 200 11) (?e\<lparr>e_term := 4\<rparr>), st_curr = True, st_last_term = 4,
            st_last_index = 12\<rparr>"
  have p: "page_rep (page_create (blank_page 200 10) ?e) 10 [?e]"
      "page_rep (page_create (blank_page 200 11) (?e\<lparr>e_term := 4\<rparr>)) 11 [?e\<lparr>e_term := 4\<rparr>]"
    by (rule blank_create_rep; simp add: entry_size_def)+
  then have s: "store_pages ?s [?e] [?e\<lparr>e_term := 4\<rparr>]" by (simp add: store_pages_def)
  have "store_rep ?s ([?e] @ [?e\<lparr>e_term := 4\<rparr>])"
    unfolding store_rep_def by (intro conjI exI) (rule refl, rule s, simp_all)
  then show ?thesis
    using store_snapshot_trims [OF _ s] page_last_index_rep [OF p(1)] by (simp add: Let_def)
qed

end
