(* ===== verification/Cmd.thy ===== *)
theory Cmd
  imports Meta
begin

text \<open>
  The commands of log entries, \<^verbatim>\<open>src/cmd.c\<close>. The clock readings of the encoders are arguments:
  \<open>realtime\<close> is \<^verbatim>\<open>sc_time_ms()\<close> and \<open>monotonic\<close> is \<^verbatim>\<open>sc_time_mono_ms()\<close>. A decoder returns the
  command and the buffer behind it.
\<close>

section \<open>Definitions\<close>

definition CMD_INIT :: u32 where "CMD_INIT = 0"
definition CMD_META :: u32 where "CMD_META = 1"
definition CMD_TERM :: u32 where "CMD_TERM = 2"
definition CMD_REQUEST :: u32 where "CMD_REQUEST = 3"
definition CMD_CONNECT :: u32 where "CMD_CONNECT = 4"
definition CMD_DISCONNECT :: u32 where "CMD_DISCONNECT = 5"
definition CMD_TIMESTAMP :: u32 where "CMD_TIMESTAMP = 6"
definition CMD_INFO :: u32 where "CMD_INFO = 7"
definition CMD_LOG :: u32 where "CMD_LOG = 8"

record cmd_init =
  ci_realtime :: u64
  ci_monotonic :: u64
  ci_rand :: bytes

record cmd_term =
  ct_realtime :: u64
  ct_monotonic :: u64

record cmd_connect =
  cc_name :: "cstring option"
  cc_local :: "cstring option"
  cc_remote :: "cstring option"

record cmd_disconnect =
  cd_name :: "cstring option"
  cd_clean :: bool

record cmd_timestamp =
  cs_realtime :: u64
  cs_monotonic :: u64

record cmd_log =
  cl_level :: "cstring option"
  cl_log :: "cstring option"

definition cmd_encode_init :: "sc_buf \<Rightarrow> u64 \<Rightarrow> u64 \<Rightarrow> bytes \<Rightarrow> sc_buf" where
  "cmd_encode_init b realtime monotonic rand =
     sc_buf_put_raw (sc_buf_put_64 (sc_buf_put_64 b realtime) monotonic) rand"

definition cmd_decode_init :: "sc_buf \<Rightarrow> cmd_init \<times> sc_buf" where
  "cmd_decode_init b =
     (let (realtime, b) = sc_buf_get_64 b;
          (monotonic, b) = sc_buf_get_64 b;
          (rand, b) = sc_buf_get_data b 256
      in (\<lparr>ci_realtime = realtime, ci_monotonic = monotonic, ci_rand = rand\<rparr>, b))"

definition cmd_encode_term :: "sc_buf \<Rightarrow> u64 \<Rightarrow> u64 \<Rightarrow> sc_buf" where
  "cmd_encode_term b realtime monotonic = sc_buf_put_64 (sc_buf_put_64 b realtime) monotonic"

definition cmd_decode_term :: "sc_buf \<Rightarrow> cmd_term \<times> sc_buf" where
  "cmd_decode_term b =
     (let (realtime, b) = sc_buf_get_64 b; (monotonic, b) = sc_buf_get_64 b
      in (\<lparr>ct_realtime = realtime, ct_monotonic = monotonic\<rparr>, b))"

definition cmd_encode_meta :: "sc_buf \<Rightarrow> meta \<Rightarrow> sc_buf" where
  "cmd_encode_meta b m = meta_encode m b"

definition cmd_decode_meta :: "sc_buf \<Rightarrow> (meta \<times> sc_buf) option" where
  "cmd_decode_meta b = meta_decode (meta_init (Some [])) b"

definition cmd_encode_connect :: "sc_buf \<Rightarrow> cstring option \<Rightarrow> cstring option \<Rightarrow> cstring option \<Rightarrow> sc_buf" where
  "cmd_encode_connect b nm loc remote = sc_buf_put_str (sc_buf_put_str (sc_buf_put_str b nm) loc) remote"

definition cmd_decode_connect :: "sc_buf \<Rightarrow> cmd_connect \<times> sc_buf" where
  "cmd_decode_connect b =
     (let (nm, b) = sc_buf_get_str b; (loc, b) = sc_buf_get_str b; (remote, b) = sc_buf_get_str b
      in (\<lparr>cc_name = nm, cc_local = loc, cc_remote = remote\<rparr>, b))"

definition cmd_encode_disconnect :: "sc_buf \<Rightarrow> cstring option \<Rightarrow> bool \<Rightarrow> sc_buf" where
  "cmd_encode_disconnect b nm clean = sc_buf_put_bool (sc_buf_put_str b nm) clean"

definition cmd_decode_disconnect :: "sc_buf \<Rightarrow> cmd_disconnect \<times> sc_buf" where
  "cmd_decode_disconnect b =
     (let (nm, b) = sc_buf_get_str b; (clean, b) = sc_buf_get_bool b
      in (\<lparr>cd_name = nm, cd_clean = clean\<rparr>, b))"

definition cmd_encode_timestamp :: "sc_buf \<Rightarrow> u64 \<Rightarrow> u64 \<Rightarrow> sc_buf" where
  "cmd_encode_timestamp b realtime monotonic = sc_buf_put_64 (sc_buf_put_64 b realtime) monotonic"

definition cmd_decode_timestamp :: "sc_buf \<Rightarrow> cmd_timestamp \<times> sc_buf" where
  "cmd_decode_timestamp b =
     (let (realtime, b) = sc_buf_get_64 b; (monotonic, b) = sc_buf_get_64 b
      in (\<lparr>cs_realtime = realtime, cs_monotonic = monotonic\<rparr>, b))"

definition cmd_encode_log :: "sc_buf \<Rightarrow> cstring option \<Rightarrow> cstring option \<Rightarrow> sc_buf" where
  "cmd_encode_log b level log = sc_buf_put_str (sc_buf_put_str b level) log"

definition cmd_decode_log :: "sc_buf \<Rightarrow> cmd_log \<times> sc_buf" where
  "cmd_decode_log b =
     (let (level, b) = sc_buf_get_str b; (log, b) = sc_buf_get_str b
      in (\<lparr>cl_level = level, cl_log = log\<rparr>, b))"

text \<open>
  The commands that are encoded from and decoded to a structure. \<^verbatim>\<open>CMD_REQUEST\<close> and \<^verbatim>\<open>CMD_INFO\<close>
  entries carry a client's request and the nodes' metrics, which their handlers read themselves.
\<close>

datatype cmd =
    Cmd_init cmd_init
  | Cmd_meta meta
  | Cmd_term cmd_term
  | Cmd_connect cmd_connect
  | Cmd_disconnect cmd_disconnect
  | Cmd_timestamp cmd_timestamp
  | Cmd_log cmd_log

fun cmd_id :: "cmd \<Rightarrow> u32" where
  "cmd_id (Cmd_init _) = CMD_INIT"
| "cmd_id (Cmd_meta _) = CMD_META"
| "cmd_id (Cmd_term _) = CMD_TERM"
| "cmd_id (Cmd_connect _) = CMD_CONNECT"
| "cmd_id (Cmd_disconnect _) = CMD_DISCONNECT"
| "cmd_id (Cmd_timestamp _) = CMD_TIMESTAMP"
| "cmd_id (Cmd_log _) = CMD_LOG"

fun cmd_encode :: "cmd \<Rightarrow> sc_buf \<Rightarrow> sc_buf" where
  "cmd_encode (Cmd_init c) b = cmd_encode_init b (ci_realtime c) (ci_monotonic c) (ci_rand c)"
| "cmd_encode (Cmd_meta m) b = cmd_encode_meta b m"
| "cmd_encode (Cmd_term c) b = cmd_encode_term b (ct_realtime c) (ct_monotonic c)"
| "cmd_encode (Cmd_connect c) b = cmd_encode_connect b (cc_name c) (cc_local c) (cc_remote c)"
| "cmd_encode (Cmd_disconnect c) b = cmd_encode_disconnect b (cd_name c) (cd_clean c)"
| "cmd_encode (Cmd_timestamp c) b = cmd_encode_timestamp b (cs_realtime c) (cs_monotonic c)"
| "cmd_encode (Cmd_log c) b = cmd_encode_log b (cl_level c) (cl_log c)"

text \<open>The decoding half of the switch in \<^verbatim>\<open>state_apply\<close>.\<close>

definition cmd_decode :: "u32 \<Rightarrow> sc_buf \<Rightarrow> (cmd \<times> sc_buf) option" where
  "cmd_decode t b =
     (if t = CMD_INIT then Some (map_prod Cmd_init id (cmd_decode_init b))
      else if t = CMD_META then map_option (map_prod Cmd_meta id) (cmd_decode_meta b)
      else if t = CMD_TERM then Some (map_prod Cmd_term id (cmd_decode_term b))
      else if t = CMD_CONNECT then Some (map_prod Cmd_connect id (cmd_decode_connect b))
      else if t = CMD_DISCONNECT then Some (map_prod Cmd_disconnect id (cmd_decode_disconnect b))
      else if t = CMD_TIMESTAMP then Some (map_prod Cmd_timestamp id (cmd_decode_timestamp b))
      else if t = CMD_LOG then Some (map_prod Cmd_log id (cmd_decode_log b))
      else None)"

section \<open>Encoding\<close>

fun cmd_fields :: "cmd \<Rightarrow> field list" where
  "cmd_fields (Cmd_init c) = [F64 (ci_realtime c), F64 (ci_monotonic c), FRaw (ci_rand c)]"
| "cmd_fields (Cmd_meta m) = meta_fields m"
| "cmd_fields (Cmd_term c) = [F64 (ct_realtime c), F64 (ct_monotonic c)]"
| "cmd_fields (Cmd_connect c) = [FStr (cc_name c), FStr (cc_local c), FStr (cc_remote c)]"
| "cmd_fields (Cmd_disconnect c) = [FStr (cd_name c), FBool (cd_clean c)]"
| "cmd_fields (Cmd_timestamp c) = [F64 (cs_realtime c), F64 (cs_monotonic c)]"
| "cmd_fields (Cmd_log c) = [FStr (cl_level c), FStr (cl_log c)]"

definition cmd_bytes :: "cmd \<Rightarrow> bytes" where
  "cmd_bytes c = concat (map enc_field (cmd_fields c))"

fun cmd_ok :: "cmd \<Rightarrow> bool" where
  "cmd_ok (Cmd_init c) = (length (ci_rand c) = 256)"
| "cmd_ok (Cmd_meta m) = meta_ok m"
| "cmd_ok (Cmd_connect c) = (str_ok (cc_name c) \<and> str_ok (cc_local c) \<and> str_ok (cc_remote c))"
| "cmd_ok (Cmd_disconnect c) = str_ok (cd_name c)"
| "cmd_ok (Cmd_log c) = (str_ok (cl_level c) \<and> str_ok (cl_log c))"
| "cmd_ok _ = True"

lemmas cmd_encode_defs = cmd_encode_init_def cmd_encode_meta_def cmd_encode_term_def cmd_encode_connect_def
  cmd_encode_disconnect_def cmd_encode_timestamp_def cmd_encode_log_def

lemmas cmd_ids = CMD_INIT_def CMD_META_def CMD_TERM_def CMD_CONNECT_def CMD_DISCONNECT_def CMD_TIMESTAMP_def CMD_LOG_def

lemma cmd_encode_fields: "cmd_encode c b = foldl put_field b (cmd_fields c)"
  by (cases c) (simp_all add: cmd_encode_defs meta_encode_fields)

lemma cmd_fields_ok: "cmd_ok c \<Longrightarrow> f \<in> set (cmd_fields c) \<Longrightarrow> field_ok f"
  by (cases c) (auto dest: meta_fields_ok)

lemma holds_times:
  assumes "holds b (le64 r @ le64 m @ xs)"
  obtains b1 b2 where "sc_buf_get_64 b = (r, b1)" "sc_buf_get_64 b1 = (m, b2)" "holds b2 xs"
  using holds_64 [OF assms] holds_64 [of "adv b 8" m xs] that by blast

lemma holds_data:
  "holds b (d @ xs) \<Longrightarrow> sc_buf_get_data b (length d) = (d, adv b (length d)) \<and> holds (adv b (length d)) xs"
  using get_data [of b "length d"] holds_adv [of b d xs] by (simp add: holds_def)

lemma cmd_decode_holds:
  assumes ok: "cmd_ok c" and h: "holds b (cmd_bytes c)"
  shows "\<exists>b'. cmd_decode (cmd_id c) b = Some (c, b') \<and> holds b' []"
proof (cases c)
  case (Cmd_init x)
  have "holds b (le64 (ci_realtime x) @ le64 (ci_monotonic x) @ ci_rand x)"
    using h Cmd_init by (simp add: cmd_bytes_def)
  from holds_times [OF this] obtain b1 b2 where
    b: "sc_buf_get_64 b = (ci_realtime x, b1)" "sc_buf_get_64 b1 = (ci_monotonic x, b2)" "holds b2 (ci_rand x)" .
  show ?thesis
    using holds_data [of b2 "ci_rand x" "[]"] b ok Cmd_init by (simp add: cmd_decode_def cmd_decode_init_def)
next
  case (Cmd_meta m)
  have "holds b (meta_bytes m @ [])" using h Cmd_meta by (simp add: cmd_bytes_def meta_bytes_def)
  from meta_decode_enc [OF _ this, of "meta_init (Some [])"] show ?thesis
    using ok Cmd_meta by (auto simp: cmd_decode_def cmd_decode_meta_def cmd_ids meta_init_def)
next
  case (Cmd_term x)
  have "holds b (le64 (ct_realtime x) @ le64 (ct_monotonic x) @ [])" using h Cmd_term by (simp add: cmd_bytes_def)
  from holds_times [OF this] obtain b1 b2 where
    b: "sc_buf_get_64 b = (ct_realtime x, b1)" "sc_buf_get_64 b1 = (ct_monotonic x, b2)" "holds b2 []" .
  then show ?thesis using Cmd_term by (simp add: cmd_decode_def cmd_decode_term_def cmd_ids)
next
  case (Cmd_connect x)
  have s: "str_ok (cc_name x)" "str_ok (cc_local x)" "str_ok (cc_remote x)" using ok Cmd_connect by simp_all
  have "holds b (enc_str (cc_name x) @ enc_str (cc_local x) @ enc_str (cc_remote x) @ [])"
    using h Cmd_connect by (simp add: cmd_bytes_def)
  note h1 = holds_str [OF this s(1)]
  note h2 = holds_str [OF conjunct2 [OF h1] s(2)]
  note h3 = holds_str [OF conjunct2 [OF h2] s(3)]
  show ?thesis using h1 h2 h3 Cmd_connect by (simp add: cmd_decode_def cmd_decode_connect_def cmd_ids)
next
  case (Cmd_disconnect x)
  have s: "str_ok (cd_name x)" using ok Cmd_disconnect by simp
  have "holds b (enc_str (cd_name x) @ enc_bool (cd_clean x) @ [])" using h Cmd_disconnect by (simp add: cmd_bytes_def)
  note h1 = holds_str [OF this s]
  note h2 = holds_bool [OF conjunct2 [OF h1]]
  show ?thesis using h1 h2 Cmd_disconnect by (simp add: cmd_decode_def cmd_decode_disconnect_def cmd_ids)
next
  case (Cmd_timestamp x)
  have "holds b (le64 (cs_realtime x) @ le64 (cs_monotonic x) @ [])" using h Cmd_timestamp by (simp add: cmd_bytes_def)
  from holds_times [OF this] obtain b1 b2 where
    b: "sc_buf_get_64 b = (cs_realtime x, b1)" "sc_buf_get_64 b1 = (cs_monotonic x, b2)" "holds b2 []" .
  then show ?thesis using Cmd_timestamp by (simp add: cmd_decode_def cmd_decode_timestamp_def cmd_ids)
next
  case (Cmd_log x)
  have s: "str_ok (cl_level x)" "str_ok (cl_log x)" using ok Cmd_log by simp_all
  have "holds b (enc_str (cl_level x) @ enc_str (cl_log x) @ [])" using h Cmd_log by (simp add: cmd_bytes_def)
  note h1 = holds_str [OF this s(1)]
  note h2 = holds_str [OF conjunct2 [OF h1] s(2)]
  show ?thesis using h1 h2 Cmd_log by (simp add: cmd_decode_def cmd_decode_log_def cmd_ids)
qed

section \<open>Properties\<close>

text \<open>
  C37: Every command survives its encoding: what its encoder writes to an empty buffer with room, the
  decoder for its identifier reads back, and it reads all of it.
\<close>

theorem cmd_round_trip:
  assumes "cmd_ok c" "sc_buf_wf b" "sc_buf_data b = []" "room b (2 * length (cmd_fields c)) (length (cmd_bytes c))"
  shows "\<exists>b'. cmd_decode (cmd_id c) (cmd_encode c b) = Some (c, b') \<and> sc_buf_data b' = [] \<and> err b' = 0"
proof -
  have "holds (cmd_encode c b) (cmd_bytes c)"
    unfolding cmd_encode_fields cmd_bytes_def
    using assms cmd_fields_ok by (intro holds_foldl) (auto simp: cmd_bytes_def)
  from cmd_decode_holds [OF assms(1) this] show ?thesis by (auto simp: holds_def)
qed

theorem cmd_round_trip_witness:
  "\<exists>b'. cmd_decode CMD_DISCONNECT (cmd_encode_disconnect (sc_buf_init 64) (Some [97]) True) =
     Some (Cmd_disconnect \<lparr>cd_name = Some [97], cd_clean = True\<rparr>, b') \<and> sc_buf_data b' = [] \<and> err b' = 0"
proof -
  let ?c = "Cmd_disconnect \<lparr>cd_name = Some [97], cd_clean = True\<rparr>"
  have "sc_buf_wf (sc_buf_init 64)" "sc_buf_data (sc_buf_init 64) = []" "cmd_ok ?c"
    "room (sc_buf_init 64) (2 * length (cmd_fields ?c)) (length (cmd_bytes ?c))"
    by (simp_all add: sc_buf_init_def sc_buf_wrap_def sc_buf_wf_def sc_buf_data_def sc_buf_contents_def str_ok_def
        room_def SC_BUF_MAX_def cmd_bytes_def enc_str_def enc_bool_def)
  then show ?thesis using cmd_round_trip [of ?c "sc_buf_init 64"] by simp
qed

end
