(* ===== verification/Server.thy ===== *)
theory Server
  imports Node Snapshot Store Cmd "HOL-Library.AList"
begin

text \<open>
  The server, \<^verbatim>\<open>src/server.c\<close>: the Raft protocol over the store, the configuration and the
  connections. A handler takes the server and returns its result code with the server after it; a
  pointer to a node, a client or a pending connection is a number, and the server holds what it
  points to. No result means that the call does not return, because the process aborts in it or a
  loop of it does not end.

  Everything the server does not compute itself is the environment \<open>env\<close>, which answers each question
  by how many questions were asked before: file operations, the poll, sockets, memory mappings, the
  snapshot thread, the clocks, randomness. The state machine that commands are applied to is part of
  it as well. Logging, metrics and timers are not modelled.
\<close>

section \<open>The server and its environment\<close>

datatype server_role = SERVER_ROLE_FOLLOWER | SERVER_ROLE_CANDIDATE | SERVER_ROLE_LEADER

datatype server_job_type = SERVER_JOB_ADD_NODE | SERVER_JOB_REMOVE_NODE | SERVER_JOB_SHUTDOWN

type_synonym server_job = "server_job_type \<times> cstring option"

text \<open>What the server reads of a client's session in the state machine.\<close>

record session =
  se_name :: cstring
  se_id :: u64
  se_seq :: u64
  se_resp :: bytes

text \<open>
  The state machine: applying an entry gives a result, the session it belongs to, the administrative
  calls that a statement made, and the new state, or aborts; reading gives the response and the
  calls, or does not return.
\<close>

record 'st machine =
  sm_apply :: "nat \<Rightarrow> bytes \<Rightarrow> 'st \<Rightarrow> (rs_rc \<times> session option \<times> server_job list \<times> 'st) option"
  sm_read :: "u64 \<Rightarrow> bytes \<Rightarrow> sc_buf \<Rightarrow> 'st \<Rightarrow> (rs_rc \<times> sc_buf \<times> server_job list \<times> 'st) option"
  sm_meta :: "'st \<Rightarrow> meta"
  sm_term :: "'st \<Rightarrow> u64"

record 'st env = "'st machine" +
  ev_file :: "nat \<Rightarrow> rs_rc"
  ev_ok :: "nat \<Rightarrow> bool"
  ev_send :: "nat \<Rightarrow> nat \<times> send_end"
  ev_recv :: "nat \<Rightarrow> recv_rc"
  ev_mmap :: "nat \<Rightarrow> nat \<Rightarrow> mmap_rc \<times> mmap_rc"
  ev_running :: "nat \<Rightarrow> bool"
  ev_wait :: "nat \<Rightarrow> rs_rc \<times> nat \<times> u64 \<times> bytes"
  ev_time :: "nat \<Rightarrow> u64 \<times> u64"
  ev_rand :: "nat \<Rightarrow> bytes option"

record 'st server =
  sv_name :: "cstring option"
  sv_cluster :: "cstring option"
  sv_heartbeat :: u64
  sv_fsync :: bool
  sv_meta :: meta
  sv_store :: store
  sv_state :: 'st
  sv_ss :: snapshot
  sv_node :: "nat \<Rightarrow> node"
  sv_fresh :: nat
  sv_nodes :: "nat list"
  sv_unknown :: "nat list"
  sv_connected :: "nat list"
  sv_leader :: "nat option"
  sv_own :: nat
  sv_client :: "nat \<Rightarrow> client"
  sv_cfresh :: nat
  sv_clients :: "(cstring \<times> nat) list"
  sv_vclients :: "(u64 \<times> nat) list"
  sv_term_clients :: "nat list"
  sv_read_reqs :: "nat list"
  sv_conn :: "nat \<Rightarrow> conn"
  sv_pending :: "nat list"
  sv_tmp :: sc_buf
  sv_jobs :: "server_job list"
  sv_cache :: "sc_buf list"
  sv_ss_inprogress :: bool
  sv_stop :: bool
  sv_cluster_up :: bool
  sv_full :: bool
  sv_in_cluster :: bool
  sv_voted_for :: "cstring option"
  sv_role :: server_role
  sv_prevote_count :: u32
  sv_vote_count :: u32
  sv_vote_ts :: u64
  sv_prevote_term :: u64
  sv_round_prev :: u64
  sv_round_match :: u64
  sv_round :: u64
  sv_commit :: nat
  sv_ts :: u64
  sv_last_ts :: u64
  sv_last_quorum :: u64
  sv_disk :: "bytes option"
  sv_tick :: nat

definition tick :: "'st server \<Rightarrow> 'st server" where
  "tick s = s\<lparr>sv_tick := Suc (sv_tick s)\<rparr>"

text \<open>Asking the environment.\<close>

definition ask :: "(nat \<Rightarrow> 'a) \<Rightarrow> 'st server \<Rightarrow> 'a \<times> 'st server" where
  "ask q s = (q (sv_tick s), tick s)"

text \<open>Going on when a call succeeds, and returning its result otherwise.\<close>

definition ok_then :: "rs_rc \<times> 's \<Rightarrow> ('s \<Rightarrow> rs_rc \<times> 's) \<Rightarrow> rs_rc \<times> 's" where
  "ok_then r f = (case r of (rc, s) \<Rightarrow> if rc = RS_OK then f s else (rc, s))"

definition ok_bind :: "(rs_rc \<times> 's) option \<Rightarrow> ('s \<Rightarrow> (rs_rc \<times> 's) option) \<Rightarrow> (rs_rc \<times> 's) option" where
  "ok_bind r f = Option.bind r (\<lambda>(rc, s). if rc = RS_OK then f s else Some (rc, s))"

definition set_term :: "meta \<Rightarrow> u64 \<Rightarrow> meta" where
  "set_term m t = Meta (m_name m) (m_uris m) t (m_index m) (m_voter m) (m_nodes m) (m_prev m)"

definition set_index :: "meta \<Rightarrow> u64 \<Rightarrow> meta" where
  "set_index m i = Meta (m_name m) (m_uris m) (m_term m) i (m_voter m) (m_nodes m) (m_prev m)"

definition set_node :: "'st server \<Rightarrow> nat \<Rightarrow> node \<Rightarrow> 'st server" where
  "set_node s i n = s\<lparr>sv_node := (sv_node s)(i := n)\<rparr>"

definition set_client :: "'st server \<Rightarrow> nat \<Rightarrow> client \<Rightarrow> 'st server" where
  "set_client s i c = s\<lparr>sv_client := (sv_client s)(i := c)\<rparr>"

text \<open>Writing a message to a node: \<^verbatim>\<open>conn_out\<close> and one of the \<^verbatim>\<open>msg_create\<close> functions.\<close>

definition node_send :: "'st server \<Rightarrow> nat \<Rightarrow> (sc_buf \<Rightarrow> bool \<times> sc_buf) \<Rightarrow> 'st server" where
  "node_send s i create =
     (let (c, cache) = conn_out (nd_conn (sv_node s i)) (sv_cache s);
          c = c\<lparr>c_out := snd (create (c_out c))\<rparr>
      in (set_node s i ((sv_node s i)\<lparr>nd_conn := c\<rparr>))\<lparr>sv_cache := cache\<rparr>)"

definition node_flush :: "'st env \<Rightarrow> 'st server \<Rightarrow> nat \<Rightarrow> rs_rc \<times> 'st server" where
  "node_flush env s i =
     (let ((k, e), s) = ask (ev_send env) s;
          (rc, c, cache) = conn_flush k e (nd_conn (sv_node s i)) (sv_cache s)
      in (rc, (set_node s i ((sv_node s i)\<lparr>nd_conn := c\<rparr>))\<lparr>sv_cache := cache\<rparr>))"

text \<open>\<^verbatim>\<open>node_disconnect\<close> also takes the node out of the list of connected nodes.\<close>

definition node_drop :: "'st env \<Rightarrow> 'st server \<Rightarrow> nat \<Rightarrow> 'st server" where
  "node_drop env s i =
     (let (ok, s) = ask (ev_ok env) s;
          (n, cache) = node_disconnect ok (sv_node s i) (sv_cache s)
      in (set_node s i n)\<lparr>sv_connected := remove1 i (sv_connected s), sv_cache := cache\<rparr>)"

definition server_on_node_disconnect :: "'st env \<Rightarrow> 'st server \<Rightarrow> nat \<Rightarrow> 'st server" where
  "server_on_node_disconnect env s i =
     (let s = node_drop env s i in if sv_leader s = Some i then s\<lparr>sv_leader := None\<rparr> else s)"

text \<open>Flushing and disconnecting on failure, as most callers do.\<close>

definition flush_or_drop :: "'st env \<Rightarrow> 'st server \<Rightarrow> nat \<Rightarrow> 'st server" where
  "flush_or_drop env s i =
     (let (rc, s) = node_flush env s i in if rc \<noteq> RS_OK then server_on_node_disconnect env s i else s)"

section \<open>Connections and configuration\<close>

definition server_create_node :: "'st server \<Rightarrow> cstring option \<Rightarrow> sc_uri option list \<Rightarrow> 'st server" where
  "server_create_node s nm uris =
     (if the nm = the (sv_name s) then s
      else if list_ex (\<lambda>i. the (nd_name (sv_node s i)) = the nm) (sv_nodes s) then s
      else let n = node_clear_indexes (node_add_uris (node_create nm) uris) (st_last_index (sv_store s))
        in (set_node s (sv_fresh s) n)\<lparr>sv_nodes := sv_nodes s @ [sv_fresh s], sv_fresh := Suc (sv_fresh s)\<rparr>)"

definition server_update_connections :: "'st server \<Rightarrow> 'st server" where
  "server_update_connections s =
     (let known = (\<lambda>i. meta_exists (sv_meta s) (the (nd_name (sv_node s i))));
          olds = filter (\<lambda>i. i \<noteq> sv_own s) (sv_nodes s);
          conn = filter (\<lambda>i. i \<notin> set (filter (\<lambda>i. \<not> known i) olds)) (sv_connected s);
          conn = foldl (\<lambda>l i. remove1 i l @ [i]) conn (filter known (sv_unknown s));
          s = s\<lparr>sv_nodes := filter known olds @ filter known (sv_unknown s),
                sv_unknown := filter (\<lambda>i. \<not> known i) olds @ filter (\<lambda>i. \<not> known i) (sv_unknown s),
                sv_connected := conn\<rparr>;
          s = foldl (\<lambda>s m. server_create_node s (mn_name m) (mn_uris m)) s (m_nodes (sv_meta s))
      in if sv_in_cluster s then s\<lparr>sv_nodes := sv_nodes s @ [sv_own s]\<rparr> else s)"

definition server_sending_snapshot :: "'st server \<Rightarrow> bool" where
  "server_sending_snapshot s =
     list_ex (\<lambda>i. nd_match (sv_node s i) < ss_index (sv_ss s)) (sv_connected s)"

text \<open>
  Waiting for the snapshot thread, which leaves the index, the term and the file of the snapshot it
  took. The result of reopening the snapshot is ignored.
\<close>

definition server_wait_snapshot :: "'st env \<Rightarrow> 'st server \<Rightarrow> rs_rc \<times> 'st server" where
  "server_wait_snapshot env s =
     (if \<not> sv_ss_inprogress s then (RS_NOOP, s)
      else let ((rc, idx, term, content), s) = ask (ev_wait env) (s\<lparr>sv_ss_inprogress := False\<rparr>)
        in if rc \<noteq> RS_OK then (rc, s)
           else let s = s\<lparr>sv_store := store_snapshot_taken (sv_store s)\<rparr>;
                    ss = (sv_ss s)\<lparr>ss_latest_index := idx, ss_latest_term := term, ss_file := content\<rparr>;
                    (ok1, s) = ask (ev_ok env) s;
                    (ok2, s) = ask (ev_ok env) s
             in (RS_OK, s\<lparr>sv_ss := snd (snapshot_replace ok1 ok2 ss)\<rparr>))"

section \<open>Entries\<close>

partial_function (option) server_create_entry ::
    "'st env \<Rightarrow> 'st server \<Rightarrow> bool \<Rightarrow> u64 \<Rightarrow> u64 \<Rightarrow> u32 \<Rightarrow> bytes \<Rightarrow> (rs_rc \<times> 'st server) option" where
  "server_create_entry env s force seq cid flags data =
     Option.bind (store_create_entry (ev_mmap env (sv_tick s)) (sv_store s) (m_term (sv_meta s)) seq cid flags data)
       (\<lambda>(rc, st).
         let s = tick (s\<lparr>sv_store := st\<rparr>) in
         if rc \<noteq> RS_OK \<and> rc \<noteq> RS_FULL then Some (rc, s)
         else if rc = RS_FULL then
           let (running, s) = ask (ev_running env) s;
               (rc, s) = (if \<not> server_sending_snapshot s \<and> \<not> running then server_wait_snapshot env s else (RS_NOOP, s))
           in if rc = RS_OK then server_create_entry env s force seq cid flags data
              else if rc \<noteq> RS_NOOP then Some (rc, s)
              else Option.bind
                (if force \<or> \<not> store_last_part (sv_store s)
                 then let (mm, s) = ask (ev_mmap env) s
                   in map_option (\<lambda>(rc, st). (rc, s\<lparr>sv_store := st\<rparr>))
                        (store_reserve (sv_store s) (length data) (fst (mm 0)) (snd (mm 0)))
                 else Some (RS_FULL, s))
                (\<lambda>(rc, s).
                  if rc = RS_OK then server_create_entry env s force seq cid flags data
                  else if rc \<noteq> RS_FULL then Some (rc, s)
                  else let (rc, s) = (if sv_ss_inprogress s then server_wait_snapshot env s else (RS_NOOP, s))
                    in if rc = RS_OK then server_create_entry env s force seq cid flags data
                       else if rc \<noteq> RS_NOOP then Some (rc, s)
                       else Some (if force then RS_FULL else RS_REJECT, s))
         else if sv_ts s - sv_last_ts s > 3 then
           let ((real, mono), s) = ask (ev_time env) s;
               s = s\<lparr>sv_last_ts := sv_ts s, sv_tmp := cmd_encode_timestamp (sc_buf_clear (sv_tmp s)) real mono\<rparr>
           in Option.bind (server_create_entry env s True 0 0 CMD_TIMESTAMP (sc_buf_data (sv_tmp s)))
                (\<lambda>(_, s). Some (RS_OK, s))
         else Some (RS_OK, s))"

text \<open>Encoding a command in \<^verbatim>\<open>s->tmp\<close> and appending it to the log.\<close>

definition server_command ::
    "'st env \<Rightarrow> 'st server \<Rightarrow> u32 \<Rightarrow> (sc_buf \<Rightarrow> sc_buf) \<Rightarrow> (rs_rc \<times> 'st server) option" where
  "server_command env s flags enc =
     (let s = s\<lparr>sv_tmp := enc (sc_buf_clear (sv_tmp s))\<rparr>
      in server_create_entry env s True 0 0 flags (sc_buf_data (sv_tmp s)))"

section \<open>Clients\<close>

definition drop_client :: "'st server \<Rightarrow> nat \<Rightarrow> 'st server" where
  "drop_client s i =
     (let (c, cache) = client_set_terminated (sv_client s i) (sv_cache s)
      in (set_client s i c)\<lparr>sv_cache := cache, sv_read_reqs := remove1 i (sv_read_reqs s),
            sv_term_clients := sv_term_clients s @ [i]\<rparr>)"

definition server_on_client_disconnect ::
    "'st env \<Rightarrow> 'st server \<Rightarrow> nat \<Rightarrow> msg_rc \<Rightarrow> (rs_rc \<times> 'st server) option" where
  "server_on_client_disconnect env s i mrc =
     (let c = sv_client s i;
          s = drop_client (s\<lparr>sv_vclients := AList.delete (cl_id c) (sv_vclients s),
                sv_clients := AList.delete (the (cl_name c)) (sv_clients s)\<rparr>) i
      in if sv_role s \<noteq> SERVER_ROLE_LEADER then Some (RS_OK, s)
         else server_command env s CMD_DISCONNECT (\<lambda>b. cmd_encode_disconnect b (cl_name c) (mrc = MSG_OK)))"

section \<open>Roles\<close>

definition server_become_follower :: "'st server \<Rightarrow> nat option \<Rightarrow> u64 \<Rightarrow> 'st server" where
  "server_become_follower s lead term =
     (let s = (if sv_leader s \<noteq> lead
               then s\<lparr>sv_leader := lead,
                      sv_meta := meta_set_leader (sv_meta s) (Option.bind lead (\<lambda>i. nd_name (sv_node s i)))\<rparr>
               else s);
          s = s\<lparr>sv_role := SERVER_ROLE_FOLLOWER, sv_leader := lead, sv_prevote_count := 0, sv_prevote_term := 0,
                sv_vote_count := 0, sv_cluster_up := False, sv_meta := set_term (sv_meta s) term,
                sv_ss := snapshot_clear (sv_ss s)\<rparr>;
          s = foldl drop_client s (map snd (sv_clients s))
      in s\<lparr>sv_clients := [], sv_vclients := []\<rparr>)"

definition server_meta_change :: "'st server \<Rightarrow> 'st server" where
  "server_meta_change s =
     (let s = server_update_connections (s\<lparr>sv_in_cluster := meta_exists (sv_meta s) (the (sv_name s))\<rparr>)
      in if \<not> sv_in_cluster s \<and> sv_role s = SERVER_ROLE_LEADER \<and> m_prev (sv_meta s) = None
         then server_become_follower s None (m_term (sv_meta s)) else s)"

definition file_op :: "'st env \<Rightarrow> 'st server \<Rightarrow> rs_rc \<times> 'st server" where
  "file_op env s = ask (ev_file env) s"

text \<open>
  The file is written beside the old one and renamed over it; \<open>sv_disk\<close> is the file at its path. The
  steps are: open, write, flush, close, rename, and synchronise the directory.
\<close>

definition server_write_meta :: "'st env \<Rightarrow> 'st server \<Rightarrow> rs_rc \<times> 'st server" where
  "server_write_meta env s =
     ok_then (file_op env s) (\<lambda>s.
       let b = sc_buf_put_str (sc_buf_put_str (sc_buf_clear (sv_tmp s)) (sv_name s)) (sv_voted_for s);
           s = s\<lparr>sv_tmp := meta_encode (sv_meta s) b\<rparr>
       in ok_then (file_op env s) (\<lambda>s.
          ok_then (file_op env s) (\<lambda>s.
          ok_then (file_op env s) (\<lambda>s.
          ok_then (file_op env s) (\<lambda>s.
            file_op env (s\<lparr>sv_disk := Some (sc_buf_data (sv_tmp s))\<rparr>))))))"

definition server_create_meta :: "'st env \<Rightarrow> 'st server \<Rightarrow> cstring option \<Rightarrow> (rs_rc \<times> 'st server) option" where
  "server_create_meta env s urls =
     Option.bind (meta_parse_uris (meta_init (sv_cluster s)) urls) (\<lambda>(b, m).
       let s = s\<lparr>sv_meta := m\<rparr> in Some (if \<not> b then (RS_ERROR, s) else server_write_meta env s))"

text \<open>The file operations are: open, size (failing with \<^verbatim>\<open>RS_ERROR\<close>), read.\<close>

definition server_parse_meta :: "'st env \<Rightarrow> 'st server \<Rightarrow> (rs_rc \<times> 'st server) option" where
  "server_parse_meta env s =
     ok_bind (Some (file_op env s)) (\<lambda>s.
       let (ok, s) = ask (ev_ok env) s in
       if \<not> ok then Some (RS_ERROR, s)
       else let d = the (sv_disk s);
                b = snd (sc_buf_reserve (sc_buf_clear (sv_tmp s)) (length d mod 2 ^ 32));
                s = s\<lparr>sv_tmp := b\<rparr>
         in ok_bind (Some (file_op env s)) (\<lambda>s.
              let b = sc_buf_mark_write (b\<lparr>mem := write_at (mem b) (wpos b) d\<rparr>) (length d mod 2 ^ 32);
                  (nm, b) = sc_buf_get_str b;
                  (voted, b) = sc_buf_get_str b
              in Option.bind (meta_decode (meta_init (sv_cluster s)) b) (\<lambda>(m, b).
                   Some (RS_OK, s\<lparr>sv_name := snd (sc_str_set (sv_name s) nm),
                     sv_voted_for := snd (sc_str_set (sv_voted_for s) voted), sv_meta := m, sv_tmp := b\<rparr>))))"

definition server_update_meta :: "'st env \<Rightarrow> 'st server \<Rightarrow> u64 \<Rightarrow> cstring option \<Rightarrow> rs_rc \<times> 'st server" where
  "server_update_meta env s term voted_for =
     server_write_meta env (s\<lparr>sv_meta := set_term (sv_meta s) term,
       sv_voted_for := snd (sc_str_set (sv_voted_for s) voted_for)\<rparr>)"

section \<open>Writing commands\<close>

definition lit :: "string \<Rightarrow> cstring" where
  "lit t = map of_char t"

text \<open>Decimal text, as \<^verbatim>\<open>%zu\<close> prints it.\<close>

fun dec_text :: "nat \<Rightarrow> cstring" where
  "dec_text n = (if n < 10 then [48 + of_nat n] else dec_text (n div 10) @ [48 + of_nat (n mod 10)])"

text \<open>The formatted text is cut to the 1023 characters that the array \<^verbatim>\<open>tmp\<close> holds.\<close>

definition server_log :: "'st env \<Rightarrow> 'st server \<Rightarrow> cstring \<Rightarrow> cstring \<Rightarrow> (rs_rc \<times> 'st server) option" where
  "server_log env s level txt =
     server_command env s CMD_LOG (\<lambda>b. cmd_encode_log b (Some level) (Some (take 1023 txt)))"

definition server_write_init_cmd :: "'st env \<Rightarrow> 'st server \<Rightarrow> (rs_rc \<times> 'st server) option" where
  "server_write_init_cmd env s =
     (case ask (ev_rand env) s of
        (None, s) \<Rightarrow> Some (RS_ERROR, s)
      | (Some rand, s) \<Rightarrow>
          (let ((real, mono), s) = ask (ev_time env) s
           in server_command env s CMD_INIT (\<lambda>b. cmd_encode_init b real mono rand)))"

definition server_write_meta_cmd :: "'st env \<Rightarrow> 'st server \<Rightarrow> (rs_rc \<times> 'st server) option" where
  "server_write_meta_cmd env s =
     (let m = set_index (meta_set_leader (sv_meta s) (sv_name s)) (of_nat (add64 (st_last_index (sv_store s)) 1))
      in server_command env (s\<lparr>sv_meta := m\<rparr>) CMD_META (\<lambda>b. cmd_encode_meta b m))"

definition server_write_term_start_cmd :: "'st env \<Rightarrow> 'st server \<Rightarrow> (rs_rc \<times> 'st server) option" where
  "server_write_term_start_cmd env s =
     (let ((real, mono), s) = ask (ev_time env) s
      in server_command env s CMD_TERM (\<lambda>b. cmd_encode_term b real mono))"

end
