(* ===== verification/Server_Election.thy ===== *)
theory Server_Election
  imports Server
begin

text \<open>
  Elections, \<^verbatim>\<open>src/server.c\<close>: the election timeout, the two rounds of votes (a pre-vote that
  changes nothing, then the vote), and becoming the leader. Printing the configuration for the log of
  the process is not modelled.
\<close>

section \<open>Definitions\<close>

definition clear_node :: "'st server \<Rightarrow> nat \<Rightarrow> 'st server" where
  "clear_node s i = set_node s i (node_clear_indexes (sv_node s i) (st_last_index (sv_store s)))"

definition server_become_leader :: "'st env \<Rightarrow> 'st server \<Rightarrow> (rs_rc \<times> 'st server) option" where
  "server_become_leader env s =
     (let s = s\<lparr>sv_role := SERVER_ROLE_LEADER, sv_leader := Some (sv_own s)\<rparr>;
          s = foldl clear_node s (sv_nodes s);
          s = foldl clear_node s (sv_unknown s)
      in ok_bind (if st_last_index (sv_store s) = 0 then server_write_init_cmd env s else Some (RS_OK, s))
           (\<lambda>s. ok_bind (server_write_meta_cmd env s) (server_write_term_start_cmd env)))"

text \<open>Sending the same message to every connected node.\<close>

definition broadcast :: "'st env \<Rightarrow> (sc_buf \<Rightarrow> bool \<times> sc_buf) \<Rightarrow> 'st server \<Rightarrow> 'st server" where
  "broadcast env create s = foldl (\<lambda>s i. flush_or_drop env (node_send s i create) i) s (sv_connected s)"

definition majority :: "'st server \<Rightarrow> u32" where
  "majority s = m_voter (sv_meta s) div 2 + 1"

definition server_check_prevote_count :: "'st env \<Rightarrow> 'st server \<Rightarrow> (rs_rc \<times> 'st server) option" where
  "server_check_prevote_count env s =
     (if sv_prevote_count s \<ge> majority s
      then let s = s\<lparr>sv_vote_count := (if sv_in_cluster s then 1 else 0)\<rparr>;
               vote = (if sv_in_cluster s then sv_name s else None)
        in ok_bind (Some (server_update_meta env s (sv_prevote_term s) vote)) (\<lambda>s.
             let s = broadcast env (\<lambda>b. msg_create_reqvote_req b (m_term (sv_meta s))
                       (of_nat (st_last_index (sv_store s))) (st_last_term (sv_store s))) s
             in if sv_vote_count s \<ge> majority s then server_become_leader env s else Some (RS_OK, s))
      else Some (RS_OK, s))"

text \<open>The leader is known and was heard from within the heartbeat timeout.\<close>

definition leader_alive :: "'st server \<Rightarrow> bool" where
  "leader_alive s =
     (case sv_leader s of None \<Rightarrow> False | Some l \<Rightarrow> sv_heartbeat s > sv_ts s - nd_in_ts (sv_node s l))"

definition server_on_election_timeout :: "'st env \<Rightarrow> 'st server \<Rightarrow> (rs_rc \<times> 'st server) option" where
  "server_on_election_timeout env s =
     (if sv_role s = SERVER_ROLE_LEADER
      then let diff = sv_ts s - sv_last_quorum s;
               s = (if diff > sv_heartbeat s then s\<lparr>sv_round := sv_round s + 1\<rparr> else s)
        in Some (RS_OK, if diff > sv_heartbeat s * 4 then server_become_follower s None (m_term (sv_meta s)) else s)
      else if sv_heartbeat s > sv_ts s - sv_vote_ts s then Some (RS_OK, s)
      else if leader_alive s then Some (RS_OK, s)
      else if \<not> sv_in_cluster s \<and> m_prev (sv_meta s) = None then Some (RS_OK, s)
      else if length (sv_connected s) + (if sv_in_cluster s then 1 else 0) < unat (majority s) then Some (RS_OK, s)
      else let s = s\<lparr>sv_role := SERVER_ROLE_CANDIDATE, sv_prevote_count := (if sv_in_cluster s then 1 else 0),
                     sv_prevote_term := m_term (sv_meta s) + 1\<rparr>;
               s = broadcast env (\<lambda>b. msg_create_prevote_req b (m_term (sv_meta s) + 1)
                     (of_nat (st_last_index (sv_store s))) (st_last_term (sv_store s))) s
        in server_check_prevote_count env s)"

text \<open>
  Whether a vote is granted. A request has the candidate's term and the index and term of its last
  entry; the handler does not read the latter.
\<close>

definition grants :: "'st server \<Rightarrow> u64 \<Rightarrow> u64 \<Rightarrow> bool" where
  "grants s term last_log_index =
     (if leader_alive s then False
      else if term = m_term (sv_meta s) \<and> sv_voted_for s \<noteq> None then False
      else term \<ge> m_term (sv_meta s) \<and> unat last_log_index \<ge> st_last_index (sv_store s))"

definition server_on_reqvote_req ::
    "'st env \<Rightarrow> 'st server \<Rightarrow> nat \<Rightarrow> u64 \<Rightarrow> u64 \<Rightarrow> u64 \<Rightarrow> rs_rc \<times> 'st server" where
  "server_on_reqvote_req env s i term last_log_index last_log_term =
     (let last_index = st_last_index (sv_store s);
          grant = grants s term last_log_index
      in ok_then
           (if grant
            then ok_then (server_update_meta env s term (nd_name (sv_node s i)))
                   (\<lambda>s. (RS_OK, s\<lparr>sv_vote_ts := sv_ts s\<rparr>))
            else (RS_OK, s))
           (\<lambda>s. (RS_OK, node_send s i (\<lambda>b. msg_create_reqvote_resp b term (of_nat last_index) grant))))"

definition server_on_reqvote_resp :: "'st env \<Rightarrow> 'st server \<Rightarrow> u64 \<Rightarrow> u64 \<Rightarrow> bool \<Rightarrow> (rs_rc \<times> 'st server) option" where
  "server_on_reqvote_resp env s term index granted =
     (if sv_role s \<noteq> SERVER_ROLE_CANDIDATE \<or> m_term (sv_meta s) \<noteq> term then Some (RS_OK, s)
      else if term > m_term (sv_meta s) then Some (RS_OK, server_become_follower s None term)
      else if \<not> granted then Some (RS_OK, s)
      else let s = s\<lparr>sv_vote_count := sv_vote_count s + 1\<rparr>
        in if sv_vote_count s \<ge> majority s then server_become_leader env s else Some (RS_OK, s))"

definition server_on_prevote_req :: "'st server \<Rightarrow> nat \<Rightarrow> u64 \<Rightarrow> u64 \<Rightarrow> u64 \<Rightarrow> rs_rc \<times> 'st server" where
  "server_on_prevote_req s i term last_log_index last_log_term =
     (let index = st_last_index (sv_store s)
      in (RS_OK, node_send s i (\<lambda>b. msg_create_prevote_resp b term (of_nat index) (grants s term last_log_index))))"

definition server_on_prevote_resp :: "'st env \<Rightarrow> 'st server \<Rightarrow> u64 \<Rightarrow> u64 \<Rightarrow> bool \<Rightarrow> (rs_rc \<times> 'st server) option" where
  "server_on_prevote_resp env s term index granted =
     (if sv_role s \<noteq> SERVER_ROLE_CANDIDATE \<or> sv_prevote_term s \<noteq> term then Some (RS_OK, s)
      else if \<not> granted then Some (RS_OK, s)
      else server_check_prevote_count env (s\<lparr>sv_prevote_count := sv_prevote_count s + 1\<rparr>))"

end
