(* ===== verification/Server_Log.thy ===== *)
theory Server_Log
  imports Server_Election
begin

text \<open>
  Replicating the log, \<^verbatim>\<open>src/server.c\<close>: what a follower does with the entries and the snapshot it
  receives, what the leader does with the answers, and applying committed entries to the state
  machine with the answers to the clients.
\<close>

section \<open>Applying committed entries\<close>

definition client_send :: "'st server \<Rightarrow> nat \<Rightarrow> (sc_buf \<Rightarrow> sc_buf) \<Rightarrow> 'st server" where
  "client_send s i put =
     (let (c, cache) = conn_out (cl_conn (sv_client s i)) (sv_cache s);
          c = c\<lparr>c_out := put (c_out c)\<rparr>
      in (set_client s i ((sv_client s i)\<lparr>cl_conn := c\<rparr>))\<lparr>sv_cache := cache\<rparr>)"

definition client_flush :: "'st env \<Rightarrow> 'st server \<Rightarrow> nat \<Rightarrow> rs_rc \<times> 'st server" where
  "client_flush env s i =
     (let ((k, e), s) = ask (ev_send env) s;
          (rc, c, cache) = conn_flush k e (cl_conn (sv_client s i)) (sv_cache s)
      in (rc, (set_client s i ((sv_client s i)\<lparr>cl_conn := c\<rparr>))\<lparr>sv_cache := cache\<rparr>))"

definition client_done :: "'st env \<Rightarrow> 'st server \<Rightarrow> nat \<Rightarrow> rs_rc \<times> 'st server" where
  "client_done env s i =
     (let (ok, s) = ask (ev_ok env) s;
          (rc, c, cache) = client_processed ok (sv_client s i) (sv_cache s)
      in (rc, (set_client s i c)\<lparr>sv_cache := cache, sv_read_reqs := remove1 i (sv_read_reqs s)\<rparr>))"

text \<open>Going on with a client when a call succeeds, and disconnecting it otherwise.\<close>

definition or_disconnect ::
    "'st env \<Rightarrow> nat \<Rightarrow> rs_rc \<times> 'st server \<Rightarrow> ('st server \<Rightarrow> (rs_rc \<times> 'st server) option) \<Rightarrow> (rs_rc \<times> 'st server) option" where
  "or_disconnect env i r f =
     (case r of (rc, s) \<Rightarrow> if rc = RS_OK then f s else server_on_client_disconnect env s i MSG_ERR)"

definition server_on_meta :: "'st env \<Rightarrow> 'st server \<Rightarrow> meta \<Rightarrow> rs_rc \<times> 'st server" where
  "server_on_meta env s m =
     (if m_index (sv_meta s) > m_index m then (RS_OK, s)
      else let s = (if m_index m = m_index (sv_meta s) \<and> m_prev (sv_meta s) \<noteq> None
                    then s\<lparr>sv_meta := meta_remove_prev (sv_meta s)\<rparr>
                    else if m_index m > m_index (sv_meta s) then s\<lparr>sv_meta := meta_copy m\<rparr> else s);
               s = server_meta_change s;
               s = (if \<not> sv_in_cluster s \<and> sv_role s = SERVER_ROLE_LEADER
                    then server_become_follower s None (m_term (sv_meta s)) else s)
        in server_write_meta env s)"

text \<open>The name of the leader is printed when the terms agree, which needs a leader.\<close>

definition server_on_term_start :: "'st server \<Rightarrow> meta \<Rightarrow> (rs_rc \<times> 'st server) option" where
  "server_on_term_start s m =
     (if m_term m \<noteq> m_term (sv_meta s) then Some (RS_OK, s)
      else if sv_leader s = None then None
      else Some (RS_OK, s\<lparr>sv_cluster_up := True\<rparr>))"

definition server_on_client_connect_applied :: "'st env \<Rightarrow> 'st server \<Rightarrow> session \<Rightarrow> (rs_rc \<times> 'st server) option" where
  "server_on_client_connect_applied env s sess =
     (if sv_role s \<noteq> SERVER_ROLE_LEADER then Some (RS_OK, s)
      else case map_of (sv_clients s) (se_name sess) of
        None \<Rightarrow> Some (RS_OK, s)
      | Some i \<Rightarrow>
          (let s = set_client s i ((sv_client s i)\<lparr>cl_id := se_id sess, cl_seq := se_seq sess\<rparr>);
               s = client_send s i (\<lambda>b. snd (msg_create_connect_resp b (msg_rc_code MSG_OK) (se_seq sess)
                     (m_term (sv_meta s)) (m_uris (sv_meta s))))
           in or_disconnect env i (client_flush env s i) (\<lambda>s.
                or_disconnect env i (client_done env s i) (\<lambda>s.
                  Some (RS_OK, s\<lparr>sv_vclients := AList.update (cl_id (sv_client s i)) i (sv_vclients s)\<rparr>)))))"

definition server_on_applied_client_req :: "'st env \<Rightarrow> 'st server \<Rightarrow> u64 \<Rightarrow> bytes \<Rightarrow> (rs_rc \<times> 'st server) option" where
  "server_on_applied_client_req env s cid resp =
     (if sv_role s \<noteq> SERVER_ROLE_LEADER then Some (RS_OK, s)
      else case map_of (sv_vclients s) cid of
        None \<Rightarrow> Some (RS_OK, s)
      | Some i \<Rightarrow>
          (let s = client_send s i (\<lambda>b. sc_buf_put_raw b resp)
           in or_disconnect env i (client_flush env s i) (\<lambda>s.
                or_disconnect env i (client_done env s i) (\<lambda>s. Some (RS_OK, s)))))"

text \<open>A request that has no session, and a command that is unknown, abort.\<close>

definition server_on_applied_entry ::
    "'st env \<Rightarrow> 'st server \<Rightarrow> bytes \<Rightarrow> session option \<Rightarrow> (rs_rc \<times> 'st server) option" where
  "server_on_applied_entry env s e sess =
     (let c = entry_flags e in
      if c = CMD_META then Some (server_on_meta env s (sm_meta env (sv_state s)))
      else if c = CMD_TERM then server_on_term_start s (sm_meta env (sv_state s))
      else if c = CMD_REQUEST
      then Option.bind sess (\<lambda>se. server_on_applied_client_req env s (se_id se) (se_resp se))
      else if c = CMD_CONNECT then Option.bind sess (server_on_client_connect_applied env s)
      else if c = CMD_DISCONNECT \<or> c = CMD_INIT \<or> c = CMD_INFO \<or> c = CMD_TIMESTAMP \<or> c = CMD_LOG
      then Some (RS_OK, s)
      else None)"

text \<open>
  The callbacks that a statement runs, \<^verbatim>\<open>server_add_node\<close>, \<^verbatim>\<open>server_remove_node\<close> and
  \<^verbatim>\<open>server_shutdown\<close>: they queue a job on the leader of the current term.
\<close>

definition server_add_job :: "'st env \<Rightarrow> 'st server \<Rightarrow> server_job \<Rightarrow> 'st server" where
  "server_add_job env s j =
     (if sm_term env (sv_state s) = m_term (sv_meta s) \<and> sv_role s = SERVER_ROLE_LEADER
      then s\<lparr>sv_jobs := sv_jobs s @ [(fst j, sc_str_create (snd j))]\<rparr> else s)"

text \<open>
  The loop of \<^verbatim>\<open>server_update_commit\<close> from the index \<open>i\<close> for \<open>k\<close> entries. An entry that is not in
  the store is a null pointer, and an error of the state machine other than a full disk aborts.
\<close>

primrec apply_from :: "'st env \<Rightarrow> 'st server \<Rightarrow> nat \<Rightarrow> nat \<Rightarrow> (rs_rc \<times> 'st server) option" where
  "apply_from env s i 0 = Some (RS_OK, s)"
| "apply_from env s i (Suc k) =
     Option.bind (store_get_entry (sv_store s) i) (\<lambda>e.
       Option.bind (sm_apply env i e (sv_state s)) (\<lambda>(rc, sess, calls, st).
         let s = foldl (server_add_job env) (s\<lparr>sv_state := st\<rparr>) calls
         in if rc = RS_FULL then Some (RS_FULL, s)
            else if rc \<noteq> RS_OK then None
            else ok_bind (server_on_applied_entry env s e sess) (\<lambda>s. apply_from env s (Suc i) k)))"

definition server_update_commit :: "'st env \<Rightarrow> 'st server \<Rightarrow> nat \<Rightarrow> (rs_rc \<times> 'st server) option" where
  "server_update_commit env s commit =
     ok_bind
       (if commit > sv_commit s
        then let m = min commit (st_last_index (sv_store s))
          in ok_bind (apply_from env s (sv_commit s + 1) (m - sv_commit s))
               (\<lambda>s. Some (RS_OK, s\<lparr>sv_commit := m, sv_last_quorum := sv_ts s\<rparr>))
        else Some (RS_OK, s))
       (\<lambda>s. if \<not> sv_ss_inprogress s \<and> sv_commit s \<ge> store_ss_index (sv_store s)
             then let (ok, s) = ask (ev_ok env) (s\<lparr>sv_ss_inprogress := True\<rparr>)
               in if ok then Some (RS_OK, s) else None
             else Some (RS_OK, s))"

section \<open>Receiving entries\<close>

text \<open>
  The loop on \<^verbatim>\<open>retry\<close> in \<^verbatim>\<open>server_store_entries\<close>, that puts one entry.
\<close>

partial_function (option) put_retry :: "'st env \<Rightarrow> 'st server \<Rightarrow> nat \<Rightarrow> bytes \<Rightarrow> (rs_rc \<times> 'st server) option" where
  "put_retry env s index e =
     Option.bind (store_put_entry (ev_mmap env (sv_tick s)) (sv_store s) index e) (\<lambda>(rc, st).
       let s = tick (s\<lparr>sv_store := st\<rparr>) in
       if rc \<noteq> RS_FULL then Some (rc, s)
       else let (rc, s) = server_wait_snapshot env s in
         if rc = RS_OK then put_retry env s index e
         else if rc \<noteq> RS_NOOP then Some (rc, s)
         else let (mm, s) = ask (ev_mmap env) s in
           Option.bind (store_reserve (sv_store s) (unat (entry_len e)) (fst (mm 0)) (snd (mm 0))) (\<lambda>(rc, st).
             let s = s\<lparr>sv_store := st\<rparr>
             in if rc \<noteq> RS_OK then Some (rc, s) else put_retry env s index e))"

definition server_store_entry :: "'st env \<Rightarrow> 'st server \<Rightarrow> nat \<Rightarrow> bytes \<Rightarrow> (rs_rc \<times> 'st server) option" where
  "server_store_entry env s index e =
     (let curr = store_get_entry (sv_store s) index in
      if curr \<noteq> None \<and> entry_term (the curr) = entry_term e then Some (RS_OK, s)
      else let s = (if curr \<noteq> None
                    then server_meta_change (s\<lparr>sv_store := store_remove_after (sv_store s) (sub64 index 1),
                           sv_meta := meta_rollback (sv_meta s) (of_nat (sub64 index 1))\<rparr>)
                    else s)
        in ok_bind
             (if entry_flags e = CMD_META
              then Option.bind (meta_replace (take (entry_data_len e) (entry_data e)))
                     (\<lambda>(m, _). Some (RS_OK, server_meta_change (s\<lparr>sv_meta := m\<rparr>)))
              else Some (RS_OK, s))
             (\<lambda>s. put_retry env s index e))"

text \<open>
  The macro \<^verbatim>\<open>entry_foreach\<close>: entries are visited while the position is below the length, and an
  entry of length zero is visited again and again.
\<close>

partial_function (option) store_from ::
    "'st env \<Rightarrow> 'st server \<Rightarrow> nat \<Rightarrow> bytes \<Rightarrow> nat \<Rightarrow> nat \<Rightarrow> (rs_rc \<times> 'st server) option" where
  "store_from env s index buf len pos =
     (if pos < len
      then let e = drop pos buf in
        Option.bind (server_store_entry env s index e) (\<lambda>(rc, s).
          if rc \<noteq> RS_OK then Some (rc, s)
          else store_from env s (add64 index 1) buf len (pos + unat (entry_len e)))
      else Some (RS_OK, if sv_fsync s then s\<lparr>sv_store := store_flush (sv_store s)\<rparr> else s))"

definition server_store_entries :: "'st env \<Rightarrow> 'st server \<Rightarrow> nat \<Rightarrow> bytes \<Rightarrow> (rs_rc \<times> 'st server) option" where
  "server_store_entries env s index buf = store_from env s index buf (length buf) 0"

definition append_answer :: "'st server \<Rightarrow> nat \<Rightarrow> u64 \<Rightarrow> bool \<Rightarrow> rs_rc \<times> 'st server" where
  "append_answer s i round success =
     (RS_OK, node_send s i (\<lambda>b. msg_create_append_resp b (m_term (sv_meta s))
        (of_nat (st_last_index (sv_store s))) (if success then round else 0) success))"

definition set_in_ts :: "'st server \<Rightarrow> nat \<Rightarrow> 'st server" where
  "set_in_ts s i = set_node s i ((sv_node s i)\<lparr>nd_in_ts := sv_ts s\<rparr>)"

definition server_on_append_req ::
    "'st env \<Rightarrow> 'st server \<Rightarrow> nat \<Rightarrow> u64 \<Rightarrow> u64 \<Rightarrow> u64 \<Rightarrow> u64 \<Rightarrow> u64 \<Rightarrow> bytes \<Rightarrow> (rs_rc \<times> 'st server) option" where
  "server_on_append_req env s i term prev_log_index prev_log_term leader_commit round buf =
     (if m_term (sv_meta s) > term then Some (append_answer s i round False)
      else let s = (if term > m_term (sv_meta s) \<or> m_term (sv_meta s) = term \<and> sv_leader s = None
                    then server_become_follower s (Some i) term else s);
               s = set_in_ts s i;
               p = unat prev_log_index
        in if p > st_last_index (sv_store s) \<or> prev_log_term \<noteq> store_prev_term (sv_store s) p
           then Some (append_answer s i round False)
           else ok_bind (server_store_entries env s (add64 p 1) buf) (\<lambda>s.
                  ok_bind (server_update_commit env
                      (server_become_follower s (Some i) (m_term (sv_meta s))) (unat leader_commit))
                    (\<lambda>s. Some (append_answer s i round True))))"

definition server_on_append_resp ::
    "'st server \<Rightarrow> nat \<Rightarrow> u64 \<Rightarrow> u64 \<Rightarrow> u64 \<Rightarrow> bool \<Rightarrow> rs_rc \<times> 'st server" where
  "server_on_append_resp s i term index round success =
     (let s = set_node s i ((sv_node s i)\<lparr>nd_inflight := sub64 (nd_inflight (sv_node s i)) 1\<rparr>)
      in if sv_role s \<noteq> SERVER_ROLE_LEADER then (RS_OK, s)
         else if success then (RS_OK, set_node s i (node_update_indexes (sv_node s i) round (unat index)))
         else let s = (if term > m_term (sv_meta s) then server_become_follower s None term else s)
           in (RS_OK, set_node s i ((sv_node s i)\<lparr>nd_match := unat index, nd_next := add64 (unat index) 1\<rparr>)))"

section \<open>Receiving a snapshot\<close>

definition server_on_snapshot_req ::
    "'st env \<Rightarrow> 'st server \<Rightarrow> nat \<Rightarrow> u64 \<Rightarrow> u64 \<Rightarrow> u64 \<Rightarrow> u64 \<Rightarrow> u64 \<Rightarrow> bool \<Rightarrow> bytes \<Rightarrow> rs_rc \<times> 'st server" where
  "server_on_snapshot_req env s i term round ss_term_r ss_index_r offset done buf =
     (let answer = (\<lambda>s ok. node_send s i (\<lambda>b. msg_create_snapshot_resp b (m_term (sv_meta s)) round ok done)) in
      if m_term (sv_meta s) > term then (RS_OK, answer s False)
      else let s = (if m_term (sv_meta s) = term \<and> sv_leader s = None \<or> term > m_term (sv_meta s)
                    then server_become_follower s (Some i) term else s);
               (rc, s) = server_wait_snapshot env (set_in_ts s i)
        in if rc \<noteq> RS_OK \<and> rc \<noteq> RS_NOOP then (rc, s)
           else let (o_rc, s) = ask (ev_file env) s; (w_rc, s) = ask (ev_file env) s;
                    (f_rc, s) = ask (ev_file env) s; (r_rc, s) = ask (ev_file env) s;
                    (rc, ss) = snapshot_recv o_rc w_rc f_rc r_rc (sv_ss s) ss_term_r (unat ss_index_r) done (unat offset) buf;
                    s = s\<lparr>sv_ss := ss\<rparr>
             in (rc, answer s (rc = RS_OK \<or> rc = RS_SNAPSHOT)))"

definition server_on_snapshot_resp ::
    "'st env \<Rightarrow> 'st server \<Rightarrow> nat \<Rightarrow> u64 \<Rightarrow> u64 \<Rightarrow> bool \<Rightarrow> bool \<Rightarrow> (rs_rc \<times> 'st server) option" where
  "server_on_snapshot_resp env s i term round success done =
     (let s = set_node s i ((sv_node s i)\<lparr>nd_inflight := sub64 (nd_inflight (sv_node s i)) 1, nd_round := round\<rparr>)
      in if term > m_term (sv_meta s) then Some (RS_OK, server_become_follower s None term)
         else if done
         then let ix = ss_index (sv_ss s);
                  s = set_node s i ((sv_node s i)\<lparr>nd_next := add64 ix 1\<rparr>)
           in server_log env s (lit ''INFO'')
                (lit ''Snapshot['' @ dec_text ix @ lit ''] sent to : '' @ the (nd_name (sv_node s i)))
         else Some (RS_OK, s))"

definition server_on_info_req :: "'st server \<Rightarrow> nat \<Rightarrow> bytes \<Rightarrow> rs_rc \<times> 'st server" where
  "server_on_info_req s i buf =
     (let n = sv_node s i in (RS_OK, set_node s i (n\<lparr>nd_info := sc_buf_put_raw (sc_buf_clear (nd_info n)) buf\<rparr>)))"

definition server_on_shutdown_req :: "'st server \<Rightarrow> rs_rc \<times> 'st server" where
  "server_on_shutdown_req s = (RS_OK, s\<lparr>sv_stop := True\<rparr>)"

section \<open>Messages of a node\<close>

text \<open>The handler of one message; no result code when the message is not one that a node sends.\<close>

definition server_on_node_msg :: "'st env \<Rightarrow> 'st server \<Rightarrow> nat \<Rightarrow> msg \<Rightarrow> (rs_rc \<times> 'st server) option option" where
  "server_on_node_msg env s i m =
     (case m of
        Append_req term p pt c r buf \<Rightarrow> Some (server_on_append_req env s i term p pt c r buf)
      | Append_resp term ix r ok \<Rightarrow> Some (Some (server_on_append_resp s i term ix r ok))
      | Prevote_req term ix lt \<Rightarrow> Some (Some (server_on_prevote_req s i term ix lt))
      | Prevote_resp term ix ok \<Rightarrow> Some (server_on_prevote_resp env s term ix ok)
      | Reqvote_req term ix lt \<Rightarrow> Some (Some (server_on_reqvote_req env s i term ix lt))
      | Reqvote_resp term ix ok \<Rightarrow> Some (server_on_reqvote_resp env s term ix ok)
      | Snapshot_req term r st si off dn buf \<Rightarrow> Some (Some (server_on_snapshot_req env s i term r st si off dn buf))
      | Snapshot_resp term r ok dn \<Rightarrow> Some (server_on_snapshot_resp env s i term r ok dn)
      | Info_req buf \<Rightarrow> Some (Some (server_on_info_req s i buf))
      | Shutdown_req _ \<Rightarrow> Some (Some (server_on_shutdown_req s))
      | _ \<Rightarrow> None)"

text \<open>How the loop over the messages ends: returning, going to \<^verbatim>\<open>disconnect\<close>, or with a parse result.\<close>

datatype recv_end = Return rs_rc | Disconnect | Parsed rs_rc

partial_function (option) recv_loop :: "'st env \<Rightarrow> 'st server \<Rightarrow> nat \<Rightarrow> (recv_end \<times> 'st server) option" where
  "recv_loop env s i =
     (let n = sv_node s i;
          (rc, m, b) = msg_parse (c_in (nd_conn n));
          s = set_node s i (n\<lparr>nd_conn := (nd_conn n)\<lparr>c_in := b\<rparr>\<rparr>)
      in if rc \<noteq> RS_OK then Some (Parsed rc, s)
         else case server_on_node_msg env s i (snd (the m)) of
             None \<Rightarrow> Some (Disconnect, s)
           | Some r \<Rightarrow> Option.bind r (\<lambda>(ret, s).
               if ret \<noteq> RS_OK then Some (Return ret, s) else recv_loop env s i))"

definition node_readable :: "'st env \<Rightarrow> 'st server \<Rightarrow> nat \<Rightarrow> (rs_rc \<times> 'st server) option" where
  "node_readable env s i =
     (let (ans, s) = ask (ev_recv env) s
      in map_option (\<lambda>(rc, c, cache). (rc, (set_node s i ((sv_node s i)\<lparr>nd_conn := c\<rparr>))\<lparr>sv_cache := cache\<rparr>))
           (conn_on_readable ans (nd_conn (sv_node s i)) (sv_cache s)))"

definition node_writable :: "'st env \<Rightarrow> 'st server \<Rightarrow> nat \<Rightarrow> rs_rc \<times> 'st server" where
  "node_writable env s i =
     (let (ok, s) = ask (ev_ok env) s; ((k, e), s) = ask (ev_send env) s;
          (rc, c, cache) = conn_on_writable ok k e (nd_conn (sv_node s i)) (sv_cache s)
      in (rc, (set_node s i ((sv_node s i)\<lparr>nd_conn := c\<rparr>))\<lparr>sv_cache := cache\<rparr>))"

definition server_on_node_recv :: "'st env \<Rightarrow> 'st server \<Rightarrow> nat \<Rightarrow> bool \<Rightarrow> bool \<Rightarrow> (rs_rc \<times> 'st server) option" where
  "server_on_node_recv env s i rd wr =
     (let drop = (\<lambda>s. Some (RS_OK, server_on_node_disconnect env s i));
          flush = (\<lambda>s. let (rc, s) = node_flush env s i in if rc \<noteq> RS_OK then drop s else Some (RS_OK, s));
          (rc, s) = (if wr then node_writable env s i else (RS_OK, s))
      in if rc \<noteq> RS_OK then drop s
         else if \<not> rd then flush s
         else Option.bind (node_readable env s i) (\<lambda>(rc, s).
           if rc \<noteq> RS_OK then drop s
           else Option.bind (recv_loop env s i) (\<lambda>(end_rc, s).
             case end_rc of
               Return ret \<Rightarrow> Some (ret, s)
             | Disconnect \<Rightarrow> drop s
             | Parsed rc \<Rightarrow> if rc = RS_INVALID then drop s else flush s)))"

end
