(* ===== verification/Server_Loop.thy ===== *)
theory Server_Loop
  imports Server_Log
begin

text \<open>
  The rest of the server's loop, \<^verbatim>\<open>src/server.c\<close>: incoming connections and client requests, what
  the leader does after each round of events (sending entries and snapshots, advancing the commit
  index, answering reads, running the administrative jobs), and the timers.
\<close>

section \<open>Connections\<close>

definition MSG_CONNECT_TYPE :: u32 where "MSG_CONNECT_TYPE = 1"
definition MSG_CLIENT :: u32 where "MSG_CLIENT = 0"
definition MSG_NODE :: u32 where "MSG_NODE = 1"

text \<open>A new connection; without one, accepting or registering failed and was only logged.\<close>

definition server_on_incoming_conn :: "'st env \<Rightarrow> 'st server \<Rightarrow> rs_rc \<times> 'st server" where
  "server_on_incoming_conn env s =
     (let (ok, s) = ask (ev_ok env) s in
      if \<not> ok then (RS_OK, s)
      else let (ok1, s) = ask (ev_ok env) s; (ok2, s) = ask (ev_ok env) s in
        case conn_create ok1 ok2 of
          None \<Rightarrow> (RS_OK, s)
        | Some c \<Rightarrow> (RS_OK, s\<lparr>sv_conn := (sv_conn s)(sv_fresh s := c), sv_pending := sv_pending s @ [sv_fresh s],
                             sv_fresh := Suc (sv_fresh s)\<rparr>))"

text \<open>The connection is told why, unless the reason is \<^verbatim>\<open>MSG_ERR\<close>; the flush may fail.\<close>

definition server_on_pending_disconnect :: "'st env \<Rightarrow> 'st server \<Rightarrow> nat \<Rightarrow> msg_rc \<Rightarrow> 'st server" where
  "server_on_pending_disconnect env s p mrc =
     (let (c, s) =
        (if mrc \<noteq> MSG_ERR
         then let (c, cache) = conn_out (sv_conn s p) (sv_cache s);
                  c = c\<lparr>c_out := snd (msg_create_connect_resp (c_out c) (msg_rc_code mrc) 0
                        (m_term (sv_meta s)) (m_uris (sv_meta s)))\<rparr>;
                  ((k, e), s) = ask (ev_send env) s;
                  (_, c, cache) = conn_flush k e c cache
           in (c, s\<lparr>sv_cache := cache\<rparr>)
         else (sv_conn s p, s));
          (ok, s) = ask (ev_ok env) s;
          (c, cache) = conn_term ok c (sv_cache s)
      in s\<lparr>sv_conn := (sv_conn s)(p := c), sv_cache := cache, sv_pending := remove1 p (sv_pending s)\<rparr>)"

text \<open>The addresses of the two ends of the connection are the arguments \<open>local\<close> and \<open>remote\<close>.\<close>

definition server_on_client_connect_req ::
    "'st env \<Rightarrow> 'st server \<Rightarrow> nat \<Rightarrow> cstring option \<Rightarrow> cstring \<Rightarrow> cstring \<Rightarrow> (rs_rc \<times> 'st server) option" where
  "server_on_client_connect_req env s p nm local remote =
     (let refuse = (\<lambda>s mrc rc. Some (rc, server_on_pending_disconnect env s p mrc)) in
      if \<not> sv_cluster_up s \<or> sv_role s \<noteq> SERVER_ROLE_LEADER then refuse s MSG_NOT_LEADER RS_OK
      else if nm = None then refuse s MSG_ERR RS_OK
      else let prev = map_of (sv_clients s) (the nm) in
        if prev \<noteq> None \<and> cl_id (sv_client s (the prev)) = 0 then refuse s MSG_ERR RS_OK
        else Option.bind
          (case prev of None \<Rightarrow> Some (RS_OK, s) | Some c \<Rightarrow> server_on_client_disconnect env s c MSG_ERR)
          (\<lambda>(rc, s).
            if rc \<noteq> RS_OK then refuse s MSG_ERR rc
            else let s = s\<lparr>sv_pending := remove1 p (sv_pending s)\<rparr>;
                     (ok1, s) = ask (ev_ok env) s; (ok2, s) = ask (ev_ok env) s
              in case client_create ok1 ok2 (sv_conn s p) nm (sv_cache s) of
                   (None, _) \<Rightarrow> refuse s MSG_ERR RS_OK
                 | (Some c, cache) \<Rightarrow>
                     (let i = sv_cfresh s;
                          s = (set_client s i c)\<lparr>sv_cache := cache, sv_cfresh := Suc i,
                                sv_clients := AList.update (the nm) i (sv_clients s)\<rparr>
                      in server_command env s CMD_CONNECT
                           (\<lambda>b. cmd_encode_connect b (cl_name c) (Some local) (Some remote)))))"

text \<open>A node that is not in the configuration is remembered as unknown. A name is needed to compare.\<close>

definition server_on_node_connect_req :: "'st env \<Rightarrow> 'st server \<Rightarrow> nat \<Rightarrow> cstring option \<Rightarrow> (rs_rc \<times> 'st server) option" where
  "server_on_node_connect_req env s p nm =
     (if nm = None \<and> sv_nodes s \<noteq> [] then None
      else let (i, s) =
        (case find (\<lambda>i. nd_name (sv_node s i) = nm) (sv_nodes s) of
           Some i \<Rightarrow> (i, s\<lparr>sv_connected := remove1 i (sv_connected s) @ [i]\<rparr>)
         | None \<Rightarrow>
             (sv_fresh s, (set_node s (sv_fresh s) (node_create nm))
                \<lparr>sv_unknown := sv_unknown s @ [sv_fresh s], sv_fresh := Suc (sv_fresh s)\<rparr>));
          s = s\<lparr>sv_pending := remove1 p (sv_pending s)\<rparr>;
          (ok0, s) = ask (ev_ok env) s; (ok1, s) = ask (ev_ok env) s; (ok2, s) = ask (ev_ok env) s;
          (rc, n, cache) = node_set_conn ok0 ok1 ok2 (sv_node s i) (sv_conn s p) (sv_cache s);
          s = (set_node s i n)\<lparr>sv_cache := cache\<rparr>
        in if rc \<noteq> RS_OK then Some (RS_OK, server_on_pending_disconnect env s p MSG_ERR)
           else let s = node_send s i (\<lambda>b. msg_create_connect_resp b (msg_rc_code MSG_OK) 0
                      (m_term (sv_meta s)) (m_uris (sv_meta s)));
                    (rc, s) = node_flush env s i;
                    s = (if rc \<noteq> RS_OK then node_drop env s i else s)
             in Some (RS_OK, clear_node s i))"

text \<open>
  The first message of a connection. \<^verbatim>\<open>strcmp\<close> on the cluster name needs one; a message without it
  ends the process.
\<close>

definition server_on_connect_req ::
    "'st env \<Rightarrow> 'st server \<Rightarrow> nat \<Rightarrow> cstring \<Rightarrow> cstring \<Rightarrow> (rs_rc \<times> 'st server) option" where
  "server_on_connect_req env s p local remote =
     (let refuse = (\<lambda>s mrc. Some (RS_OK, server_on_pending_disconnect env s p mrc));
          (ans, s) = ask (ev_recv env) s
      in Option.bind (conn_on_readable ans (sv_conn s p) (sv_cache s)) (\<lambda>(rc, c, cache).
           let s = s\<lparr>sv_conn := (sv_conn s)(p := c), sv_cache := cache\<rparr> in
           if rc \<noteq> RS_OK then refuse s MSG_ERR
           else let (rc, m, b) = msg_parse (c_in c);
                    s = s\<lparr>sv_conn := (sv_conn s)(p := c\<lparr>c_in := b\<rparr>)\<rparr>
             in if rc = RS_INVALID then refuse s MSG_CORRUPT
                else if rc = RS_PARTIAL then Some (RS_OK, s)
                else case snd (the m) of
                    Connect_req fl _ cluster nm \<Rightarrow>
                      (if cluster = None then None
                       else if cluster \<noteq> sv_cluster s then refuse s MSG_CLUSTER_NAME_MISMATCH
                       else if sv_full s then refuse s MSG_DISK_FULL
                       else let type = and fl MSG_CONNECT_TYPE
                         in if type = MSG_CLIENT then server_on_client_connect_req env s p nm local remote
                            else if type = MSG_NODE then server_on_node_connect_req env s p nm
                            else refuse s MSG_CORRUPT)
                  | _ \<Rightarrow> refuse s MSG_UNEXPECTED))"

text \<open>
  The answer to our own connection. A refusal is noted but not acted on. \<^verbatim>\<open>RS_ERROR\<close> and
  \<^verbatim>\<open>RS_INVALID\<close> disconnect.
\<close>

definition server_on_connect_resp :: "'st env \<Rightarrow> 'st server \<Rightarrow> nat \<Rightarrow> (rs_rc \<times> 'st server) option" where
  "server_on_connect_resp env s i =
     (let drop = (\<lambda>s. Some (RS_OK, server_on_node_disconnect env s i))
      in Option.bind (node_readable env s i) (\<lambda>(rc, s).
           if rc \<noteq> RS_OK then drop s
           else let n = sv_node s i;
                    (rc, m, b) = msg_parse (c_in (nd_conn n));
                    s = set_node s i (n\<lparr>nd_conn := (nd_conn n)\<lparr>c_in := b\<rparr>\<rparr>)
             in if rc = RS_INVALID \<or> rc = RS_ERROR then drop s
                else if rc = RS_PARTIAL then Some (RS_OK, s)
                else case snd (the m) of
                    Connect_resp code _ _ _ \<Rightarrow>
                      (let n = sv_node s i;
                           s = set_node s i (n\<lparr>nd_conn := (nd_conn n)\<lparr>c_type := SERVER_FD_NODE_RECV\<rparr>\<rparr>);
                           s = s\<lparr>sv_connected := remove1 i (sv_connected s) @ [i]\<rparr>
                       in server_on_node_recv env (clear_node s i) i True False)
                  | _ \<Rightarrow> drop s))"

definition send_connect_req :: "'st server \<Rightarrow> nat \<Rightarrow> 'st server" where
  "send_connect_req s i = node_send s i (\<lambda>b. msg_create_connect_req b MSG_NODE (sv_cluster s) (sv_name s))"

definition server_on_outgoing_conn :: "'st env \<Rightarrow> 'st server \<Rightarrow> nat \<Rightarrow> rs_rc \<times> 'st server" where
  "server_on_outgoing_conn env s i =
     (let (fin, s) = ask (ev_ok env) s; (ok1, s) = ask (ev_ok env) s; (ok2, s) = ask (ev_ok env) s;
          (rc, c) = conn_on_out_connected fin ok1 ok2 (nd_conn (sv_node s i));
          s = set_node s i ((sv_node s i)\<lparr>nd_conn := c\<rparr>)
      in if rc \<noteq> RS_OK then (RS_OK, node_drop env s i)
         else let (rc, s) = node_flush env (send_connect_req s i) i
           in (RS_OK, if rc \<noteq> RS_OK then node_drop env s i else s))"

text \<open>\<open>ans\<close> is the answer of the connection attempt and \<open>val\<close> the random number of the back-off.\<close>

definition server_try_connect :: "'st env \<Rightarrow> connect_rc \<Rightarrow> u32 \<Rightarrow> 'st server \<Rightarrow> nat \<Rightarrow> 'st server" where
  "server_try_connect env ans val s i =
     (let (ok0, s) = ask (ev_ok env) s; (ok1, s) = ask (ev_ok env) s; (ok2, s) = ask (ev_ok env) s;
          (rc, n, _) = node_try_connect ok0 ok1 ok2 ans (sv_node s i) val;
          s = set_node s i n
      in if rc \<noteq> RS_OK then s
         else let (rc, s) = node_flush env (send_connect_req s i) i
           in if rc \<noteq> RS_OK
              then let (ok, s) = ask (ev_ok env) s;
                       (c, cache) = conn_term ok (nd_conn (sv_node s i)) (sv_cache s)
                in (set_node s i ((sv_node s i)\<lparr>nd_conn := c\<rparr>))\<lparr>sv_cache := cache\<rparr>
              else s)"

section \<open>Requests of clients\<close>

definition client_readable :: "'st env \<Rightarrow> 'st server \<Rightarrow> nat \<Rightarrow> (rs_rc \<times> 'st server) option" where
  "client_readable env s i =
     (let (ans, s) = ask (ev_recv env) s
      in map_option (\<lambda>(rc, c, cache). (rc, (set_client s i ((sv_client s i)\<lparr>cl_conn := c\<rparr>))\<lparr>sv_cache := cache\<rparr>))
           (conn_on_readable ans (cl_conn (sv_client s i)) (sv_cache s)))"

definition client_writable :: "'st env \<Rightarrow> 'st server \<Rightarrow> nat \<Rightarrow> rs_rc \<times> 'st server" where
  "client_writable env s i =
     (let (ok, s) = ask (ev_ok env) s; ((k, e), s) = ask (ev_send env) s;
          (rc, c, cache) = conn_on_writable ok k e (cl_conn (sv_client s i)) (sv_cache s)
      in (rc, (set_client s i ((sv_client s i)\<lparr>cl_conn := c\<rparr>))\<lparr>sv_cache := cache\<rparr>))"

text \<open>A request that was parsed: a read waits for the leader to be confirmed, a write enters the log.\<close>

definition server_on_request :: "'st env \<Rightarrow> 'st server \<Rightarrow> nat \<Rightarrow> bool \<Rightarrow> u64 \<Rightarrow> bytes \<Rightarrow> (rs_rc \<times> 'st server) option" where
  "server_on_request env s i readonly seq buf =
     (let s = set_client s i ((sv_client s i)\<lparr>cl_msg_wait := True\<rparr>) in
      if readonly
      then let s = (if sv_round_prev s = sv_round s then s\<lparr>sv_round := sv_round s + 1\<rparr> else s);
               s = set_client s i ((sv_client s i)\<lparr>cl_round_index := sv_round s,
                     cl_commit_index := st_last_index (sv_store s)\<rparr>)
        in Some (RS_OK, s\<lparr>sv_read_reqs := remove1 i (sv_read_reqs s) @ [i]\<rparr>)
      else Option.bind (server_create_entry env s False seq (cl_id (sv_client s i)) CMD_REQUEST buf) (\<lambda>(rc, s).
        if rc = RS_FULL then Some (rc, s)
        else if rc \<noteq> RS_OK
        then map_option (\<lambda>(_, s). (RS_OK, s)) (server_on_client_disconnect env s i MSG_ERR)
        else let (c, cache) = conn_clear_buf (cl_conn (sv_client s i)) (sv_cache s)
          in Some (RS_OK, (set_client s i ((sv_client s i)\<lparr>cl_seq := seq, cl_conn := c\<rparr>))\<lparr>sv_cache := cache\<rparr>)))"

definition server_on_client_recv :: "'st env \<Rightarrow> 'st server \<Rightarrow> nat \<Rightarrow> bool \<Rightarrow> bool \<Rightarrow> (rs_rc \<times> 'st server) option" where
  "server_on_client_recv env s i rd wr =
     (let drop = (\<lambda>s mrc. map_option (\<lambda>(_, s). (RS_OK, s)) (server_on_client_disconnect env s i mrc)) in
      if cl_terminated (sv_client s i) then Some (RS_OK, s)
      else let (rc, s) = (if wr then client_writable env s i else (RS_OK, s)) in
        if rc \<noteq> RS_OK then drop s MSG_ERR
        else if \<not> rd then Some (RS_OK, s)
        else if client_pending (sv_client s i)
        then let (ok, s) = ask (ev_ok env) s;
                 (rc, c) = conn_unregister ok (cl_conn (sv_client s i)) True False;
                 s = set_client s i ((sv_client s i)\<lparr>cl_conn := c\<rparr>)
          in if rc \<noteq> RS_OK then drop s MSG_ERR else Some (RS_OK, s)
        else Option.bind (client_readable env s i) (\<lambda>(rc, s).
          if rc \<noteq> RS_OK then drop s MSG_ERR
          else let c = sv_client s i;
                   (rc, m, b) = msg_parse (c_in (cl_conn c));
                   s = set_client s i (c\<lparr>cl_conn := (cl_conn c)\<lparr>c_in := b\<rparr>, cl_msg := map_option snd m\<rparr>)
            in if rc = RS_INVALID then drop s MSG_ERR
               else if rc = RS_PARTIAL then Some (RS_OK, s)
               else case snd (the m) of
                   Disconnect_req _ _ \<Rightarrow> drop s MSG_OK
                 | Client_req readonly seq buf \<Rightarrow> server_on_request env s i readonly seq buf
                 | _ \<Rightarrow> drop s MSG_ERR))"

section \<open>Committing\<close>

text \<open>Reading must not fail: an error of the state machine aborts.\<close>

definition server_process_readonly :: "'st env \<Rightarrow> 'st server \<Rightarrow> nat \<Rightarrow> (rs_rc \<times> 'st server) option" where
  "server_process_readonly env s i =
     (let (c, cache) = conn_out (cl_conn (sv_client s i)) (sv_cache s);
          buf = (case cl_msg (sv_client s i) of Some (Client_req _ _ d) \<Rightarrow> d | _ \<Rightarrow> []);
          read = sm_read env (cl_id (sv_client s i)) buf (c_out c) (sv_state s)
      in Option.bind read (\<lambda>(rc, b, calls, st).
           let s = (set_client s i ((sv_client s i)\<lparr>cl_conn := c\<lparr>c_out := b\<rparr>\<rparr>))\<lparr>sv_cache := cache, sv_state := st\<rparr>;
               s = foldl (server_add_job env) s calls
           in if rc \<noteq> RS_OK then None
              else or_disconnect env i (client_done env s i) (\<lambda>s.
                     or_disconnect env i (client_flush env s i) (\<lambda>s. Some (RS_OK, s)))))"

text \<open>The loop over the waiting reads, in their order, up to the first that has to wait longer.\<close>

fun serve_reads :: "'st env \<Rightarrow> 'st server \<Rightarrow> nat list \<Rightarrow> (rs_rc \<times> 'st server) option" where
  "serve_reads env s [] = Some (RS_OK, s)"
| "serve_reads env s (i # is) =
     (let c = sv_client s i in
      if cl_round_index c > sv_round_match s \<or> cl_commit_index c > sv_commit s then Some (RS_OK, s)
      else ok_bind (server_process_readonly env s i) (\<lambda>s. serve_reads env s is))"

text \<open>Sorting, greatest first; the order of equal elements is not specified by \<^verbatim>\<open>qsort\<close>.\<close>

definition sort_matches :: "'st server \<Rightarrow> nat list" where
  "sort_matches s = rev (sort_key (\<lambda>i. nd_match (sv_node s i)) (sv_nodes s))"

definition sort_rounds :: "'st server \<Rightarrow> nat list" where
  "sort_rounds s = rev (sort_key (\<lambda>i. nd_round (sv_node s i)) (sv_nodes s))"

text \<open>
  The index that a majority holds, and the server with its nodes sorted. The leader counts itself
  with all of its log if that makes a difference, and then makes its log durable first.
\<close>

definition set_own :: "'st server \<Rightarrow> (node \<Rightarrow> node) \<Rightarrow> 'st server" where
  "set_own s f = set_node s (sv_own s) (f (sv_node s (sv_own s)))"

definition commit_match :: "'st server \<Rightarrow> nat \<times> 'st server" where
  "commit_match s =
     (let ix = unat (m_voter (sv_meta s) div 2);
          s = s\<lparr>sv_nodes := sort_matches s\<rparr>;
          mat = nd_match (sv_node s (sv_nodes s ! ix));
          own = nd_match (sv_node s (sv_own s));
          li = st_last_index (sv_store s)
      in if sv_in_cluster s \<and> own \<noteq> li
         then let s = set_own s (\<lambda>n. n\<lparr>nd_match := li\<rparr>);
                  s = s\<lparr>sv_nodes := sort_matches s\<rparr>;
                  mat' = nd_match (sv_node s (sv_nodes s ! ix))
           in if mat' > mat
              then let s = (if sv_fsync s then s\<lparr>sv_store := store_flush (sv_store s)\<rparr> else s)
                in (mat', set_own s (\<lambda>n. n\<lparr>nd_match := li, nd_next := add64 li 1\<rparr>))
              else (mat, set_own s (\<lambda>n. n\<lparr>nd_match := own\<rparr>))
         else (mat, s))"

text \<open>Reading the array of nodes outside of its bounds is undefined.\<close>

definition server_check_commit :: "'st env \<Rightarrow> 'st server \<Rightarrow> (rs_rc \<times> 'st server) option" where
  "server_check_commit env s =
     (let ix = unat (m_voter (sv_meta s) div 2);
          s = set_own s (\<lambda>n. n\<lparr>nd_round := sv_round s\<rparr>)
      in if ix \<ge> length (sv_nodes s) then None
         else let (mat, s) = commit_match s
           in ok_bind (server_update_commit env s mat) (\<lambda>s.
                if sv_read_reqs s = [] then Some (RS_OK, s)
                else if ix \<ge> length (sv_nodes s) then None
                else let s = s\<lparr>sv_nodes := sort_rounds s\<rparr>;
                         ri = nd_round (sv_node s (sv_nodes s ! ix));
                         s = (if ri > sv_round_match s then s\<lparr>sv_round_match := ri, sv_last_quorum := sv_ts s\<rparr> else s)
                  in serve_reads env s (sv_read_reqs s)))"

section \<open>Administrative jobs\<close>

definition server_job_add_node :: "'st env \<Rightarrow> 'st server \<Rightarrow> cstring option \<Rightarrow> (rs_rc \<times> 'st server) option" where
  "server_job_add_node env s data =
     (let bad = (\<lambda>s msg. server_log env s (lit ''ERROR'')
                   (lit ''Add node['' @ the_default (lit ''(null)'') data @ lit ''] : '' @ lit msg)) in
      if m_prev (sv_meta s) \<noteq> None
      then bad s ''Rejected config change, there is a pending change in progress.''
      else case sc_uri_create data of
        None \<Rightarrow> bad s ''Invalid(url format) config change request. ''
      | Some uri \<Rightarrow>
          (if u_port uri = [] \<or> u_userinfo uri = [] \<or> u_scheme uri \<noteq> lit ''tcp''
           then bad s ''Invalid(url format) config change request. ''
           else if meta_exists (sv_meta s) (u_userinfo uri) then bad s ''Node already exists''
           else let (b, m) = meta_add (sv_meta s) uri; s = s\<lparr>sv_meta := m\<rparr>
             in if \<not> b then bad s ''Invalid uri''
                else Option.bind (server_log env (server_update_connections s) (lit ''INFO'')
                         (lit ''Adding node : ['' @ u_str uri @ lit '']''))
                       (\<lambda>(_, s). server_write_meta_cmd env s)))"

definition server_job_remove_node :: "'st env \<Rightarrow> 'st server \<Rightarrow> cstring option \<Rightarrow> (rs_rc \<times> 'st server) option" where
  "server_job_remove_node env s data =
     (let bad = (\<lambda>s msg. server_log env s (lit ''ERROR'')
                   (lit ''Remove node['' @ the_default (lit ''(null)'') data @ lit ''] : '' @ lit msg)) in
      if m_prev (sv_meta s) \<noteq> None
      then bad s ''Rejected config change, there is a pending change in progress.''
      else Option.bind data (\<lambda>nm.
        if \<not> meta_exists (sv_meta s) nm then bad s ''Node does not exists.''
        else Option.bind (server_log env (s\<lparr>sv_meta := snd (meta_remove (sv_meta s) nm)\<rparr>) (lit ''INFO'')
                 (lit ''Node['' @ nm @ lit ''] will be removed from the cluster''))
               (\<lambda>(_, s). server_write_meta_cmd env s)))"

text \<open>
  What follows a node in the list of connected nodes: the next one, the end of the list, or the node
  itself once it is not in the list any more.
\<close>

definition list_next :: "nat list \<Rightarrow> nat \<Rightarrow> nat option" where
  "list_next xs i =
     (case dropWhile (\<lambda>j. j \<noteq> i) xs of [] \<Rightarrow> Some i | _ # r \<Rightarrow> (case r of [] \<Rightarrow> None | j # _ \<Rightarrow> Some j))"

text \<open>The loop of \<^verbatim>\<open>server_job_shutdown\<close>, which reads the successor of a node after handling it.\<close>

partial_function (option) shutdown_from :: "'st env \<Rightarrow> 'st server \<Rightarrow> nat option \<Rightarrow> 'st server option" where
  "shutdown_from env s it =
     (case it of None \<Rightarrow> Some s
      | Some i \<Rightarrow>
          (let s = flush_or_drop env (node_send s i (\<lambda>b. msg_create_shutdown_req b True)) i
           in shutdown_from env s (list_next (sv_connected s) i)))"

definition server_job_shutdown :: "'st env \<Rightarrow> 'st server \<Rightarrow> cstring option \<Rightarrow> (rs_rc \<times> 'st server) option" where
  "server_job_shutdown env s data =
     Option.bind data (\<lambda>nm.
       let every = (nm \<noteq> [] \<and> hd nm = 42)
       in Option.bind
            (if every then shutdown_from env s (case sv_connected s of [] \<Rightarrow> None | i # _ \<Rightarrow> Some i) else Some s)
            (\<lambda>s. Some (if every \<or> Some nm = sv_name s then server_on_shutdown_req s else (RS_OK, s))))"

text \<open>A job that fails leaves the rest of the queue. The loop ends when the queue is empty.\<close>

partial_function (option) server_handle_jobs :: "'st env \<Rightarrow> 'st server \<Rightarrow> (rs_rc \<times> 'st server) option" where
  "server_handle_jobs env s =
     (case sv_jobs s of
        [] \<Rightarrow> Some (RS_OK, s)
      | (ty, data) # js \<Rightarrow>
          (let s = s\<lparr>sv_jobs := js\<rparr> in
           Option.bind
             (case ty of
                SERVER_JOB_ADD_NODE \<Rightarrow> server_job_add_node env s data
              | SERVER_JOB_REMOVE_NODE \<Rightarrow> server_job_remove_node env s data
              | SERVER_JOB_SHUTDOWN \<Rightarrow> server_job_shutdown env s data)
             (\<lambda>(rc, s). if rc \<noteq> RS_OK then Some (rc, s) else server_handle_jobs env s)))"

section \<open>Sending\<close>

definition MAX_SIZE :: nat where "MAX_SIZE = 16 * 1024"

definition server_flush_snapshot :: "'st env \<Rightarrow> 'st server \<Rightarrow> nat \<Rightarrow> (rs_rc \<times> 'st server) option" where
  "server_flush_snapshot env s i =
     (if nd_inflight (sv_node s i) > 8 then Some (RS_OK, s)
      else ok_bind
        (if nd_ss_index (sv_node s i) \<noteq> ss_index (sv_ss s)
         then let s = set_node s i ((sv_node s i)\<lparr>nd_ss_index := ss_index (sv_ss s), nd_ss_pos := 0\<rparr>)
           in server_log env s (lit ''WARN'')
                (lit ''Sending snapshot['' @ dec_text (ss_index (sv_ss s)) @ lit ''], len = '' @
                 dec_text (length (ss_map (sv_ss s))) @ lit '' to : '' @ the (nd_name (sv_node s i)))
         else Some (RS_OK, s))
        (\<lambda>s.
          let n = sv_node s i; ss = sv_ss s;
              len = min MAX_SIZE (sub64 (length (ss_map ss)) (nd_ss_pos n));
              fin = (add64 (nd_ss_pos n) len = length (ss_map ss));
              s = (if len = 0 then s
                   else let s = node_send s i (\<lambda>b. msg_create_snapshot_req b (m_term (sv_meta s)) (sv_round s)
                          (ss_term ss) (of_nat (ss_index ss)) (of_nat (nd_ss_pos n)) fin
                          (slice (ss_map ss) (nd_ss_pos n) len)); n = sv_node s i
                     in set_node s i (n\<lparr>nd_ss_pos := add64 (nd_ss_pos n) len, nd_inflight := add64 (nd_inflight n) 1,
                          nd_out_ts := sv_ts s\<rparr>))
          in Some (RS_OK, flush_or_drop env s i)))"

text \<open>An append request for the entries from the node's next index on, which counts as in flight.\<close>

definition send_append :: "'st server \<Rightarrow> nat \<Rightarrow> bytes \<Rightarrow> 'st server" where
  "send_append s i entries =
     (let p = sub64 (nd_next (sv_node s i)) 1;
          s = node_send s i (\<lambda>b. msg_create_append_req b (m_term (sv_meta s)) (of_nat p)
                (store_prev_term (sv_store s) p) (of_nat (sv_commit s)) (sv_round s) entries); n = sv_node s i
      in set_node s i (n\<lparr>nd_inflight := add64 (nd_inflight n) 1, nd_out_ts := sv_ts s\<rparr>))"

definition server_flush_node :: "'st env \<Rightarrow> 'st server \<Rightarrow> nat \<Rightarrow> (rs_rc \<times> 'st server) option" where
  "server_flush_node env s i =
     (let n = sv_node s i in
      if nd_next n \<le> st_ss_index (sv_store s) then server_flush_snapshot env s i
      else let s =
        (if nd_inflight n > 8 \<or> nd_next n > st_last_index (sv_store s) \<and> nd_round n = sv_round s then s
         else let (e, sz, count) = store_entries (sv_store s) (nd_next n) MAX_SIZE;
                  s = send_append s i (case e of None \<Rightarrow> [] | Some b \<Rightarrow> take sz b); n = sv_node s i
           in set_node s i (n\<lparr>nd_next := add64 (nd_next n) count\<rparr>));
          n = sv_node s i;
          s = (if nd_inflight n = 0 \<and> sv_ts s - nd_out_ts n > sv_heartbeat s div 2 then send_append s i [] else s)
        in Some (RS_OK, flush_or_drop env s i))"

primrec server_flush_nodes :: "'st env \<Rightarrow> 'st server \<Rightarrow> nat list \<Rightarrow> (rs_rc \<times> 'st server) option" where
  "server_flush_nodes env s [] = Some (RS_OK, s)"
| "server_flush_nodes env s (i # is) = ok_bind (server_flush_node env s i) (\<lambda>s. server_flush_nodes env s is)"

definition server_flush_remaining :: "'st env \<Rightarrow> 'st server \<Rightarrow> 'st server" where
  "server_flush_remaining env s = foldl (flush_or_drop env) s (sv_connected s)"

definition client_destroy :: "'st env \<Rightarrow> 'st server \<Rightarrow> nat \<Rightarrow> 'st server" where
  "client_destroy env s i =
     (let (ok, s) = ask (ev_ok env) s;
          (c, cache) = conn_term ok (cl_conn (sv_client s i)) (sv_cache s)
      in (set_client s i ((sv_client s i)\<lparr>cl_conn := c\<rparr>))
           \<lparr>sv_cache := cache, sv_read_reqs := remove1 i (sv_read_reqs s)\<rparr>)"

definition server_flush :: "'st env \<Rightarrow> 'st server \<Rightarrow> (rs_rc \<times> 'st server) option" where
  "server_flush env s =
     (let s = (foldl (client_destroy env) s (sv_term_clients s))\<lparr>sv_term_clients := []\<rparr>
      in if sv_role s \<noteq> SERVER_ROLE_LEADER then Some (RS_OK, server_flush_remaining env s)
         else ok_bind (server_flush_nodes env s (sv_connected s)) (\<lambda>s.
                ok_bind (server_check_commit env s) (\<lambda>s.
                  server_handle_jobs env (s\<lparr>sv_round_prev := sv_round s\<rparr>))))"

section \<open>Timers and events\<close>

text \<open>\<open>own_info\<close> is the text of this server's metrics.\<close>

definition put_info :: "'st server \<Rightarrow> sc_buf \<Rightarrow> sc_buf" where
  "put_info s b =
     foldl (\<lambda>b i. let n = sv_node s i in
         sc_buf_put_blob (sc_buf_put_bool (sc_buf_put_str b (nd_name n)) (node_connected n \<or> nd_name n = sv_name s))
           (sc_buf_data (nd_info n)))
       b (sv_nodes s)"

definition server_on_info_timer :: "'st env \<Rightarrow> (sc_buf \<Rightarrow> sc_buf) \<Rightarrow> 'st server \<Rightarrow> (rs_rc \<times> 'st server) option" where
  "server_on_info_timer env metric_encode s =
     (let s = set_own s (\<lambda>n. n\<lparr>nd_info := metric_encode (sc_buf_clear (nd_info n))\<rparr>) in
      if sv_role s = SERVER_ROLE_LEADER then server_command env s CMD_INFO (put_info s)
      else case sv_leader s of
        None \<Rightarrow> Some (RS_OK, s)
      | Some l \<Rightarrow> Some (RS_OK, flush_or_drop env
            (node_send s l (\<lambda>b. msg_create_info_req b (sc_buf_data (nd_info (sv_node s (sv_own s)))))) l))"

text \<open>The events that the loop handles, with what the operating system tells about them.\<close>

datatype event =
    Node_ready nat bool bool | Client_ready nat bool bool | Incoming | Outgoing nat
  | First_req nat cstring cstring | First_resp nat | Task bool | Signal bool

definition server_on_task :: "'st server \<Rightarrow> bool \<Rightarrow> rs_rc \<times> 'st server" where
  "server_on_task s ok = (if \<not> ok then (RS_ERROR, s) else (RS_OK, s\<lparr>sv_stop := True\<rparr>))"

definition server_on_signal :: "'st server \<Rightarrow> bool \<Rightarrow> rs_rc \<times> 'st server" where
  "server_on_signal s ok = (if \<not> ok then (RS_ERROR, s) else (RS_OK, s\<lparr>sv_stop := True\<rparr>))"

definition server_on_event :: "'st env \<Rightarrow> 'st server \<Rightarrow> event \<Rightarrow> (rs_rc \<times> 'st server) option" where
  "server_on_event env s ev =
     (case ev of
        Node_ready i rd wr \<Rightarrow> server_on_node_recv env s i rd wr
      | Client_ready i rd wr \<Rightarrow> server_on_client_recv env s i rd wr
      | Incoming \<Rightarrow> Some (server_on_incoming_conn env s)
      | Outgoing i \<Rightarrow> Some (server_on_outgoing_conn env s i)
      | First_req p l r \<Rightarrow> server_on_connect_req env s p l r
      | First_resp i \<Rightarrow> server_on_connect_resp env s i
      | Task ok \<Rightarrow> Some (server_on_task s ok)
      | Signal ok \<Rightarrow> Some (server_on_signal s ok))"

datatype timer = Timer_pending nat | Timer_connect connect_rc u32 nat | Timer_election | Timer_info

definition server_timeout :: "'st env \<Rightarrow> (sc_buf \<Rightarrow> sc_buf) \<Rightarrow> 'st server \<Rightarrow> timer \<Rightarrow> (rs_rc \<times> 'st server) option" where
  "server_timeout env metric_encode s t =
     (case t of
        Timer_pending p \<Rightarrow> Some (RS_OK, server_on_pending_disconnect env s p MSG_TIMEOUT)
      | Timer_connect ans val i \<Rightarrow> Some (RS_OK, server_try_connect env ans val s i)
      | Timer_election \<Rightarrow> server_on_election_timeout env s
      | Timer_info \<Rightarrow> server_on_info_timer env metric_encode s)"

end
