(* ===== verification/Raft_Log.thy ===== *)
theory Raft_Log
  imports Server_Loop
begin

text \<open>
  What the handlers of \<open>Server_Log\<close> do to the replicated log: the rule by which a follower merges the
  entries of its leader, and the order in which committed entries reach the state machine.
\<close>

section \<open>What changing roles and configurations leaves alone\<close>

text \<open>The log, the state machine, what is on disk, and the clocks.\<close>

definition core :: "'st server \<Rightarrow> store \<times> 'st \<times> bool \<times> bool \<times> nat \<times> cstring option \<times> nat \<times> cstring option \<times> u64 \<times>
    bytes option \<times> sc_buf" where
  "core s = (sv_store s, sv_state s, sv_ss_inprogress s, sv_fsync s, sv_commit s, sv_name s, sv_tick s,
     sv_voted_for s, sv_ts s, sv_disk s, sv_tmp s)"

lemma core_eqs:
  assumes "core s' = core s"
  shows "sv_store s' = sv_store s" "sv_state s' = sv_state s" "sv_ss_inprogress s' = sv_ss_inprogress s"
    "sv_fsync s' = sv_fsync s" "sv_commit s' = sv_commit s" "sv_name s' = sv_name s" "sv_tick s' = sv_tick s"
    "sv_voted_for s' = sv_voted_for s" "sv_ts s' = sv_ts s" "sv_disk s' = sv_disk s" "sv_tmp s' = sv_tmp s"
  using assms by (simp_all add: core_def)

lemma foldl_keeps: "(\<And>s x. f (g s x) = f s) \<Longrightarrow> f (foldl g s xs) = f s"
  by (induction xs arbitrary: s) simp_all

lemma create_node_core: "core (server_create_node s nm us) = core s"
  by (simp add: core_def server_create_node_def set_node_def Let_def)

lemma create_nodes_core: "core (foldl (\<lambda>s m. server_create_node s (mn_name m) (mn_uris m)) s ms) = core s"
  by (rule foldl_keeps) (rule create_node_core)

lemma connections_core: "core (server_update_connections s) = core s"
  by (simp add: server_update_connections_def Let_def core_def core_eqs [OF create_nodes_core])

lemma create_node_meta:
  "sv_meta (server_create_node s nm us) = sv_meta s" "sv_role (server_create_node s nm us) = sv_role s"
  "sv_in_cluster (server_create_node s nm us) = sv_in_cluster s" "sv_leader (server_create_node s nm us) = sv_leader s"
  by (simp_all add: server_create_node_def set_node_def Let_def)

lemma connections_meta [simp]:
  "sv_meta (server_update_connections s) = sv_meta s" "sv_role (server_update_connections s) = sv_role s"
  "sv_in_cluster (server_update_connections s) = sv_in_cluster s"
  "sv_leader (server_update_connections s) = sv_leader s"
  by (simp_all add: server_update_connections_def Let_def foldl_keeps [of sv_meta] foldl_keeps [of sv_role]
      foldl_keeps [of sv_in_cluster] foldl_keeps [of sv_leader] create_node_meta)

lemma drop_client_frame:
  "core (drop_client s i) = core s" "sv_meta (drop_client s i) = sv_meta s" "sv_role (drop_client s i) = sv_role s"
  "sv_leader (drop_client s i) = sv_leader s" "sv_in_cluster (drop_client s i) = sv_in_cluster s"
  "sv_node (drop_client s i) = sv_node s" "sv_vote_count (drop_client s i) = sv_vote_count s"
  "sv_nodes (drop_client s i) = sv_nodes s" "sv_connected (drop_client s i) = sv_connected s"
  "sv_prevote_term (drop_client s i) = sv_prevote_term s"
  by (simp_all add: drop_client_def set_client_def core_def split: prod.splits)

lemma become_follower_core: "core (server_become_follower s l t) = core s"
proof -
  have "core (foldl drop_client s' is) = core s'" for s' :: "'a server" and "is"
    by (rule foldl_keeps) (rule drop_client_frame)
  note f = core_eqs [OF this]
  show ?thesis by (simp add: server_become_follower_def Let_def core_def f)
qed

lemma drop_clients_frame:
  "sv_meta (foldl drop_client s is) = sv_meta s" "sv_role (foldl drop_client s is) = sv_role s"
  "sv_leader (foldl drop_client s is) = sv_leader s" "sv_in_cluster (foldl drop_client s is) = sv_in_cluster s"
  "sv_node (foldl drop_client s is) = sv_node s" "sv_nodes (foldl drop_client s is) = sv_nodes s"
  "sv_connected (foldl drop_client s is) = sv_connected s"
  "sv_prevote_term (foldl drop_client s is) = sv_prevote_term s"
  by (rule foldl_keeps, rule drop_client_frame)+

lemma become_follower_frame [simp]:
  "m_term (sv_meta (server_become_follower s l t)) = t" "sv_role (server_become_follower s l t) = SERVER_ROLE_FOLLOWER"
  "sv_leader (server_become_follower s l t) = l" "sv_node (server_become_follower s l t) = sv_node s"
  "sv_nodes (server_become_follower s l t) = sv_nodes s" "sv_in_cluster (server_become_follower s l t) = sv_in_cluster s"
  "sv_connected (server_become_follower s l t) = sv_connected s"
  by (simp_all add: server_become_follower_def Let_def drop_clients_frame set_term_def)

lemmas [simp] = core_eqs [OF connections_core] core_eqs [OF become_follower_core]

lemma meta_change_core: "core (server_meta_change s) = core s"
proof -
  have "core (server_update_connections (s\<lparr>sv_in_cluster := b\<rparr>)) = core s" for b
    unfolding connections_core by (simp add: core_def)
  then show ?thesis by (simp add: server_meta_change_def Let_def become_follower_core)
qed

lemmas [simp] = core_eqs [OF meta_change_core]

section \<open>Putting one entry\<close>

text \<open>The store reports that it is full only from its second page.\<close>

lemma store_retry_full:
  assumes "store_retry sz flush env s = Some (RS_FULL, s')"
  shows "st_curr s'"
proof -
  have "fst (RS_FULL, s') = RS_FULL \<longrightarrow> st_curr (snd (RS_FULL, s'))"
  proof (rule store_retry.raw_induct [where P = "\<lambda>sz flush env s r. fst r = RS_FULL \<longrightarrow> st_curr (snd r)", OF _ assms])
    fix f :: "nat \<Rightarrow> bool \<Rightarrow> (nat \<Rightarrow> mmap_rc \<times> mmap_rc) \<Rightarrow> store \<Rightarrow> (rs_rc \<times> store) option"
    fix sz flush env s r
    assume ih: "\<And>sz flush env s r. f sz flush env s = Some r \<Longrightarrow> fst r = RS_FULL \<longrightarrow> st_curr (snd r)"
      and "(if sz > page_quota (st_cur s)
      then Option.bind
        (if sz > page_cap (st_cur s)
         then map_option (\<lambda>(rc, p). (rc, st_set_cur s p))
                (page_reserve (st_cur s) sz (fst (env 0)) (snd (env 0)))
         else Some (RS_FULL, s))
        (\<lambda>(rc, s).
          if rc = RS_OK then f sz flush (\<lambda>k. env (Suc k)) s
          else if rc \<noteq> RS_FULL then Some (rc, s)
          else if \<not> st_curr s
          then f sz flush (\<lambda>k. env (Suc k))
            ((if flush then store_flush s else s)
               \<lparr>st_curr := True, st_p1 := page_clear (st_p1 s) (st_last_index s)\<rparr>)
          else Some (RS_FULL, s))
      else Some (RS_OK, s)) = Some r"
    then show "fst r = RS_FULL \<longrightarrow> st_curr (snd r)"
      by (auto split: if_splits simp: Option.bind_eq_Some_conv dest: ih)
  qed
  then show ?thesis by simp
qed

lemma store_put_full:
  assumes "store_put_entry env s idx e = Some (RS_FULL, s')"
  shows "st_curr s'"
proof -
  obtain rc s1 where "store_retry (unat (entry_len e)) True env s = Some (rc, s1)" "rc = RS_FULL" "s1 = s'"
    using assms by (auto simp: store_put_entry_def split: if_splits)
  then show ?thesis using store_retry_full by blast
qed

lemma store_reserve_rep:
  assumes rep: "store_rep s es" and c: "st_curr s" and sz: "sz < 2 ^ 32"
  shows "\<exists>rc s'. store_reserve s sz m1 m2 = Some (rc, s') \<and>
    (rc = RS_OK \<longrightarrow> store_rep s' es \<and> sz \<le> page_quota (st_cur s') \<and> st_ss_index s' = st_ss_index s \<and>
       st_ss_term s' = st_ss_term s)"
proof -
  obtain es0 es1 where es: "es = es0 @ es1" "store_pages s es0 es1" using rep by (rule store_repE)
  then have p: "page_rep (st_p1 s) (st_ss_index s + length es0) es1" using c by (auto simp: store_pages_def)
  obtain rc p' where r: "page_reserve (st_p1 s) sz m1 m2 = Some (rc, p')"
      "rc = RS_OK \<or> rc = RS_FULL \<longrightarrow> page_rep p' (st_ss_index s + length es0) es1"
      "rc = RS_OK \<longrightarrow> sz \<le> page_quota p'"
    using page_reserve_keeps [OF p sz, of m1 m2] by blast
  have "store_rep (s\<lparr>st_p1 := p'\<rparr>) es" if "rc = RS_OK"
  proof -
    have "store_pages (s\<lparr>st_p1 := p'\<rparr>) es0 es1" using es(2) c r(2) that by (auto simp: store_pages_def)
    then show ?thesis using rep es(1) by (auto simp: store_rep_def)
  qed
  then show ?thesis using r c by (simp add: store_reserve_def st_cur_def)
qed

lemma store_put_fits:
  assumes "unat (entry_len e) \<le> page_quota (st_cur s)"
  shows "\<exists>s'. store_put_entry env s idx e = Some (RS_OK, s')"
  using store_retry_fits [OF assms, of True env] by (simp add: store_put_entry_def)

text \<open>
  While no snapshot is being taken, the loop that puts an entry returns, and on success the entry has
  been added to the log.
\<close>

lemma put_retry_rep:
  fixes s :: "'st server"
  assumes rep: "store_rep (sv_store s) es" and ok: "entry_ok e"
    and i: "st_ss_index (sv_store s) + Suc (length es) < 2 ^ 64" and ss: "\<not> sv_ss_inprogress s"
  shows "\<exists>rc st n. put_retry env s idx (entry_bytes e @ rest) = Some (rc, s\<lparr>sv_store := st, sv_tick := n\<rparr>) \<and>
    (rc = RS_OK \<longrightarrow> store_rep st (es @ [e]) \<and> st_ss_index st = st_ss_index (sv_store s) \<and>
       st_ss_term st = st_ss_term (sv_store s))"
proof -
  let ?b = "entry_bytes e @ rest"
  have l: "unat (entry_len ?b) = entry_size e" "entry_size e < 2 ^ 32"
    using ok by (simp_all add: entry_fields unat_entry_size entry_ok_def)
  obtain rc st where r: "store_put_entry (ev_mmap env (sv_tick s)) (sv_store s) idx ?b = Some (rc, st)"
      "rc = RS_OK \<longrightarrow> store_rep st (es @ [e])" "rc = RS_FULL \<longrightarrow> store_rep st es"
      "rc = RS_OK \<or> rc = RS_FULL \<longrightarrow> st_ss_index st = st_ss_index (sv_store s) \<and> st_ss_term st = st_ss_term (sv_store s)"
    using store_put_rep [OF rep ok i, of "ev_mmap env (sv_tick s)" idx rest] by blast
  show ?thesis
  proof (cases "rc = RS_FULL")
    case False
    then show ?thesis using r by (subst put_retry.simps) (auto simp: tick_def)
  next
    case True
    have c: "st_curr st" using r(1) True store_put_full by blast
    let ?n = "Suc (sv_tick s)"
    obtain rc2 st2 where r2: "store_reserve st (entry_size e) (fst (ev_mmap env ?n 0)) (snd (ev_mmap env ?n 0)) = Some (rc2, st2)"
        "rc2 = RS_OK \<longrightarrow> store_rep st2 es \<and> entry_size e \<le> page_quota (st_cur st2) \<and>
           st_ss_index st2 = st_ss_index st \<and> st_ss_term st2 = st_ss_term st"
      using store_reserve_rep [OF _ c l(2)] r(3) True by blast
    let ?s2 = "s\<lparr>sv_tick := Suc ?n, sv_store := st2\<rparr>"
    have u: "put_retry env s idx ?b = (if rc2 \<noteq> RS_OK then Some (rc2, ?s2) else put_retry env ?s2 idx ?b)"
      using r(1) True r2(1) ss l(1)
      by (subst put_retry.simps) (simp add: server_wait_snapshot_def tick_def ask_def)
    show ?thesis
    proof (cases "rc2 = RS_OK")
      case False
      then show ?thesis using u by (intro exI [of _ rc2] exI [of _ st2] exI [of _ "Suc ?n"]) simp
    next
      case ok2: True
      then have q: "store_rep st2 es" "unat (entry_len ?b) \<le> page_quota (st_cur st2)"
          "st_ss_index st2 = st_ss_index (sv_store s)" "st_ss_term st2 = st_ss_term (sv_store s)"
        using r2(2) r(4) True l(1) by simp_all
      obtain st3 where p: "store_put_entry (ev_mmap env (Suc ?n)) st2 idx ?b = Some (RS_OK, st3)"
        using store_put_fits [OF q(2)] by blast
      have "store_rep st3 (es @ [e])" "st_ss_index st3 = st_ss_index st2" "st_ss_term st3 = st_ss_term st2"
        using store_put_rep [OF q(1) ok, of "ev_mmap env (Suc ?n)" idx rest] i q(3) p by auto
      moreover have "put_retry env ?s2 idx ?b = Some (RS_OK, s\<lparr>sv_store := st3, sv_tick := Suc (Suc ?n)\<rparr>)"
        using p by (subst put_retry.simps) (simp add: tick_def)
      ultimately show ?thesis using u ok2 q by auto
    qed
  qed
qed

section \<open>Merging the leader's entries\<close>

text \<open>
  The rule of Raft, on lists: from the position \<open>k\<close> on, an entry that is there already with the same
  term is kept; the first one that is missing or has another term cuts the log there, and it and all
  that follow are appended.
\<close>

fun raft_merge :: "nat \<Rightarrow> entry list \<Rightarrow> entry list \<Rightarrow> entry list" where
  "raft_merge k log [] = log"
| "raft_merge k log (e # es) =
     (if k < length log \<and> e_term (log ! k) = e_term e then raft_merge (Suc k) log es
      else raft_merge (Suc k) (take k log @ [e]) es)"

text \<open>An entry that a leader sends: one that carries a configuration carries a valid one.\<close>

definition sendable :: "entry \<Rightarrow> bool" where
  "sendable e \<longleftrightarrow> entry_ok e \<and> (e_flags e = CMD_META \<longrightarrow> (\<exists>m. meta_ok m \<and> e_data e = meta_bytes m))"

lemma replace_bytes:
  assumes "meta_ok m" "length (meta_bytes m) < 2 ^ 32"
  shows "\<exists>b. meta_replace (meta_bytes m) = Some (m, b)"
proof -
  have "holds (sc_buf_wrap (meta_bytes m) (length (meta_bytes m)) SC_BUF_READ) (meta_bytes m @ [])"
    using holds_wrap [OF assms(2)] by simp
  from meta_decode_enc [OF assms(1) this, of "meta_init (Some [])"] show ?thesis
    by (auto simp: meta_replace_def meta_init_def)
qed

text \<open>What storing entries leaves alone.\<close>

definition quiet :: "'st server \<Rightarrow> 'st server \<Rightarrow> bool" where
  "quiet s s' \<longleftrightarrow> sv_state s' = sv_state s \<and> sv_ss_inprogress s' = sv_ss_inprogress s \<and> sv_fsync s' = sv_fsync s \<and>
     sv_commit s' = sv_commit s \<and> sv_name s' = sv_name s \<and> sv_voted_for s' = sv_voted_for s \<and> sv_ts s' = sv_ts s \<and>
     sv_disk s' = sv_disk s"

lemma quiet_refl [simp]: "quiet s s"
  by (simp add: quiet_def)

lemma quiet_trans: "quiet s s1 \<Longrightarrow> quiet s1 s2 \<Longrightarrow> quiet s s2"
  by (simp add: quiet_def)

lemma quiet_upd [simp]:
  "quiet s (s'\<lparr>sv_store := st\<rparr>) = quiet s s'" "quiet s (s'\<lparr>sv_tick := n\<rparr>) = quiet s s'"
  "quiet s (s'\<lparr>sv_meta := m\<rparr>) = quiet s s'" "quiet s (server_meta_change s') = quiet s s'"
  "quiet s (server_become_follower s' l t) = quiet s s'"
  by (simp_all add: quiet_def)

text \<open>The log of a server, after the index \<open>ss\<close>, with no snapshot being taken.\<close>

definition log_of :: "'st server \<Rightarrow> nat \<Rightarrow> u64 \<Rightarrow> entry list \<Rightarrow> bool" where
  "log_of s ss t es \<longleftrightarrow> store_rep (sv_store s) es \<and> st_ss_index (sv_store s) = ss \<and> st_ss_term (sv_store s) = t \<and>
     \<not> sv_ss_inprogress s"

lemma store_entry_rep:
  assumes l: "log_of s ss t es" and e: "sendable e"
    and i: "ss < idx" "idx \<le> Suc (ss + length es)" "ss + length es + 2 < 2 ^ 64"
  shows "\<exists>rc s'. server_store_entry env s idx (entry_bytes e @ rest) = Some (rc, s') \<and> quiet s s' \<and>
    (rc = RS_OK \<longrightarrow> log_of s' ss t (raft_merge (idx - ss - 1) es [e]))"
proof -
  let ?b = "entry_bytes e @ rest" and ?k = "idx - ss - 1" and ?curr = "store_get_entry (sv_store s) idx"
  have rep: "store_rep (sv_store s) es" "st_ss_index (sv_store s) = ss" "st_ss_term (sv_store s) = t"
      "\<not> sv_ss_inprogress s"
    using l by (simp_all add: log_of_def)
  have ok: "entry_ok e" using e by (simp add: sendable_def)
  have g: "map_option decode_entry ?curr = log_at ss es idx" using store_get_rep [OF rep(1)] rep(2) by simp
  then have c: "?curr \<noteq> None \<longleftrightarrow> ?k < length es"
      "?curr \<noteq> None \<Longrightarrow> entry_term (the ?curr) = e_term (es ! ?k)"
    using i(1,2) by (auto simp: log_at_def entry_term_decode split: if_splits)
  show ?thesis
  proof (cases "?k < length es \<and> e_term (es ! ?k) = e_term e")
    case True
    then have "server_store_entry env s idx ?b = Some (RS_OK, s)"
      using c by (simp add: server_store_entry_def entry_fields)
    then show ?thesis using True l by simp
  next
    case False
    define s1 where "s1 = (if ?curr \<noteq> None
        then server_meta_change (s\<lparr>sv_store := store_remove_after (sv_store s) (sub64 idx 1),
               sv_meta := meta_rollback (sv_meta s) (of_nat (sub64 idx 1))\<rparr>)
        else s)"
    have idx: "sub64 idx 1 = idx - 1" "ss \<le> idx - 1" "idx - 1 + 1 < 2 ^ 64" "idx - 1 - ss = ?k"
      using i by simp_all
    have s1: "store_rep (sv_store s1) (take ?k es)" "st_ss_index (sv_store s1) = ss"
        "st_ss_term (sv_store s1) = t" "quiet s s1"
    proof -
      show "store_rep (sv_store s1) (take ?k es)" "st_ss_index (sv_store s1) = ss" "st_ss_term (sv_store s1) = t"
        using store_remove_after_rep [OF rep(1), of "idx - 1"] rep c(1) idx
        by (cases "?curr = None"; simp add: s1_def)+
      show "quiet s s1" by (simp add: s1_def)
    qed
    have n1: "\<not> sv_ss_inprogress s1" using s1(4) rep(4) by (simp add: quiet_def)
    obtain s2 where s2: "(if entry_flags ?b = CMD_META
              then Option.bind (meta_replace (take (entry_data_len ?b) (entry_data ?b)))
                     (\<lambda>(m, _). Some (RS_OK, server_meta_change (s1\<lparr>sv_meta := m\<rparr>)))
              else Some (RS_OK, s1)) = Some (RS_OK, s2)" "sv_store s2 = sv_store s1" "quiet s1 s2"
    proof (cases "e_flags e = CMD_META")
      case True
      then obtain m where m: "meta_ok m" "e_data e = meta_bytes m" using e by (auto simp: sendable_def)
      have "length (meta_bytes m) < 2 ^ 32" using ok m(2) by (simp add: entry_ok_def entry_size_def)
      then obtain b where "meta_replace (meta_bytes m) = Some (m, b)" using replace_bytes [OF m(1)] by blast
      then show thesis
        using that [of "server_meta_change (s1\<lparr>sv_meta := m\<rparr>)"] True m(2)
        by (simp add: entry_fields entry_data_len_bytes ok)
    next
      case False
      then show thesis using that [of s1] by (simp add: entry_fields)
    qed
    have n2: "\<not> sv_ss_inprogress s2" using s2(3) n1 by (simp add: quiet_def)
    have "store_rep (sv_store s2) (take ?k es)" "st_ss_index (sv_store s2) + Suc (length (take ?k es)) < 2 ^ 64"
      using s1(1,2) s2(2) i(2,3) by simp_all
    from put_retry_rep [OF this(1) ok this(2) n2, of env idx rest] obtain rc st n where
      p: "put_retry env s2 idx ?b = Some (rc, s2\<lparr>sv_store := st, sv_tick := n\<rparr>)"
        "rc = RS_OK \<longrightarrow> store_rep st (take ?k es @ [e]) \<and> st_ss_index st = st_ss_index (sv_store s2) \<and>
           st_ss_term st = st_ss_term (sv_store s2)"
      by blast
    have "server_store_entry env s idx ?b = Some (rc, s2\<lparr>sv_store := st, sv_tick := n\<rparr>)"
    proof -
      have n: "\<not> (?curr \<noteq> None \<and> entry_term (the ?curr) = entry_term ?b)"
        using False c by (auto simp: entry_fields)
      have "server_store_entry env s idx ?b = ok_bind (Some (RS_OK, s2)) (\<lambda>s. put_retry env s idx ?b)"
        unfolding server_store_entry_def Let_def if_not_P [OF n] s1_def [symmetric] s2(1) by (rule refl)
      then show ?thesis using p(1) by (simp add: ok_bind_def)
    qed
    moreover have "quiet s (s2\<lparr>sv_store := st, sv_tick := n\<rparr>)"
      using quiet_trans [OF s1(4) s2(3)] by simp
    moreover have "log_of (s2\<lparr>sv_store := st, sv_tick := n\<rparr>) ss t (raft_merge ?k es [e])" if "rc = RS_OK"
      using p(2) that s1(2,3) s2(2) n2 False by (auto simp: log_of_def)
    ultimately show ?thesis by blast
  qed
qed

text \<open>Merging one entry after the other is merging the list.\<close>

lemma raft_merge_Cons: "raft_merge k log (e # es) = raft_merge (Suc k) (raft_merge k log [e]) es"
  by simp

lemma raft_merge_length:
  "k \<le> length log \<Longrightarrow> Suc k \<le> length (raft_merge k log [e]) \<and> length (raft_merge k log [e]) \<le> Suc (length log)"
  by auto

lemma store_flush_rep:
  assumes "store_rep s es"
  shows "store_rep (store_flush s) es" "st_ss_index (store_flush s) = st_ss_index s"
    "st_ss_term (store_flush s) = st_ss_term s"
  using assms by (auto simp: store_rep_def store_pages_def store_flush_def st_set_cur_def st_cur_def)

lemma store_from_rep:
  assumes "log_of s ss t es" "\<forall>e \<in> set fs. sendable e"
    and "ss < idx" "idx \<le> Suc (ss + length es)" "ss + length es + length fs + 1 < 2 ^ 64"
    and "drop pos buf = log_bytes fs" "pos \<le> length buf"
  shows "\<exists>rc s'. store_from env s idx buf (length buf) pos = Some (rc, s') \<and> quiet s s' \<and>
    (rc = RS_OK \<longrightarrow> log_of s' ss t (raft_merge (idx - ss - 1) es fs))"
  using assms
proof (induction fs arbitrary: s es idx pos)
  case Nil
  have "pos = length buf" using Nil.prems(6,7) by simp
  moreover have "log_of (s\<lparr>sv_store := store_flush (sv_store s)\<rparr>) ss t es"
    using Nil.prems(1) store_flush_rep [of "sv_store s" es] by (simp add: log_of_def)
  ultimately show ?case
    using Nil.prems(1) by (subst store_from.simps) auto
next
  case (Cons e fs)
  have b: "drop pos buf = entry_bytes e @ log_bytes fs" using Cons.prems(6) by simp
  have ok: "entry_ok e" "sendable e" using Cons.prems(2) by (simp_all add: sendable_def)
  have len: "length (entry_bytes e) = entry_size e" "0 < entry_size e" "unat (entry_len (drop pos buf)) = entry_size e"
    using ok(1) by (simp_all add: b entry_fields unat_entry_size length_entry_bytes) (simp add: entry_size_def)
  have pos: "pos + entry_size e \<le> length buf"
    using arg_cong [OF b, of length] len(1) Cons.prems(7) by simp
  then have "pos < length buf" using len(2) by linarith
  obtain rc s1 where r: "server_store_entry env s idx (drop pos buf) = Some (rc, s1)" "quiet s s1"
      "rc = RS_OK \<longrightarrow> log_of s1 ss t (raft_merge (idx - ss - 1) es [e])"
    using store_entry_rep [OF Cons.prems(1) ok(2) Cons.prems(3,4), of env "log_bytes fs"] Cons.prems(5) b by auto
  show ?case
  proof (cases "rc = RS_OK")
    case False
    then show ?thesis using r \<open>pos < length buf\<close> by (subst store_from.simps) auto
  next
    case True
    let ?es = "raft_merge (idx - ss - 1) es [e]"
    have k: "idx - ss - 1 \<le> length es" using Cons.prems(3,4) by linarith
    note ml = raft_merge_length [OF k, of e]
    have d: "drop (pos + entry_size e) buf = log_bytes fs"
      using b len(1) by (metis append_eq_conv_conj drop_drop add.commute)
    have "\<exists>rc s'. store_from env s1 (Suc idx) buf (length buf) (pos + entry_size e) = Some (rc, s') \<and> quiet s1 s' \<and>
        (rc = RS_OK \<longrightarrow> log_of s' ss t (raft_merge (Suc idx - ss - 1) ?es fs))"
    proof (rule Cons.IH)
      show "log_of s1 ss t ?es" using r(3) True by simp
      show "\<forall>e \<in> set fs. sendable e" using Cons.prems(2) by simp
      show "ss < Suc idx" using Cons.prems(3) by simp
      show "Suc idx \<le> Suc (ss + length ?es)" using ml Cons.prems(3) by linarith
      show "ss + length ?es + length fs + 1 < 2 ^ 64" using ml Cons.prems(5) by simp
    qed (use d pos in simp_all)
    then obtain rc2 s2 where 2: "store_from env s1 (Suc idx) buf (length buf) (pos + entry_size e) = Some (rc2, s2)"
        "quiet s1 s2" "rc2 = RS_OK \<longrightarrow> log_of s2 ss t (raft_merge (Suc idx - ss - 1) ?es fs)"
      by blast
    have "add64 idx 1 = Suc idx" using Cons.prems(4,5) by simp
    then have "store_from env s idx buf (length buf) pos = Some (rc2, s2)"
      using r(1) True 2(1) \<open>pos < length buf\<close> len(3) by (subst store_from.simps) simp
    moreover have "Suc idx - ss - 1 = Suc (idx - ss - 1)" using Cons.prems(3) by simp
    ultimately show ?thesis
      using 2(2,3) r(2) quiet_trans raft_merge_Cons [of "idx - ss - 1" es e fs] by metis
  qed
qed

text \<open>What the rule guarantees.\<close>

lemma raft_merge_keeps: "k \<le> length log \<Longrightarrow> k' \<le> k \<Longrightarrow> take k' (raft_merge k log es) = take k' log"
proof (induction es arbitrary: k log)
  case (Cons e es)
  have "take k' (raft_merge (Suc k) l es) = take k' l" if "Suc k \<le> length l" for l
    using Cons.IH [OF that] Cons.prems(2) by simp
  then show ?case using Cons.prems by (simp add: min_def)
qed simp

lemma raft_merge_terms:
  assumes "k \<le> length log"
  shows "map e_term (take (length es) (drop k (raft_merge k log es))) = map e_term es \<and>
    k + length es \<le> length (raft_merge k log es)"
  using assms
proof (induction es arbitrary: k log)
  case (Cons e es)
  define l where "l = (if k < length log \<and> e_term (log ! k) = e_term e then log else take k log @ [e])"
  have l: "Suc k \<le> length l" "e_term (l ! k) = e_term e" using Cons.prems by (auto simp: l_def nth_append)
  have m: "raft_merge k log (e # es) = raft_merge (Suc k) l es" by (simp add: l_def)
  note ih = Cons.IH [OF l(1)]
  let ?r = "raft_merge (Suc k) l es"
  have k: "k < length ?r" using ih by simp
  have "?r ! k = l ! k"
    using arg_cong [OF raft_merge_keeps [OF l(1) order.refl, of es], of "\<lambda>xs. xs ! k"] l(1) k by simp
  then show ?case using ih l(2) k unfolding m by (simp add: Cons_nth_drop_Suc [symmetric])
qed simp

lemma raft_merge_same:
  assumes "k + length es \<le> length log" "map e_term (take (length es) (drop k log)) = map e_term es"
  shows "raft_merge k log es = log"
  using assms
proof (induction es arbitrary: k)
  case (Cons e es)
  have "drop k log = log ! k # drop (Suc k) log" using Cons.prems(1) by (simp add: Cons_nth_drop_Suc)
  then show ?case using Cons.IH [of "Suc k"] Cons.prems by simp
qed simp

section \<open>Applying committed entries\<close>

text \<open>
  A state machine that applies every command, tells the session of a request and of a new client, and
  reads nothing but the entry; \<open>f\<close> is what it does.
\<close>

definition commands :: "u32 set" where
  "commands = {CMD_INIT, CMD_META, CMD_TERM, CMD_REQUEST, CMD_CONNECT, CMD_DISCONNECT, CMD_TIMESTAMP, CMD_INFO, CMD_LOG}"

definition names_session :: "bytes \<Rightarrow> session option \<Rightarrow> bool" where
  "names_session b sess \<longleftrightarrow> (entry_flags b = CMD_REQUEST \<or> entry_flags b = CMD_CONNECT \<longrightarrow> sess \<noteq> None)"

definition machine_ok :: "'st env \<Rightarrow> (nat \<Rightarrow> entry \<Rightarrow> 'st \<Rightarrow> 'st) \<Rightarrow> bool" where
  "machine_ok env f \<longleftrightarrow> (\<forall>i b st. entry_flags b \<in> commands \<longrightarrow>
     (\<exists>sess calls. sm_apply env i b st = Some (RS_OK, sess, calls, f i (decode_entry b) st) \<and> names_session b sess))"

text \<open>The entries with their indexes, one after the other.\<close>

fun apply_all :: "(nat \<Rightarrow> entry \<Rightarrow> 'st \<Rightarrow> 'st) \<Rightarrow> nat \<Rightarrow> entry list \<Rightarrow> 'st \<Rightarrow> 'st" where
  "apply_all f i [] st = st"
| "apply_all f i (e # es) st = apply_all f (Suc i) es (f i e st)"

text \<open>A follower that knows its leader; the log and the commit index of the server.\<close>

definition follows_leader :: "'st server \<Rightarrow> bool" where
  "follows_leader s \<longleftrightarrow> sv_role s = SERVER_ROLE_FOLLOWER \<and> sv_leader s \<noteq> None"

definition kept :: "'st server \<Rightarrow> 'st server \<Rightarrow> bool" where
  "kept s s' \<longleftrightarrow> sv_store s' = sv_store s \<and> sv_commit s' = sv_commit s \<and> sv_role s' = sv_role s \<and>
     sv_leader s' = sv_leader s \<and> sv_ss_inprogress s' = sv_ss_inprogress s"

lemma ok_then_inv:
  assumes "P (snd r)" "\<And>s. P s \<Longrightarrow> P (snd (f s))"
  shows "P (snd (ok_then r f))"
  using assms by (auto simp: ok_then_def split: prod.splits)

text \<open>Everything but the scratch buffer, the file, and how often the environment was asked.\<close>

definition kept_all :: "'st server \<Rightarrow> 'st server \<Rightarrow> bool" where
  "kept_all s s' \<longleftrightarrow> s'\<lparr>sv_tick := sv_tick s, sv_tmp := sv_tmp s, sv_disk := sv_disk s\<rparr> = s"

lemma kept_all_upd [simp]:
  "kept_all s (s'\<lparr>sv_tick := n\<rparr>) = kept_all s s'" "kept_all s (s'\<lparr>sv_tmp := b\<rparr>) = kept_all s s'"
  "kept_all s (s'\<lparr>sv_disk := d\<rparr>) = kept_all s s'" "kept_all s s"
  by (simp_all add: kept_all_def)

lemma kept_all_eqs:
  assumes "kept_all s s'"
  shows "sv_meta s' = sv_meta s" "sv_voted_for s' = sv_voted_for s" "sv_name s' = sv_name s" "sv_store s' = sv_store s"
    "sv_state s' = sv_state s" "sv_role s' = sv_role s" "sv_leader s' = sv_leader s" "sv_commit s' = sv_commit s"
    "sv_vote_count s' = sv_vote_count s" "sv_in_cluster s' = sv_in_cluster s" "sv_ts s' = sv_ts s"
    "sv_ss_inprogress s' = sv_ss_inprogress s" "sv_node s' = sv_node s" "sv_heartbeat s' = sv_heartbeat s"
    "kept s s'"
proof -
  have s: "s = s'\<lparr>sv_tick := sv_tick s, sv_tmp := sv_tmp s, sv_disk := sv_disk s\<rparr>"
    using assms by (simp add: kept_all_def)
  show "sv_meta s' = sv_meta s" "sv_voted_for s' = sv_voted_for s" "sv_name s' = sv_name s" "sv_store s' = sv_store s"
    "sv_state s' = sv_state s" "sv_role s' = sv_role s" "sv_leader s' = sv_leader s" "sv_commit s' = sv_commit s"
    "sv_vote_count s' = sv_vote_count s" "sv_in_cluster s' = sv_in_cluster s" "sv_ts s' = sv_ts s"
    "sv_ss_inprogress s' = sv_ss_inprogress s" "sv_node s' = sv_node s" "sv_heartbeat s' = sv_heartbeat s"
    "kept s s'"
    unfolding kept_def by (subst s, simp)+
qed

lemma file_op_kept: "kept_all s s' \<Longrightarrow> kept_all s (snd (file_op env s'))"
  by (simp add: file_op_def ask_def tick_def)

lemma write_meta_kept: "kept_all s (snd (server_write_meta env s))"
  unfolding server_write_meta_def Let_def by (rule ok_then_inv [where P = "kept_all s"] file_op_kept | simp)+

lemma meta_change_role:
  "sv_role s \<noteq> SERVER_ROLE_LEADER \<Longrightarrow> sv_role (server_meta_change s) = sv_role s \<and>
     sv_leader (server_meta_change s) = sv_leader s \<and> sv_meta (server_meta_change s) = sv_meta s"
  by (simp add: server_meta_change_def Let_def)

lemma applied_follower:
  assumes f: "follows_leader s" and c: "entry_flags e \<in> commands" and n: "names_session e sess"
  shows "\<exists>rc s'. server_on_applied_entry env s e sess = Some (rc, s') \<and> kept s s' \<and> sv_state s' = sv_state s"
proof -
  have r: "sv_role s = SERVER_ROLE_FOLLOWER" "sv_leader s \<noteq> None" using f by (simp_all add: follows_leader_def)
  have m: "kept s (snd (server_on_meta env s m)) \<and> sv_state (snd (server_on_meta env s m)) = sv_state s" for m
  proof -
    define s1 where "s1 = (if m_index m = m_index (sv_meta s) \<and> m_prev (sv_meta s) \<noteq> None
                    then s\<lparr>sv_meta := meta_remove_prev (sv_meta s)\<rparr>
                    else if m_index m > m_index (sv_meta s) then s\<lparr>sv_meta := meta_copy m\<rparr> else s)"
    have s1: "sv_role s1 = SERVER_ROLE_FOLLOWER" "kept s s1" "sv_state s1 = sv_state s"
      using r(1) by (simp_all add: s1_def kept_def)
    have c1: "sv_role (server_meta_change s1) = SERVER_ROLE_FOLLOWER" "sv_leader (server_meta_change s1) = sv_leader s1"
      using meta_change_role [of s1] s1(1) by simp_all
    have k: "kept s (server_meta_change s1)" using s1 c1 by (simp add: kept_def)
    have "server_on_meta env s m = (RS_OK, s) \<or> server_on_meta env s m = server_write_meta env (server_meta_change s1)"
      using c1(1) unfolding server_on_meta_def Let_def s1_def [symmetric] by simp
    then show ?thesis
      using k kept_all_eqs [OF write_meta_kept [of "server_meta_change s1" env]] s1(3) by (auto simp: kept_def)
  qed
  let ?c = "entry_flags e"
  consider "?c = CMD_META" | "?c = CMD_TERM" | "?c = CMD_REQUEST" | "?c = CMD_CONNECT"
    | "?c = CMD_DISCONNECT \<or> ?c = CMD_INIT \<or> ?c = CMD_INFO \<or> ?c = CMD_TIMESTAMP \<or> ?c = CMD_LOG"
    using c by (auto simp: commands_def)
  then show ?thesis
  proof cases
    case 1
    then have "server_on_applied_entry env s e sess = Some (server_on_meta env s (sm_meta env (sv_state s)))"
      by (simp add: server_on_applied_entry_def)
    then show ?thesis
      using m [of "sm_meta env (sv_state s)"] by (cases "server_on_meta env s (sm_meta env (sv_state s))") simp
  next
    case 2
    then have "server_on_applied_entry env s e sess = server_on_term_start s (sm_meta env (sv_state s))"
      by (simp add: server_on_applied_entry_def cmd_ids CMD_REQUEST_def CMD_INFO_def)
    then show ?thesis using r(2) by (auto simp: server_on_term_start_def kept_def)
  next
    case 3
    then have "server_on_applied_entry env s e sess = Some (RS_OK, s)"
      using r(1) n by (auto simp: names_session_def server_on_applied_entry_def server_on_applied_client_req_def cmd_ids CMD_REQUEST_def CMD_INFO_def)
    then show ?thesis by (simp add: kept_def)
  next
    case 4
    then have "server_on_applied_entry env s e sess = Some (RS_OK, s)"
      using r(1) n by (auto simp: names_session_def server_on_applied_entry_def server_on_client_connect_applied_def cmd_ids CMD_REQUEST_def CMD_INFO_def)
    then show ?thesis by (simp add: kept_def)
  next
    case 5
    then have "server_on_applied_entry env s e sess = Some (RS_OK, s)"
      by (auto simp: server_on_applied_entry_def cmd_ids CMD_REQUEST_def CMD_INFO_def)
    then show ?thesis by (simp add: kept_def)
  qed
qed

lemma add_jobs_follower: "sv_role s = SERVER_ROLE_FOLLOWER \<Longrightarrow> foldl (server_add_job env) s calls = s"
  by (induction calls) (simp_all add: server_add_job_def)

lemma kept_trans: "kept s s1 \<Longrightarrow> kept s1 s2 \<Longrightarrow> kept s s2"
  by (simp add: kept_def)

lemma apply_from_rep:
  assumes rep: "store_rep (sv_store s) es" and f: "follows_leader s" and m: "machine_ok env f"
    and c: "\<forall>e \<in> set es. e_flags e \<in> commands"
    and i: "st_ss_index (sv_store s) < i" "i + k \<le> Suc (st_last_index (sv_store s))"
  shows "\<exists>rc s'. apply_from env s i k = Some (rc, s') \<and> kept s s' \<and>
    (rc = RS_OK \<longrightarrow> sv_state s' = apply_all f i (take k (drop (i - st_ss_index (sv_store s) - 1) es)) (sv_state s))"
  using rep f i
proof (induction k arbitrary: s i)
  case 0
  then show ?case by (simp add: kept_def)
next
  case (Suc k)
  let ?ss = "st_ss_index (sv_store s)" and ?p = "i - st_ss_index (sv_store s) - 1"
  have p: "?p < length es" using Suc.prems by (simp add: store_rep_def)
  have "log_at ?ss es i = Some (es ! ?p)"
    using Suc.prems(1,3,4) by (auto simp: log_at_def store_rep_def)
  then obtain b where b: "store_get_entry (sv_store s) i = Some b" "decode_entry b = es ! ?p"
    using store_get_rep [OF Suc.prems(1), of i] by auto
  have "entry_flags b = e_flags (decode_entry b)" by (simp add: decode_entry_def)
  then have fl: "entry_flags b \<in> commands" using c b(2) nth_mem [OF p] by simp
  obtain sess calls where a: "sm_apply env i b (sv_state s) = Some (RS_OK, sess, calls, f i (es ! ?p) (sv_state s))"
    "names_session b sess" using m b(2) fl unfolding machine_ok_def by metis
  let ?s1 = "s\<lparr>sv_state := f i (es ! ?p) (sv_state s)\<rparr>"
  have f1: "follows_leader ?s1" "foldl (server_add_job env) ?s1 calls = ?s1"
    using Suc.prems(2) by (simp_all add: follows_leader_def add_jobs_follower)
  obtain rc s2 where 2: "server_on_applied_entry env ?s1 b sess = Some (rc, s2)" "kept ?s1 s2" "sv_state s2 = sv_state ?s1"
    using applied_follower [OF f1(1) fl a(2), of env] by blast
  have k2: "kept s s2" using 2(2) by (simp add: kept_def)
  have step: "apply_from env s i (Suc k) = (if rc = RS_OK then apply_from env s2 (Suc i) k else Some (rc, s2))"
    using b(1) a(1) f1(2) 2(1) by (simp add: ok_bind_def)
  show ?case
  proof (cases "rc = RS_OK")
    case False
    then show ?thesis using step k2 by simp
  next
    case True
    have st2: "sv_store s2 = sv_store s" "follows_leader s2"
      using k2 Suc.prems(2) by (simp_all add: kept_def follows_leader_def)
    have "\<exists>rc s'. apply_from env s2 (Suc i) k = Some (rc, s') \<and> kept s2 s' \<and>
        (rc = RS_OK \<longrightarrow> sv_state s' = apply_all f (Suc i) (take k (drop (Suc i - st_ss_index (sv_store s2) - 1) es)) (sv_state s2))"
      using Suc.prems st2 by (intro Suc.IH) simp_all
    then obtain rc' s' where 3: "apply_from env s2 (Suc i) k = Some (rc', s')" "kept s2 s'"
        "rc' = RS_OK \<longrightarrow> sv_state s' = apply_all f (Suc i) (take k (drop (Suc i - ?ss - 1) es)) (sv_state s2)"
      using st2(1) by auto
    have "drop ?p es = es ! ?p # drop (Suc i - ?ss - 1) es"
      using p Suc.prems(3) by (simp add: Cons_nth_drop_Suc Suc_diff_Suc [symmetric])
    then show ?thesis using step True 3 kept_trans [OF k2 3(2)] 2(3) by auto
  qed
qed

lemma update_commit_rep:
  fixes commit :: nat
  assumes rep: "store_rep (sv_store s) es" and f: "follows_leader s" and m: "machine_ok env f"
    and c: "\<forall>e \<in> set es. e_flags e \<in> commands" and ok: "\<forall>n. ev_ok env n"
    and i: "st_ss_index (sv_store s) \<le> sv_commit s" "sv_commit s \<le> st_last_index (sv_store s)"
  defines "n \<equiv> max (sv_commit s) (min commit (st_last_index (sv_store s)))"
  shows "\<exists>rc s'. server_update_commit env s commit = Some (rc, s') \<and> sv_store s' = sv_store s \<and> follows_leader s' \<and>
    (rc = RS_OK \<longrightarrow> sv_commit s' = n \<and>
       sv_state s' = apply_all f (sv_commit s + 1)
         (take (n - sv_commit s) (drop (sv_commit s - st_ss_index (sv_store s)) es)) (sv_state s))"
proof -
  let ?r = "if commit > sv_commit s
        then let m = min commit (st_last_index (sv_store s))
          in ok_bind (apply_from env s (sv_commit s + 1) (m - sv_commit s))
               (\<lambda>s. Some (RS_OK, s\<lparr>sv_commit := m, sv_last_quorum := sv_ts s\<rparr>))
        else Some (RS_OK, s)"
  have "\<exists>rc s'. ?r = Some (rc, s') \<and> sv_store s' = sv_store s \<and> follows_leader s' \<and>
    (rc = RS_OK \<longrightarrow> sv_commit s' = n \<and>
       sv_state s' = apply_all f (sv_commit s + 1)
         (take (n - sv_commit s) (drop (sv_commit s - st_ss_index (sv_store s)) es)) (sv_state s))"
  proof (cases "commit > sv_commit s")
    case False
    then show ?thesis using f i by (simp add: n_def)
  next
    case True
    then have n: "min commit (st_last_index (sv_store s)) = n" "sv_commit s \<le> n" "n \<le> st_last_index (sv_store s)"
      using i by (auto simp: n_def)
    obtain rc s' where a: "apply_from env s (sv_commit s + 1) (n - sv_commit s) = Some (rc, s')" "kept s s'"
        "rc = RS_OK \<longrightarrow> sv_state s' = apply_all f (sv_commit s + 1)
           (take (n - sv_commit s) (drop (sv_commit s + 1 - st_ss_index (sv_store s) - 1) es)) (sv_state s)"
      using apply_from_rep [OF rep f m c, of "sv_commit s + 1" "n - sv_commit s"] i n by auto
    have "?r = Some (rc, if rc = RS_OK then s'\<lparr>sv_commit := n, sv_last_quorum := sv_ts s'\<rparr> else s')"
      using True a(1) n(1) by (simp add: ok_bind_def)
    then show ?thesis using a(2,3) f by (auto simp: kept_def follows_leader_def)
  qed
  then obtain rc s' where r: "?r = Some (rc, s')" "sv_store s' = sv_store s" "follows_leader s'"
    "rc = RS_OK \<longrightarrow> sv_commit s' = n \<and>
       sv_state s' = apply_all f (sv_commit s + 1)
         (take (n - sv_commit s) (drop (sv_commit s - st_ss_index (sv_store s)) es)) (sv_state s)"
    by blast
  show ?thesis
    unfolding server_update_commit_def r(1) using r(2-4) ok
    by (cases "rc = RS_OK") (auto simp: ok_bind_def ask_def tick_def follows_leader_def)
qed

section \<open>The handler of append requests\<close>

lemma node_send_core: "core (node_send s i f) = core s"
  by (simp add: node_send_def core_def set_node_def split: prod.splits)

lemmas [simp] = core_eqs [OF node_send_core]

lemma set_in_ts_frame [simp]:
  "core (set_in_ts s i) = core s" "sv_meta (set_in_ts s i) = sv_meta s" "sv_leader (set_in_ts s i) = sv_leader s"
  by (simp_all add: set_in_ts_def set_node_def core_def)

lemmas [simp] = core_eqs [OF set_in_ts_frame(1)]

text \<open>Whether a request passes the consistency check on a log after the index \<open>ss\<close>.\<close>

definition consistent :: "nat \<Rightarrow> u64 \<Rightarrow> entry list \<Rightarrow> nat \<Rightarrow> u64 \<Rightarrow> bool" where
  "consistent ss t es p pt \<longleftrightarrow> p \<le> ss + length es \<and>
     pt = (case log_at ss es p of None \<Rightarrow> t | Some e \<Rightarrow> e_term e)"

lemma append_req_steps:
  fixes s :: "'st server" and lc :: u64
  assumes l: "log_of s ss t es" and fs: "\<forall>e \<in> set fs. sendable e \<and> e_flags e \<in> commands"
    and es: "\<forall>e \<in> set es. e_flags e \<in> commands"
    and p: "ss \<le> unat p" "ss + length es + length fs + 1 < 2 ^ 64"
    and c: "ss \<le> sv_commit s" "sv_commit s \<le> ss + length (raft_merge (unat p - ss) es fs)"
    and m: "machine_ok env f" "\<forall>n. ev_ok env n"
    and acc: "m_term (sv_meta s) \<le> term" "consistent ss t es (unat p) pt"
  defines "es' \<equiv> raft_merge (unat p - ss) es fs"
  defines "n \<equiv> max (sv_commit s) (min (unat lc) (ss + length es'))"
  shows "\<exists>rc s'. server_on_append_req env s i term p pt lc r (log_bytes fs) = Some (rc, s') \<and>
    (rc = RS_OK \<longrightarrow> store_rep (sv_store s') es' \<and> sv_commit s' = n \<and>
       sv_state s' = apply_all f (sv_commit s + 1) (take (n - sv_commit s) (drop (sv_commit s - ss) es')) (sv_state s))"
proof -
  define s1 where "s1 = set_in_ts (if term > m_term (sv_meta s) \<or> m_term (sv_meta s) = term \<and> sv_leader s = None
                    then server_become_follower s (Some i) term else s) i"
  have s1: "core s1 = core s" by (simp add: s1_def become_follower_core)
  note s1' = core_eqs [OF s1]
  have l1: "log_of s1 ss t es" "quiet s s1" using l s1' by (simp_all add: log_of_def quiet_def)
  have st: "store_rep (sv_store s1) es" "st_ss_index (sv_store s1) = ss" "st_ss_term (sv_store s1) = t"
      "st_last_index (sv_store s1) = ss + length es"
    using l1(1) by (auto simp: log_of_def store_rep_def)
  have chk: "\<not> (unat p > st_last_index (sv_store s1) \<or> pt \<noteq> store_prev_term (sv_store s1) (unat p))"
    using acc(2) store_prev_term_rep [OF st(1), of "unat p"] st by (auto simp: consistent_def split: option.splits)
  have fs': "\<forall>e \<in> set fs. sendable e" using fs by simp
  have pl: "unat p \<le> ss + length es" using acc(2) by (simp add: consistent_def)
  obtain rc s2 where 2: "store_from env s1 (Suc (unat p)) (log_bytes fs) (length (log_bytes fs)) 0 = Some (rc, s2)"
      "quiet s1 s2" "rc = RS_OK \<longrightarrow> log_of s2 ss t (raft_merge (Suc (unat p) - ss - 1) es fs)"
    using store_from_rep [OF l1(1) fs', of "Suc (unat p)" 0 "log_bytes fs" env] p pl by auto
  have a64: "add64 (unat p) 1 = Suc (unat p)" using pl p(2) by simp
  have nl: "\<not> m_term (sv_meta s) > term" using acc(1) by simp
  have u: "server_on_append_req env s i term p pt lc r (log_bytes fs) =
      ok_bind (Some (rc, s2)) (\<lambda>s. ok_bind (server_update_commit env
          (server_become_follower s (Some i) (m_term (sv_meta s))) (unat lc))
        (\<lambda>s. Some (append_answer s i r True)))"
    unfolding server_on_append_req_def Let_def s1_def [symmetric] if_not_P [OF nl] if_not_P [OF chk]
      server_store_entries_def a64 2(1) by (rule refl)
  show ?thesis
  proof (cases "rc = RS_OK")
    case False
    then show ?thesis using u by (simp add: ok_bind_def)
  next
    case True
    let ?s3 = "server_become_follower s2 (Some i) (m_term (sv_meta s2))"
    have l2: "log_of s2 ss t es'" using 2(3) True by (simp add: es'_def)
    then have r3: "store_rep (sv_store ?s3) es'" "st_ss_index (sv_store ?s3) = ss"
        "st_last_index (sv_store ?s3) = ss + length es'"
      by (auto simp: log_of_def store_rep_def)
    have f3: "follows_leader ?s3" by (simp add: follows_leader_def)
    have q: "sv_commit ?s3 = sv_commit s" "sv_state ?s3 = sv_state s"
      using quiet_trans [OF l1(2) 2(2)] by (simp_all add: quiet_def)
    have cm: "\<forall>e \<in> set es'. e_flags e \<in> commands"
    proof -
      have "set (raft_merge k x y) \<subseteq> set x \<union> set y" for k x y
        by (induction k x y rule: raft_merge.induct) (auto dest: in_set_takeD)
      then show ?thesis using es fs unfolding es'_def by blast
    qed
    have cc: "st_ss_index (sv_store ?s3) \<le> sv_commit ?s3" "sv_commit ?s3 \<le> st_last_index (sv_store ?s3)"
      using c r3 q by (simp_all add: es'_def)
    obtain rc4 s4 where 4: "server_update_commit env ?s3 (unat lc) = Some (rc4, s4)" "sv_store s4 = sv_store ?s3"
        "rc4 = RS_OK \<longrightarrow> sv_commit s4 = n \<and> sv_state s4 =
           apply_all f (sv_commit s + 1) (take (n - sv_commit s) (drop (sv_commit s - ss) es')) (sv_state s)"
      using update_commit_rep [OF r3(1) f3 m(1) cm m(2) cc, of "unat lc"] q r3 unfolding n_def by auto
    show ?thesis
      using u True 4 r3(1) by (cases "rc4 = RS_OK") (simp_all add: ok_bind_def append_answer_def)
  qed
qed

section \<open>A server to try things on\<close>

text \<open>
  An environment in which everything succeeds but the network, and a state machine that collects the
  entries it is given; a follower that has nothing in its log.
\<close>

definition log_env :: "entry list env" where
  "log_env = \<lparr>sm_apply = (\<lambda>i b st. Some (RS_OK, Some \<lparr>se_name = [], se_id = 1, se_seq = 0, se_resp = []\<rparr>, [],
       st @ [decode_entry b])),
     sm_read = (\<lambda>cid d b st. Some (RS_OK, b, [], st)), sm_meta = (\<lambda>st. one_node), sm_term = (\<lambda>st. 1),
     ev_file = (\<lambda>n. RS_OK), ev_ok = (\<lambda>n. True), ev_send = (\<lambda>n. (0, Send_failed)), ev_recv = (\<lambda>n. Recv_again),
     ev_mmap = (\<lambda>n k. (MMAP_OK, MMAP_OK)), ev_running = (\<lambda>n. False), ev_wait = (\<lambda>n. (RS_OK, 0, 0, [])),
     ev_time = (\<lambda>n. (0, 0)), ev_rand = (\<lambda>n. Some (replicate 256 0))\<rparr>"

definition idle_server :: "'st \<Rightarrow> store \<Rightarrow> 'st server" where
  "idle_server st store =
     \<lparr>sv_name = Some [110], sv_cluster = Some [99], sv_heartbeat = 4000, sv_fsync = False, sv_meta = one_node,
      sv_store = store, sv_state = st,
      sv_ss = \<lparr>ss_index = 0, ss_term = 0, ss_latest_index = 0, ss_latest_term = 0, ss_recv_index = 0,
        ss_recv_term = 0, ss_tmp = None, ss_file = [], ss_map = [], ss_open = False\<rparr>,
      sv_node = (\<lambda>i. node_create (Some [110 + of_nat i])), sv_fresh = 3, sv_nodes = [0, 1, 2], sv_unknown = [],
      sv_connected = [1, 2], sv_leader = None, sv_own = 0,
      sv_client = (\<lambda>i. \<lparr>cl_msg_wait = False, cl_terminated = False, cl_name = None, cl_id = 0, cl_seq = 0,
        cl_commit_index = 0, cl_round_index = 0, cl_conn = conn_init, cl_msg = None\<rparr>),
      sv_cfresh = 0, sv_clients = [], sv_vclients = [], sv_term_clients = [], sv_read_reqs = [],
      sv_conn = (\<lambda>i. conn_init), sv_pending = [], sv_tmp = sc_buf_init 1024, sv_jobs = [], sv_cache = [],
      sv_ss_inprogress = False, sv_stop = False, sv_cluster_up = False, sv_full = False, sv_in_cluster = True,
      sv_voted_for = None, sv_role = SERVER_ROLE_FOLLOWER, sv_prevote_count = 0, sv_vote_count = 0, sv_vote_ts = 0,
      sv_prevote_term = 0, sv_round_prev = 0, sv_round_match = 0, sv_round = 0, sv_commit = st_ss_index store,
      sv_ts = 100000, sv_last_ts = 100000, sv_last_quorum = 0, sv_disk = None, sv_tick = 0\<rparr>"

lemma idle_log: "log_of (idle_server st (blank_store 200 10)) 10 1 []"
  using blank_store_rep [of 200 10] by (simp add: log_of_def idle_server_def)

lemma log_env_ok: "machine_ok log_env (\<lambda>i e st. st @ [e])" "\<forall>n. ev_ok log_env n"
  by (simp_all add: machine_ok_def names_session_def log_env_def)

definition log_entry :: "u64 \<Rightarrow> entry" where
  "log_entry t = \<lparr>e_term = t, e_seq = 0, e_cid = 0, e_flags = CMD_LOG, e_data = [1, 2]\<rparr>"

lemma log_entry_ok: "sendable (log_entry t)" "e_flags (log_entry t) \<in> commands" "e_term (log_entry t) = t"
  by (simp_all add: sendable_def log_entry_def entry_ok_def entry_size_def cmd_ids commands_def)

section \<open>Properties\<close>

text \<open>
  C4: A follower merges what its leader sends by the rule of Raft. For any log and any run of valid
  entries that starts right after an index of the log, and whatever attempts to grow the files bring,
  \<^verbatim>\<open>server_store_entries\<close> returns; when it succeeds, an entry that was there with the same term
  is kept, the first that was missing or had another term has cut the log, and the rest is appended.
  So the log up to the given index is untouched, from there on its terms are those of the message, and
  a message that brings nothing new changes nothing. Nothing is applied or committed.
\<close>

theorem store_entries_merges:
  assumes "log_of s ss t es" "\<forall>e \<in> set fs. sendable e"
    and "ss \<le> p" "p \<le> ss + length es" "ss + length es + length fs + 1 < 2 ^ 64"
  shows "\<exists>rc s'. server_store_entries env s (Suc p) (log_bytes fs) = Some (rc, s') \<and> quiet s s' \<and>
    (rc = RS_OK \<longrightarrow> (\<exists>es'. log_of s' ss t es' \<and> es' = raft_merge (p - ss) es fs \<and>
       take (p - ss) es' = take (p - ss) es \<and>
       map e_term (take (length fs) (drop (p - ss) es')) = map e_term fs \<and>
       (p - ss + length fs \<le> length es \<and> map e_term (take (length fs) (drop (p - ss) es)) = map e_term fs
          \<longrightarrow> es' = es)))"
proof -
  obtain rc s' where r: "store_from env s (Suc p) (log_bytes fs) (length (log_bytes fs)) 0 = Some (rc, s')"
      "quiet s s'" "rc = RS_OK \<longrightarrow> log_of s' ss t (raft_merge (Suc p - ss - 1) es fs)"
    using store_from_rep [OF assms(1,2), of "Suc p" 0 "log_bytes fs" env] assms(3-5) by auto
  have "p - ss \<le> length es" using assms(4) by simp
  then show ?thesis
    using r raft_merge_keeps [of "p - ss" es "p - ss" fs] raft_merge_terms [of "p - ss" es fs]
      raft_merge_same [of "p - ss" fs es]
    by (auto simp: server_store_entries_def)
qed

theorem store_entries_merges_witness:
  "\<exists>rc s'. server_store_entries log_env (idle_server [] (blank_store 200 10)) 11 (log_bytes [log_entry 1, log_entry 2]) =
       Some (rc, s') \<and> (rc = RS_OK \<longrightarrow> log_of s' 10 1 [log_entry 1, log_entry 2])"
proof -
  have "\<forall>e \<in> set [log_entry 1, log_entry 2]. sendable e" by (simp add: log_entry_ok)
  from store_entries_merges [OF idle_log [of "[]"] this, of 10 log_env] show ?thesis by auto
qed





end
