(* ===== verification/Raft_Vote.thy ===== *)
theory Raft_Vote
  imports Raft_Log
begin

text \<open>
  Votes: what a server promises when it grants one, that the promise survives a restart, how an
  election starts and is won, and which index a majority of the cluster holds.
\<close>

section \<open>What sending leaves alone\<close>

definition view :: "'st server \<Rightarrow> meta \<times> cstring option \<times> server_role \<times> bool \<times> cstring option \<times> store \<times> u32 \<times> u32 \<times>
    u64 \<times> bytes option \<times> u64 \<times> u64 \<times> u64 \<times> nat list \<times> sc_buf \<times> (nat \<Rightarrow> cstring option)" where
  "view s = (sv_meta s, sv_voted_for s, sv_role s, sv_in_cluster s, sv_name s, sv_store s, sv_vote_count s,
     sv_prevote_count s, sv_prevote_term s, sv_disk s, sv_ts s, sv_vote_ts s, sv_heartbeat s, sv_nodes s, sv_tmp s,
     nd_name \<circ> sv_node s)"

lemma view_eqs:
  assumes "view s' = view s"
  shows "sv_meta s' = sv_meta s" "sv_voted_for s' = sv_voted_for s" "sv_role s' = sv_role s"
    "sv_in_cluster s' = sv_in_cluster s" "sv_name s' = sv_name s" "sv_store s' = sv_store s"
    "sv_vote_count s' = sv_vote_count s" "sv_prevote_count s' = sv_prevote_count s"
    "sv_prevote_term s' = sv_prevote_term s" "sv_disk s' = sv_disk s" "sv_ts s' = sv_ts s"
    "sv_vote_ts s' = sv_vote_ts s" "sv_heartbeat s' = sv_heartbeat s" "sv_nodes s' = sv_nodes s" "sv_tmp s' = sv_tmp s"
    "nd_name (sv_node s' i) = nd_name (sv_node s i)"
  using assms by (simp_all add: view_def) (simp add: fun_eq_iff)

text \<open>The leader is the same one, or not known any more.\<close>

definition leader_kept :: "'st server \<Rightarrow> 'st server \<Rightarrow> bool" where
  "leader_kept s s' \<longleftrightarrow> view s' = view s \<and> (sv_leader s' = sv_leader s \<or> sv_leader s' = None)"

lemma leader_kept_refl [simp]: "leader_kept s s"
  by (simp add: leader_kept_def)

lemma leader_kept_trans: "leader_kept s s1 \<Longrightarrow> leader_kept s1 s2 \<Longrightarrow> leader_kept s s2"
  by (auto simp: leader_kept_def)

lemma node_send_view [simp]: "view (node_send s i f) = view s" "sv_leader (node_send s i f) = sv_leader s"
  by (simp_all add: node_send_def view_def set_node_def fun_eq_iff split: prod.splits)

lemma node_flush_view: "view (snd (node_flush env s i)) = view s \<and> sv_leader (snd (node_flush env s i)) = sv_leader s"
  by (simp add: node_flush_def ask_def tick_def view_def set_node_def fun_eq_iff split: prod.splits)

lemma node_disconnect_name: "node_disconnect ok n cache = (n', cache') \<Longrightarrow> nd_name n' = nd_name n"
  by (auto simp: node_disconnect_def node_clear_indexes_def split: prod.splits)

lemma node_drop_view: "view (node_drop env s i) = view s \<and> sv_leader (node_drop env s i) = sv_leader s"
  by (auto simp: node_drop_def ask_def tick_def view_def set_node_def fun_eq_iff split: prod.splits
      dest: node_disconnect_name)

lemma disconnect_kept: "leader_kept s (server_on_node_disconnect env s i)"
  using node_drop_view [of env s i]
  by (auto simp: server_on_node_disconnect_def leader_kept_def Let_def) (simp add: view_def)

lemma flush_or_drop_kept: "leader_kept s (flush_or_drop env s i)"
proof -
  obtain rc s1 where f: "node_flush env s i = (rc, s1)" by (cases "node_flush env s i")
  then have "leader_kept s s1" using node_flush_view [of env s i] by (simp add: leader_kept_def)
  then show ?thesis
    using disconnect_kept [of s1 env i] leader_kept_trans by (auto simp: flush_or_drop_def f)
qed

lemma broadcast_kept: "leader_kept s (broadcast env create s)"
proof -
  have "leader_kept s (foldl (\<lambda>s i. flush_or_drop env (node_send s i create) i) s is)" for s and "is"
  proof (induction "is" arbitrary: s)
    case (Cons i "is")
    have "leader_kept s (node_send s i create)" by (simp add: leader_kept_def)
    then have "leader_kept s (flush_or_drop env (node_send s i create) i)"
      using flush_or_drop_kept leader_kept_trans by blast
    then show ?case using Cons.IH leader_kept_trans by simp blast
  qed simp
  then show ?thesis by (simp add: broadcast_def)
qed

section \<open>Writing the vote\<close>

text \<open>
  Reasoning about a sequence of calls: \<open>post Q E r\<close> says that \<open>Q\<close> holds when \<open>r\<close> succeeded and \<open>E\<close>
  when it did not.
\<close>

definition post :: "('s \<Rightarrow> bool) \<Rightarrow> ('s \<Rightarrow> bool) \<Rightarrow> rs_rc \<times> 's \<Rightarrow> bool" where
  "post Q E r \<longleftrightarrow> (case r of (rc, s) \<Rightarrow> if rc = RS_OK then Q s else E s)"

lemma post_then:
  assumes "post Q1 E r" "\<And>s. Q1 s \<Longrightarrow> post Q2 E (f s)"
  shows "post Q2 E (ok_then r f)"
  using assms by (cases r) (auto simp: post_def ok_then_def)

lemma post_file: "Q (tick s) \<Longrightarrow> E (tick s) \<Longrightarrow> post Q E (file_op env s)"
  by (simp add: post_def file_op_def ask_def)

text \<open>The bytes of the file: the name of the server, its vote, the configuration with the term.\<close>

definition vote_fields :: "'st server \<Rightarrow> field list" where
  "vote_fields s = FStr (sv_name s) # FStr (sv_voted_for s) # meta_fields (sv_meta s)"

definition vote_bytes :: "'st server \<Rightarrow> bytes" where
  "vote_bytes s = concat (map enc_field (vote_fields s))"

definition vote_ok :: "cstring option \<Rightarrow> bool" where
  "vote_ok v \<longleftrightarrow> v = None \<or> text_ok v"

lemma vote_ok_str: "vote_ok v \<Longrightarrow> str_ok v"
  using text_ok_create by (auto simp: vote_ok_def str_ok_def)

definition can_write :: "'st server \<Rightarrow> bool" where
  "can_write s \<longleftrightarrow> sc_buf_wf (sv_tmp s) \<and>
     room (sc_buf_clear (sv_tmp s)) (2 * length (vote_fields s)) (length (vote_bytes s)) \<and>
     text_ok (sv_name s) \<and> vote_ok (sv_voted_for s) \<and> meta_ok (sv_meta s)"

lemma vote_fields_ok: "can_write s \<Longrightarrow> \<forall>f \<in> set (vote_fields s). field_ok f"
  using meta_fields_ok by (auto simp: vote_fields_def can_write_def text_ok_create vote_ok_str)

lemma write_meta_post:
  assumes "can_write s"
  shows "post (\<lambda>s'. kept_all s s' \<and> sv_disk s' = Some (vote_bytes s))
    (\<lambda>s'. kept_all s s' \<and> (sv_disk s' = sv_disk s \<or> sv_disk s' = Some (vote_bytes s))) (server_write_meta env s)"
    (is "post ?Q ?E _")
proof -
  let ?A = "\<lambda>s'. kept_all s s' \<and> sv_disk s' = sv_disk s \<and> sv_tmp s' = sv_tmp s"
  let ?B = "\<lambda>s'. kept_all s s' \<and> sv_disk s' = sv_disk s \<and> sc_buf_data (sv_tmp s') = vote_bytes s"
  have c: "sc_buf_wf (sc_buf_clear (sv_tmp s))" "sc_buf_data (sc_buf_clear (sv_tmp s)) = []"
    using assms by (simp_all add: can_write_def sc_buf_clear_def sc_buf_wf_def sc_buf_data_def sc_buf_contents_def)
  have enc: "meta_encode (sv_meta s) (sc_buf_put_str (sc_buf_put_str (sc_buf_clear (sv_tmp s)) (sv_name s)) (sv_voted_for s)) =
      foldl put_field (sc_buf_clear (sv_tmp s)) (vote_fields s)"
    by (simp add: vote_fields_def meta_encode_fields)
  have "holds (foldl put_field (sc_buf_clear (sv_tmp s)) (vote_fields s)) (vote_bytes s)"
    unfolding vote_bytes_def
    using vote_fields_ok [OF assms] assms c by (intro holds_foldl) (simp_all add: can_write_def vote_bytes_def)
  then have b: "sc_buf_data (foldl put_field (sc_buf_clear (sv_tmp s)) (vote_fields s)) = vote_bytes s"
    by (simp add: holds_def)
  have t: "kept_all s s' \<Longrightarrow> kept_all s (tick s')" "sv_disk (tick s') = sv_disk s'" "sv_tmp (tick s') = sv_tmp s'" for s'
    by (simp_all add: tick_def)
  have f: "post ?B ?E (file_op env s')" if "?B s'" for s' using that t by (intro post_file) simp_all
  show ?thesis
    unfolding server_write_meta_def Let_def
  proof (rule post_then [where ?Q1.0 = ?A])
    show "post ?A ?E (file_op env s)" using t by (intro post_file) simp_all
    fix s1 assume a: "?A s1"
    let ?s = "s1\<lparr>sv_tmp := meta_encode (sv_meta s1)
      (sc_buf_put_str (sc_buf_put_str (sc_buf_clear (sv_tmp s1)) (sv_name s1)) (sv_voted_for s1))\<rparr>"
    have eq: "sv_meta s1 = sv_meta s" "sv_name s1 = sv_name s" "sv_voted_for s1 = sv_voted_for s" "sv_tmp s1 = sv_tmp s"
      using a kept_all_eqs [of s s1] by simp_all
    have b1: "?B ?s" using a b enc by (simp add: eq)
    show "post ?Q ?E (ok_then (file_op env ?s) (\<lambda>s. ok_then (file_op env s) (\<lambda>s. ok_then (file_op env s)
        (\<lambda>s. ok_then (file_op env s) (\<lambda>s. file_op env (s\<lparr>sv_disk := Some (sc_buf_data (sv_tmp s))\<rparr>))))))"
    proof (rule post_then [OF f [OF b1]], rule post_then [OF f], assumption, rule post_then [OF f], assumption,
        rule post_then [OF f], assumption)
      fix s2 assume "?B s2"
      then show "post ?Q ?E (file_op env (s2\<lparr>sv_disk := Some (sc_buf_data (sv_tmp s2))\<rparr>))"
        using t by (intro post_file) simp_all
    qed
  qed
qed

lemma parse_meta_reads:
  fixes s s0 :: "'st server"
  assumes s: "text_ok (sv_name s)" "vote_ok (sv_voted_for s)" "meta_ok (sv_meta s)"
    and d: "sv_disk s0 = Some (vote_bytes s)" "length (vote_bytes s) < 2 ^ 32"
    and t: "owned (sv_tmp s0)" "room (sc_buf_clear (sv_tmp s0)) 1 (length (vote_bytes s))"
    and ok: "\<forall>n. ev_file env n = RS_OK \<and> ev_ok env n"
  shows "\<exists>s1. server_parse_meta env s0 = Some (RS_OK, s1) \<and> sv_meta s1 = sv_meta s \<and>
    sv_name s1 = snd (sc_str_set (sv_name s0) (sv_name s)) \<and>
    sv_voted_for s1 = snd (sc_str_set (sv_voted_for s0) (sv_voted_for s))"
proof -
  let ?b0 = "sc_buf_clear (sv_tmp s0)" and ?n = "length (vote_bytes s)"
  have c: "sc_buf_wf ?b0" "sc_buf_data ?b0 = []" "rpos ?b0 = 0" "wpos ?b0 = 0" "\<not> ref ?b0" "limit ?b0 = SC_BUF_MAX"
    using t(1) by (simp_all add: owned_def sc_buf_clear_def sc_buf_wf_def sc_buf_data_def sc_buf_contents_def)
  obtain b1 where b1: "sc_buf_reserve ?b0 ?n = (True, b1)" "wpos b1 = 0" "rpos b1 = 0" "ref b1 = ref ?b0"
      "limit b1 = limit ?b0" "err b1 = 0" "sc_buf_contents b1 = sc_buf_contents ?b0" "?n \<le> cap b1" "sc_buf_wf b1"
    using reserve_room [OF room_tame [OF c(1) t(2)] t(2)] c(3,4) by auto
  have "0 < ?n" by (simp add: vote_bytes_def vote_fields_def enc_str_def split: option.splits)
  then have "cap b1 \<noteq> 0" using b1(8) by linarith
  then have o: "owned b1" using b1(4,5,9) c(5,6) by (simp add: owned_def)
  have q: "?n \<le> sc_buf_quota b1"
    using b1(2,8) sc_buf_wfD [OF b1(9)] by (simp add: sc_buf_quota_def)
  let ?b2 = "sc_buf_mark_write (b1\<lparr>mem := write_at (mem b1) (wpos b1) (vote_bytes s)\<rparr>) ?n"
  have w: "owned ?b2 \<and> err ?b2 = 0 \<and> cap ?b2 = cap b1 \<and> sc_buf_data ?b2 = sc_buf_data b1 @ vote_bytes s"
    by (rule write_in_data [OF o b1(6,3) q])
  have e1: "sc_buf_data b1 = []" using b1(2) by (simp add: sc_buf_data_def sc_buf_contents_def)
  have h: "holds ?b2 (enc_str (sv_name s) @ enc_str (sv_voted_for s) @ meta_bytes (sv_meta s))"
    using w e1 by (simp add: holds_def owned_def vote_bytes_def vote_fields_def meta_bytes_def)
  have so: "str_ok (sv_name s)" "str_ok (sv_voted_for s)" using s(1,2) text_ok_create vote_ok_str by blast+
  obtain b3 where 3: "sc_buf_get_str ?b2 = (sv_name s, b3)" "holds b3 (enc_str (sv_voted_for s) @ meta_bytes (sv_meta s))"
    using holds_str [OF h so(1)] by blast
  obtain b4 where 4: "sc_buf_get_str b3 = (sv_voted_for s, b4)" "holds b4 (meta_bytes (sv_meta s) @ [])"
    using holds_str [OF 3(2) so(2)] by auto
  obtain b5 where 5: "meta_decode (meta_init (sv_cluster s0)) b4 = Some (sv_meta s, b5)"
    using meta_decode_enc [OF s(3) 4(2), of "meta_init (sv_cluster s0)"] by (auto simp: meta_init_def)
  show ?thesis
    using ok d b1(1) 3(1) 4(1) 5
    by (simp add: server_parse_meta_def ok_bind_def file_op_def ask_def tick_def Let_def)
qed

section \<open>Granting a vote\<close>

lemma update_meta_post:
  assumes "can_write (s\<lparr>sv_meta := set_term (sv_meta s) t, sv_voted_for := snd (sc_str_set (sv_voted_for s) v)\<rparr>)"
    (is "can_write ?s")
  shows "post (\<lambda>s'. kept_all ?s s' \<and> sv_disk s' = Some (vote_bytes ?s))
    (\<lambda>s'. kept_all ?s s' \<and> (sv_disk s' = sv_disk s \<or> sv_disk s' = Some (vote_bytes ?s))) (server_update_meta env s t v)"
  using write_meta_post [OF assms, of env] by (simp add: server_update_meta_def)

lemma update_meta_kept:
  "kept_all (s\<lparr>sv_meta := set_term (sv_meta s) t, sv_voted_for := snd (sc_str_set (sv_voted_for s) v)\<rparr>)
     (snd (server_update_meta env s t v))"
  unfolding server_update_meta_def by (rule write_meta_kept)

lemma update_meta_effect:
  assumes "server_update_meta env s t v = (rc, s')"
  shows "m_term (sv_meta s') = t" "sv_voted_for s' = snd (sc_str_set (sv_voted_for s) v)" "sv_store s' = sv_store s"
    "sv_name s' = sv_name s" "sv_role s' = sv_role s" "sv_leader s' = sv_leader s"
    "m_voter (sv_meta s') = m_voter (sv_meta s)" "sv_vote_count s' = sv_vote_count s" "sv_node s' = sv_node s"
    "sv_ts s' = sv_ts s" "sv_heartbeat s' = sv_heartbeat s"
  using kept_all_eqs [OF update_meta_kept [where s = s and t = t and v = v and env = env]] assms by (simp_all add: set_term_def)

lemma reqvote_effect:
  assumes "server_on_reqvote_req env s i t li lt = (rc, s')" "rc = RS_OK"
  shows "if grants s t li
    then m_term (sv_meta s') = t \<and> sv_voted_for s' = snd (sc_str_set (sv_voted_for s) (nd_name (sv_node s i))) \<and>
      sv_store s' = sv_store s \<and> m_voter (sv_meta s') = m_voter (sv_meta s) \<and> sv_role s' = sv_role s \<and>
      sv_leader s' = sv_leader s
    else view s' = view s \<and> sv_leader s' = sv_leader s"
proof (cases "grants s t li")
  case False
  then show ?thesis using assms by (auto simp: server_on_reqvote_req_def ok_then_def Let_def)
next
  case True
  obtain rc1 s1 where u: "server_update_meta env s t (nd_name (sv_node s i)) = (rc1, s1)"
    by (cases "server_update_meta env s t (nd_name (sv_node s i))")
  note e = update_meta_effect [OF u]
  have r: "rc1 = RS_OK" "s' = node_send (s1\<lparr>sv_vote_ts := sv_ts s1\<rparr>) i
      (\<lambda>b. msg_create_reqvote_resp b t (of_nat (st_last_index (sv_store s))) True)"
    using assms True u by (auto simp: server_on_reqvote_req_def ok_then_def Let_def split: if_splits)
  have "view s' = view (s1\<lparr>sv_vote_ts := sv_ts s1\<rparr>)" "sv_leader s' = sv_leader s1" unfolding r(2) by simp_all
  then show ?thesis using view_eqs [of s' "s1\<lparr>sv_vote_ts := sv_ts s1\<rparr>"] e True by simp
qed

lemma reqvote_names:
  assumes "server_on_reqvote_req env s i t li lt = (RS_OK, s')"
  shows "nd_name (sv_node s' j) = nd_name (sv_node s j)"
proof -
  obtain rc1 s1 where u: "server_update_meta env s t (nd_name (sv_node s i)) = (rc1, s1)"
    by (cases "server_update_meta env s t (nd_name (sv_node s i))")
  have "view s' = view s \<or> view s' = view (s1\<lparr>sv_vote_ts := sv_ts s1\<rparr>)"
    using assms u by (auto simp: server_on_reqvote_req_def ok_then_def Let_def split: if_splits)
  then show ?thesis
    using view_eqs(16) [of s' s j] view_eqs(16) [of s' "s1\<lparr>sv_vote_ts := sv_ts s1\<rparr>" j] update_meta_effect(9) [OF u] by auto
qed

lemma check_prevote_passes:
  assumes "sv_prevote_count s \<ge> majority s" "sv_in_cluster s" "majority s > 1"
    and "server_update_meta env (s\<lparr>sv_vote_count := 1\<rparr>) (sv_prevote_term s) (sv_name s) = (RS_OK, s1)"
  shows "\<exists>s'. server_check_prevote_count env s = Some (RS_OK, s') \<and> leader_kept s1 s'"
proof -
  let ?c = "\<lambda>b. msg_create_reqvote_req b (m_term (sv_meta s1)) (of_nat (st_last_index (sv_store s1))) (st_last_term (sv_store s1))"
  have k: "leader_kept s1 (broadcast env ?c s1)" by (rule broadcast_kept)
  note e = update_meta_effect [OF assms(4)]
  have v: "sv_vote_count s1 = 1" "majority s1 = majority s" using e by (simp_all add: majority_def)
  have v': "sv_vote_count (broadcast env ?c s1) = 1" "majority (broadcast env ?c s1) = majority s"
    using view_eqs [of "broadcast env ?c s1" s1] k v by (simp_all add: leader_kept_def majority_def)
  have m: "sv_prevote_count s \<ge> majority (s\<lparr>sv_vote_count := x\<rparr>)" for x using assms(1) by (simp add: majority_def)
  have "server_check_prevote_count env s = Some (RS_OK, broadcast env ?c s1)"
    using assms v' by (auto simp: server_check_prevote_count_def ok_bind_def Let_def)
  then show ?thesis using k by blast
qed

lemma not_passed: "1 < m \<Longrightarrow> \<not> m \<le> (if b then 1 else 0)" for m :: u32
  using less_trans [of 0 1 m] by (auto simp: not_le)

lemma prevote_resp_effect:
  assumes r: "server_on_prevote_resp env s t ix g = Some (RS_OK, s')" and m: "majority s > 1"
  defines "n \<equiv> sv_prevote_count s + 1"
  shows "if sv_role s = SERVER_ROLE_CANDIDATE \<and> sv_prevote_term s = t \<and> g \<and> majority s \<le> n
    then m_term (sv_meta s') = t \<and>
      (sv_in_cluster s \<longrightarrow> sv_voted_for s' = snd (sc_str_set (sv_voted_for s) (sv_name s)))
    else sv_meta s' = sv_meta s \<and> sv_voted_for s' = sv_voted_for s"
proof (cases "sv_role s = SERVER_ROLE_CANDIDATE \<and> sv_prevote_term s = t \<and> g \<and> majority s \<le> n")
  case True
  let ?s = "s\<lparr>sv_prevote_count := n, sv_vote_count := (if sv_in_cluster s then 1 else 0)\<rparr>"
  let ?v = "if sv_in_cluster s then sv_name s else None"
  obtain rc s1 where u: "server_update_meta env ?s t ?v = (rc, s1)" by (cases "server_update_meta env ?s t ?v")
  let ?c = "\<lambda>b. msg_create_reqvote_req b (m_term (sv_meta s1)) (of_nat (st_last_index (sv_store s1))) (st_last_term (sv_store s1))"
  let ?s2 = "broadcast env ?c s1"
  note e = update_meta_effect [OF u]
  have k: "view ?s2 = view s1" using broadcast_kept [of s1 env ?c] by (simp add: leader_kept_def)
  have v: "sv_vote_count ?s2 = (if sv_in_cluster s then 1 else 0)" "majority ?s2 = majority s"
    using view_eqs(1,7) [OF k] e by (simp_all add: majority_def)
  have c: "\<not> majority ?s2 \<le> sv_vote_count ?s2" unfolding v using not_passed [OF m] by simp
  have q: "majority (s\<lparr>sv_prevote_count := n\<rparr>) = majority s" by (simp add: majority_def)
  have "s' = ?s2"
    using r True u c q
    by (cases "sv_in_cluster s"; cases "rc = RS_OK")
      (simp_all add: server_on_prevote_resp_def server_check_prevote_count_def n_def ok_bind_def Let_def)
  then show ?thesis using True view_eqs(1,2) [OF k] e by simp
next
  case False
  have q: "majority (s\<lparr>sv_prevote_count := n\<rparr>) = majority s" by (simp add: majority_def)
  have "s' = s \<or> s' = s\<lparr>sv_prevote_count := n\<rparr>"
  proof (cases "sv_role s = SERVER_ROLE_CANDIDATE \<and> sv_prevote_term s = t \<and> g")
    case True
    then have "\<not> majority (s\<lparr>sv_prevote_count := n\<rparr>) \<le> n" using False q by simp
    then have "server_check_prevote_count env (s\<lparr>sv_prevote_count := n\<rparr>) = Some (RS_OK, s\<lparr>sv_prevote_count := n\<rparr>)"
      by (simp add: server_check_prevote_count_def)
    then show ?thesis using r True by (simp add: server_on_prevote_resp_def n_def)
  qed (use r in \<open>auto simp: server_on_prevote_resp_def split: if_splits\<close>)
  then show ?thesis unfolding if_not_P [OF False] by auto
qed

lemma election_timeout_effect:
  assumes r: "server_on_election_timeout env s = Some (RS_OK, s')" and m: "majority s > 1"
  shows "m_term (sv_meta s') = m_term (sv_meta s) \<and> sv_voted_for s' = sv_voted_for s"
proof -
  define s0 where "s0 = s\<lparr>sv_role := SERVER_ROLE_CANDIDATE, sv_prevote_count := (if sv_in_cluster s then 1 else 0),
    sv_prevote_term := m_term (sv_meta s) + 1\<rparr>"
  define s1 where "s1 = broadcast env (\<lambda>b. msg_create_prevote_req b (m_term (sv_meta s0) + 1)
    (of_nat (st_last_index (sv_store s0))) (st_last_term (sv_store s0))) s0"
  have k: "view s1 = view s0" using broadcast_kept [of s0 env] by (simp add: leader_kept_def s1_def)
  note e = view_eqs [OF k]
  have v: "sv_prevote_count s1 = (if sv_in_cluster s then 1 else 0)" "majority s1 = majority s"
    using e(1,8) by (simp_all add: majority_def s0_def)
  have "\<not> majority s1 \<le> sv_prevote_count s1" unfolding v using not_passed [OF m] by simp
  then have c: "server_check_prevote_count env s1 = Some (RS_OK, s1)"
    by (simp add: server_check_prevote_count_def)
  have s1: "sv_meta s1 = sv_meta s" "sv_voted_for s1 = sv_voted_for s" using e(1,2) by (simp_all add: s0_def)
  show ?thesis
    using r s1 unfolding server_on_election_timeout_def Let_def s0_def [symmetric] s1_def [symmetric] c
    by (simp split: if_splits) auto
qed

text \<open>
  The votes of a member of a cluster of more than one voter, as the list of the terms in which it
  granted one: to a candidate that asks, or to itself when its pre-vote passes, while elections time
  out, others ask for a pre-vote, and a leader of the same or a later term makes it a follower. The
  pre-vote that passes is for a later term than the current one.
\<close>

definition passes :: "'st server \<Rightarrow> u64 \<Rightarrow> bool \<Rightarrow> bool" where
  "passes s t granted \<longleftrightarrow> sv_role s = SERVER_ROLE_CANDIDATE \<and> sv_prevote_term s = t \<and> granted \<and>
     majority s \<le> sv_prevote_count s + 1"

inductive voting :: "'st env \<Rightarrow> 'st server \<Rightarrow> u64 list \<Rightarrow> 'st server \<Rightarrow> bool" where
  start: "voting env s [] s"
| request: "voting env s gs s1 \<Longrightarrow> text_ok (nd_name (sv_node s1 i)) \<Longrightarrow>
    server_on_reqvote_req env s1 i t li lt = (RS_OK, s2) \<Longrightarrow>
    voting env s (if grants s1 t li then gs @ [t] else gs) s2"
| candidacy: "voting env s gs s1 \<Longrightarrow> text_ok (sv_name s1) \<Longrightarrow> majority s1 > 1 \<Longrightarrow>
    (passes s1 t g \<Longrightarrow> m_term (sv_meta s1) < t) \<Longrightarrow> server_on_prevote_resp env s1 t ix g = Some (RS_OK, s2) \<Longrightarrow>
    voting env s (if passes s1 t g \<and> sv_in_cluster s1 then gs @ [t] else gs) s2"
| timeout: "voting env s gs s1 \<Longrightarrow> majority s1 > 1 \<Longrightarrow> server_on_election_timeout env s1 = Some (RS_OK, s2) \<Longrightarrow>
    voting env s gs s2"
| prevote: "voting env s gs s1 \<Longrightarrow> server_on_prevote_req s1 i t li lt = (RS_OK, s2) \<Longrightarrow> voting env s gs s2"
| follow: "voting env s gs s1 \<Longrightarrow> m_term (sv_meta s1) \<le> t \<Longrightarrow> voting env s gs (server_become_follower s1 l t)"

lemma set_vote: "text_ok v \<Longrightarrow> snd (sc_str_set old v) \<noteq> None"
  using text_ok_create [of v old] by (auto simp: text_ok_def)

text \<open>The terms of the votes are in the past, or the current one, in which the vote is taken.\<close>

definition spent :: "'st server \<Rightarrow> u64 list \<Rightarrow> bool" where
  "spent s gs \<longleftrightarrow> (\<forall>g \<in> set gs. g < m_term (sv_meta s) \<or> g = m_term (sv_meta s) \<and> sv_voted_for s \<noteq> None)"

lemma spent_mono:
  assumes "spent s gs" "m_term (sv_meta s) < m_term (sv_meta s') \<or>
    m_term (sv_meta s) = m_term (sv_meta s') \<and> (sv_voted_for s \<noteq> None \<longrightarrow> sv_voted_for s' \<noteq> None)"
  shows "spent s' gs"
  using assms by (fastforce simp: spent_def)

lemma spent_snoc:
  "\<forall>g \<in> set gs. g < t \<Longrightarrow> m_term (sv_meta s) = t \<Longrightarrow> sv_voted_for s \<noteq> None \<Longrightarrow> spent s (gs @ [t])"
  by (auto simp: spent_def)

lemma voting_invariant:
  assumes "voting env s gs s'"
  shows "sorted_wrt (<) gs \<and> spent s' gs"
  using assms
proof (induction rule: voting.induct)
  case (request env s gs s1 i t li lt s2)
  note e = reqvote_effect [OF request.hyps(3) refl]
  show ?case
  proof (cases "grants s1 t li")
    case True
    then have "m_term (sv_meta s1) \<le> t" "t = m_term (sv_meta s1) \<Longrightarrow> sv_voted_for s1 = None"
      by (auto simp: grants_def split: if_splits)
    then have g: "\<forall>g \<in> set gs. g < t" using request.IH by (fastforce simp: spent_def)
    have "spent s2 (gs @ [t])" using e True set_vote [OF request.hyps(2)] by (intro spent_snoc [OF g]) simp_all
    then show ?thesis using True g request.IH by (simp add: sorted_wrt_append)
  next
    case False
    then show ?thesis using e request.IH view_eqs(1,2) [of s2 s1] by (simp add: spent_def)
  qed
next
  case (candidacy env s gs s1 t g ix s2)
  note e = prevote_resp_effect [OF candidacy.hyps(5,3), folded passes_def]
  show ?case
  proof (cases "passes s1 t g")
    case True
    then have lt: "m_term (sv_meta s1) < t" and t2: "m_term (sv_meta s2) = t"
      using candidacy.hyps(4) e by simp_all
    then have g: "\<forall>g \<in> set gs. g < t" using candidacy.IH by (fastforce simp: spent_def)
    have "spent s2 gs" using g t2 by (simp add: spent_def)
    moreover have "spent s2 (gs @ [t])" if "sv_in_cluster s1"
      using e True that set_vote [OF candidacy.hyps(2)] by (intro spent_snoc [OF g]) simp_all
    ultimately show ?thesis using True g candidacy.IH by (simp add: sorted_wrt_append)
  next
    case False
    then show ?thesis using e candidacy.IH by (simp add: spent_def)
  qed
next
  case (timeout env s gs s1 s2)
  then show ?case using election_timeout_effect [OF timeout.hyps(3,2)] by (simp add: spent_def)
next
  case (prevote env s gs s1 i t li lt s2)
  have "view s2 = view s1" using prevote.hyps(2) by (auto simp: server_on_prevote_req_def Let_def)
  then show ?case using view_eqs(1,2) [of s2 s1] prevote.IH by (simp add: spent_def)
next
  case (follow env s gs s1 t l)
  have "spent (server_become_follower s1 l t) gs"
    using follow.hyps(2) by (intro spent_mono [OF conjunct2 [OF follow.IH]]) auto
  then show ?case using follow.IH by simp
qed (simp add: spent_def)

section \<open>The index that a majority holds\<close>

lemma filter_sorted_length: "length (filter P (rev (sort_key key xs))) = length (filter P xs)"
  by (simp add: rev_filter [symmetric] filter_sort)

lemma sorted_rev_count:
  fixes key :: "nat \<Rightarrow> nat"
  assumes "k < length xs"
  shows "Suc k \<le> length (filter (\<lambda>i. key (rev (sort_key key xs) ! k) \<le> key i) xs)"
proof -
  let ?ys = "rev (sort_key key xs)" and ?P = "\<lambda>i. key (rev (sort_key key xs) ! k) \<le> key i"
  have s: "sorted_wrt (\<lambda>x y. key y \<le> key x) ?ys"
    using sorted_sort_key [of key xs] by (simp add: sorted_wrt_rev sorted_map)
  have "?P (?ys ! j)" if "j \<le> k" for j
  proof (cases "j = k")
    case False
    then show ?thesis using sorted_wrt_nth_less [OF s, of j k] that assms by simp
  qed simp
  then have "\<forall>y \<in> set (take (Suc k) ?ys). ?P y" using assms by (auto simp: in_set_conv_nth)
  then have "filter ?P (take (Suc k) ?ys) = take (Suc k) ?ys" by (rule filter_True)
  moreover have "filter ?P ?ys = filter ?P (take (Suc k) ?ys) @ filter ?P (drop (Suc k) ?ys)"
    by (metis append_take_drop_id filter_append)
  ultimately have "Suc k \<le> length (filter ?P ?ys)" using assms by simp
  then show ?thesis unfolding filter_sorted_length .
qed

lemma filter_length_mono: "(\<And>x. x \<in> set xs \<Longrightarrow> P x \<Longrightarrow> Q x) \<Longrightarrow> length (filter P xs) \<le> length (filter Q xs)"
  by (induction xs) auto

text \<open>What a node is known to hold; this server holds all of its own log.\<close>

definition held :: "'st server \<Rightarrow> nat \<Rightarrow> nat" where
  "held s i = (if i = sv_own s \<and> sv_in_cluster s then st_last_index (sv_store s) else nd_match (sv_node s i))"

lemma commit_match_majority:
  assumes n: "unat (m_voter (sv_meta s) div 2) < length (sv_nodes s)"
    and own: "nd_match (sv_node s (sv_own s)) \<le> st_last_index (sv_store s)"
  shows "Suc (unat (m_voter (sv_meta s) div 2)) \<le>
    length (filter (\<lambda>i. fst (commit_match s) \<le> held s i) (sv_nodes s))"
proof -
  let ?ix = "unat (m_voter (sv_meta s) div 2)" and ?li = "st_last_index (sv_store s)"
  let ?s1 = "s\<lparr>sv_nodes := sort_matches s\<rparr>"
  define s2 where "s2 = set_own ?s1 (\<lambda>n. n\<lparr>nd_match := ?li\<rparr>)"
  let ?key1 = "\<lambda>i. nd_match (sv_node s i)" and ?key2 = "\<lambda>i. nd_match (sv_node s2 i)"
  have k1: "?key1 i \<le> held s i" for i using own by (simp add: held_def)
  have k2: "?key2 i \<le> held s i" if "sv_in_cluster s" for i
    using that by (simp add: s2_def set_own_def set_node_def held_def)
  have c1: "Suc ?ix \<le> length (filter (\<lambda>i. ?key1 (sort_matches s ! ?ix) \<le> ?key1 i) (sv_nodes s))"
    unfolding sort_matches_def by (rule sorted_rev_count [OF n])
  have n2: "sv_nodes s2 = sort_matches s" by (simp add: s2_def set_own_def set_node_def)
  have l2: "?ix < length (sv_nodes s2)" using n by (simp add: n2 sort_matches_def)
  have c2: "Suc ?ix \<le> length (filter (\<lambda>i. ?key2 (sort_matches s2 ! ?ix) \<le> ?key2 i) (sv_nodes s2))"
    unfolding sort_matches_def [of s2] by (rule sorted_rev_count [OF l2])
  then have c2': "Suc ?ix \<le> length (filter (\<lambda>i. ?key2 (sort_matches s2 ! ?ix) \<le> ?key2 i) (sv_nodes s))"
    unfolding n2 sort_matches_def [of s] filter_sorted_length .
  have f: "fst (commit_match s) = ?key1 (sort_matches s ! ?ix) \<or>
      sv_in_cluster s \<and> fst (commit_match s) = ?key2 (sort_matches s2 ! ?ix)"
    unfolding commit_match_def Let_def s2_def by simp
  have up: "length (filter (\<lambda>i. m \<le> key i) (sv_nodes s)) \<le> length (filter (\<lambda>i. m \<le> held s i) (sv_nodes s))"
    if "\<And>i. key i \<le> held s i" for m and key :: "nat \<Rightarrow> nat"
    using that order.trans by (intro filter_length_mono) blast
  show ?thesis
    using f
  proof
    assume a: "fst (commit_match s) = ?key1 (sort_matches s ! ?ix)"
    show ?thesis unfolding a by (rule order.trans [OF c1 up]) (rule k1)
  next
    assume a: "sv_in_cluster s \<and> fst (commit_match s) = ?key2 (sort_matches s2 ! ?ix)"
    then have e: "fst (commit_match s) = ?key2 (sort_matches s2 ! ?ix)" by simp
    show ?thesis unfolding e by (rule order.trans [OF c2' up]) (use a k2 in blast)
  qed
qed

section \<open>Writing commands\<close>

lemma page_create_quota:
  assumes "page_rep p prev es" "entry_ok e" "entry_size e \<le> page_quota p" "prev + Suc (length es) < 2 ^ 64"
  shows "page_quota (page_create p e) = page_quota p - entry_size e"
proof -
  have r: "page_rep (page_create p e) prev (es @ [e])"
    using created.rep_add [OF assms(1)] assms(2-4) by (simp add: page_fits_def)
  have "cap (p_buf (page_create p e)) = cap (p_buf p)"
    using page_repD(5) [OF r] page_repD(5) [OF assms(1)] by (simp add: page_create_def page_create_entry_def Let_def)
  then show ?thesis
    using page_quota_rep [OF r] page_quota_rep [OF assms(1)] page_rep_wpos [OF r] page_rep_wpos [OF assms(1)]
    by (simp add: length_entry_bytes)
qed

lemma st_cur_last [simp]: "st_cur (s\<lparr>st_last_index := i\<rparr>) = st_cur s" "st_cur (s\<lparr>st_last_term := t\<rparr>) = st_cur s"
  by (simp_all add: st_cur_def)

lemma store_create_fits:
  assumes rep: "store_rep s es" and ok: "entry_ok e" and q: "entry_size e \<le> page_quota (st_cur s)"
    and i: "st_ss_index s + Suc (length es) < 2 ^ 64"
  shows "\<exists>s'. store_create_entry env s (e_term e) (e_seq e) (e_cid e) (e_flags e) (e_data e) = Some (RS_OK, s') \<and>
    store_rep s' (es @ [e]) \<and> st_ss_index s' = st_ss_index s \<and>
    page_quota (st_cur s') = page_quota (st_cur s) - entry_size e"
proof -
  have l: "entry_encoded_len (length (e_data e)) = entry_size e"
    using ok by (simp add: entry_encoded_len_def entry_ok_def entry_size_def ENTRY_HEADER_SIZE_def)
  let ?s = "(st_set_cur s (page_create (st_cur s) e))\<lparr>st_last_index := add64 (st_last_index s) 1, st_last_term := e_term e\<rparr>"
  have c: "store_create_entry env s (e_term e) (e_seq e) (e_cid e) (e_flags e) (e_data e) = Some (RS_OK, ?s)"
    using store_retry_fits [OF q, of False env] l by (simp add: store_create_entry_def page_create_def)
  have r: "store_rep ?s (es @ [e])" "st_ss_index ?s = st_ss_index s"
    using store_create_rep [OF rep ok i, of env] c by auto
  obtain es0 es1 where es: "es = es0 @ es1" "store_pages s es0 es1" using rep by (rule store_repE)
  obtain prev fs where p: "page_rep (st_cur s) prev fs" "st_curr s \<Longrightarrow> prev = st_ss_index s + length es0 \<and> fs = es1"
      "\<not> st_curr s \<Longrightarrow> prev = st_ss_index s \<and> fs = es0"
    using store_cur_rep [OF es(2)] by blast
  have "prev + Suc (length fs) < 2 ^ 64" using p(2,3) i es(1) by (cases "st_curr s") simp_all
  then have "page_quota (page_create (st_cur s) e) = page_quota (st_cur s) - entry_size e"
    using page_create_quota [OF p(1) ok q] by simp
  then have "page_quota (st_cur ?s) = page_quota (st_cur s) - entry_size e"
    by simp
  then show ?thesis using c r by blast
qed

text \<open>Encoding into the scratch buffer, which is cleared first, with room for more later.\<close>

lemma scratch_encode:
  assumes "\<forall>f \<in> set fs. field_ok f" "sc_buf_wf b"
    and "room (sc_buf_clear b) (2 * length fs + k) (length (concat (map enc_field fs)) + n)"
  defines "b' \<equiv> foldl put_field (sc_buf_clear b) fs"
  shows "sc_buf_data b' = concat (map enc_field fs)" "sc_buf_wf b'" "room (sc_buf_clear b') k n"
proof -
  have c: "sc_buf_wf (sc_buf_clear b)" "sc_buf_contents (sc_buf_clear b) = []" "rpos (sc_buf_clear b) = 0"
    using assms(2) by (simp_all add: sc_buf_clear_def sc_buf_wf_def sc_buf_contents_def)
  have t: "tame (sc_buf_clear b) (2 * length fs + k) (length (concat (map enc_field fs)) + n)"
    by (rule room_tame [OF c(1) assms(3)])
  have e: "tame b' k n" "rpos b' = 0" "room b' k n"
      "err b' = 0 \<Longrightarrow> sc_buf_contents b' = concat (map enc_field fs)"
    using field.emits_foldl [OF assms(1), unfolded emits_def, rule_format, OF t] assms(3) c
    by (simp_all add: b'_def)
  have "err b' = 0" using e(3) by (simp add: room_def)
  then show "sc_buf_data b' = concat (map enc_field fs)" using e by (simp add: sc_buf_data_def)
  show "sc_buf_wf b'" using e(1) by (simp add: tame_def)
  show "room (sc_buf_clear b') k n" using e(3) by (auto simp: room_def sc_buf_clear_def)
qed

text \<open>What writing an entry changes: the log, the scratch buffer, and when a timestamp was last written.\<close>

definition unwritten :: "'st server \<Rightarrow> 'st server" where
  "unwritten s = s\<lparr>sv_tick := 0, sv_tmp := zero_buf, sv_store := blank_store 0 0, sv_last_ts := 0\<rparr>"

definition wrote :: "'st server \<Rightarrow> 'st server \<Rightarrow> bool" where
  "wrote s s' \<longleftrightarrow> unwritten s' = unwritten s"

lemma unwritten_upd [simp]:
  "unwritten (s\<lparr>sv_tick := n\<rparr>) = unwritten s" "unwritten (s\<lparr>sv_tmp := b\<rparr>) = unwritten s"
  "unwritten (s\<lparr>sv_store := st\<rparr>) = unwritten s" "unwritten (s\<lparr>sv_last_ts := t\<rparr>) = unwritten s"
  by (simp_all add: unwritten_def)

lemma wrote_eqs:
  assumes "wrote s s'"
  shows "sv_meta s' = sv_meta s" "sv_role s' = sv_role s" "sv_leader s' = sv_leader s" "sv_name s' = sv_name s"
    "sv_ts s' = sv_ts s" "sv_own s' = sv_own s" "sv_voted_for s' = sv_voted_for s" "sv_commit s' = sv_commit s"
proof -
  have e: "unwritten s' = unwritten s" using assms by (simp add: wrote_def)
  show "sv_meta s' = sv_meta s" "sv_role s' = sv_role s" "sv_leader s' = sv_leader s" "sv_name s' = sv_name s"
    "sv_ts s' = sv_ts s" "sv_own s' = sv_own s" "sv_voted_for s' = sv_voted_for s" "sv_commit s' = sv_commit s"
    using arg_cong [OF e, of sv_meta] arg_cong [OF e, of sv_role] arg_cong [OF e, of sv_leader]
      arg_cong [OF e, of sv_name] arg_cong [OF e, of sv_ts] arg_cong [OF e, of sv_own]
      arg_cong [OF e, of sv_voted_for] arg_cong [OF e, of sv_commit]
    by (simp_all add: unwritten_def)
qed

text \<open>An entry with the current term.\<close>

definition own_entry :: "'st server \<Rightarrow> u64 \<Rightarrow> u64 \<Rightarrow> u32 \<Rightarrow> bytes \<Rightarrow> entry" where
  "own_entry s seq cid flags d =
     \<lparr>e_term = m_term (sv_meta s), e_seq = seq, e_cid = cid, e_flags = flags, e_data = d\<rparr>"

text \<open>A timestamp takes 52 bytes of the log and 16 bytes of the scratch buffer.\<close>

definition can_append :: "'st server \<Rightarrow> entry list \<Rightarrow> nat \<Rightarrow> nat \<Rightarrow> nat \<Rightarrow> bool" where
  "can_append s es q k n \<longleftrightarrow> store_rep (sv_store s) es \<and> q \<le> page_quota (st_cur (sv_store s)) \<and>
     st_ss_index (sv_store s) + length es + q < 2 ^ 64 \<and> sc_buf_wf (sv_tmp s) \<and> room (sc_buf_clear (sv_tmp s)) k n"

lemma create_entry_no_ts:
  assumes c: "can_append s es (36 + length d + q) k n" and ok: "36 + length d < 2 ^ 32"
    and ts: "sv_ts s - sv_last_ts s \<le> 3"
  shows "\<exists>s'. server_create_entry env s force seq cid flags d = Some (RS_OK, s') \<and> wrote s s' \<and>
    can_append s' (es @ [own_entry s seq cid flags d]) q k n \<and> sv_last_ts s' = sv_last_ts s"
proof -
  let ?e = "own_entry s seq cid flags d"
  have e: "entry_ok ?e" "entry_size ?e = 36 + length d" using ok by (simp_all add: own_entry_def entry_ok_def entry_size_def)
  have c': "store_rep (sv_store s) es" "entry_size ?e \<le> page_quota (st_cur (sv_store s))"
      "st_ss_index (sv_store s) + Suc (length es) < 2 ^ 64"
    using c e(2) by (simp_all add: can_append_def)
  obtain st where st: "store_create_entry (ev_mmap env (sv_tick s)) (sv_store s) (m_term (sv_meta s)) seq cid flags d = Some (RS_OK, st)"
      "store_rep st (es @ [?e])" "st_ss_index st = st_ss_index (sv_store s)"
      "page_quota (st_cur st) = page_quota (st_cur (sv_store s)) - entry_size ?e"
    using store_create_fits [OF c'(1) e(1) c'(2,3), of "ev_mmap env (sv_tick s)"] by (auto simp: own_entry_def)
  have "server_create_entry env s force seq cid flags d = Some (RS_OK, s\<lparr>sv_store := st, sv_tick := Suc (sv_tick s)\<rparr>)"
    using st(1) ts by (subst server_create_entry.simps) (simp add: tick_def not_less [symmetric])
  moreover have "can_append (s\<lparr>sv_store := st, sv_tick := Suc (sv_tick s)\<rparr>) (es @ [?e]) q k n"
    using c st(2-4) e(2) by (auto simp: can_append_def)
  ultimately show ?thesis by (auto simp: wrote_def)
qed

lemma create_entry_fits:
  assumes c: "can_append s es (36 + length d + (52 + q)) (4 + k) (16 + n)" and ok: "36 + length d < 2 ^ 32"
  shows "\<exists>s' ts. server_create_entry env s force seq cid flags d = Some (RS_OK, s') \<and> wrote s s' \<and>
    can_append s' (es @ own_entry s seq cid flags d # ts) q k n \<and> (\<forall>e \<in> set ts. e_term e = m_term (sv_meta s))"
proof (cases "sv_ts s - sv_last_ts s \<le> 3")
  case True
  obtain s' where "server_create_entry env s force seq cid flags d = Some (RS_OK, s')" "wrote s s'"
    "can_append s' (es @ [own_entry s seq cid flags d]) (52 + q) (4 + k) (16 + n)" "sv_last_ts s' = sv_last_ts s"
    using create_entry_no_ts [OF c ok True, of env force seq cid flags] by blast
  moreover from this(3) have "can_append s' (es @ [own_entry s seq cid flags d]) q k n"
    by (auto simp: can_append_def room_def)
  ultimately show ?thesis by (intro exI [of _ s'] exI [of _ "[]"]) simp
next
  case False
  let ?e = "own_entry s seq cid flags d"
  have e: "entry_ok ?e" "entry_size ?e = 36 + length d" using ok by (simp_all add: own_entry_def entry_ok_def entry_size_def)
  have c': "store_rep (sv_store s) es" "entry_size ?e \<le> page_quota (st_cur (sv_store s))"
      "st_ss_index (sv_store s) + Suc (length es) < 2 ^ 64"
    using c e(2) by (simp_all add: can_append_def)
  obtain st where st: "store_create_entry (ev_mmap env (sv_tick s)) (sv_store s) (m_term (sv_meta s)) seq cid flags d = Some (RS_OK, st)"
      "store_rep st (es @ [?e])" "st_ss_index st = st_ss_index (sv_store s)"
      "page_quota (st_cur st) = page_quota (st_cur (sv_store s)) - entry_size ?e"
    using store_create_fits [OF c'(1) e(1) c'(2,3), of "ev_mmap env (sv_tick s)"] by (auto simp: own_entry_def)
  obtain real mono where t: "ev_time env (Suc (sv_tick s)) = (real, mono)" by (cases "ev_time env (Suc (sv_tick s))")
  let ?b = "cmd_encode_timestamp (sc_buf_clear (sv_tmp s)) real mono"
  let ?s1 = "s\<lparr>sv_store := st, sv_tick := Suc (Suc (sv_tick s)), sv_last_ts := sv_ts s, sv_tmp := ?b\<rparr>"
  have f: "?b = foldl put_field (sc_buf_clear (sv_tmp s)) [F64 real, F64 mono]" by (simp add: cmd_encode_timestamp_def)
  have b: "sc_buf_data ?b = le64 real @ le64 mono" "sc_buf_wf ?b" "room (sc_buf_clear ?b) k n"
    using scratch_encode [of "[F64 real, F64 mono]" "sv_tmp s" k n] c unfolding f by (simp_all add: can_append_def)
  have u: "server_create_entry env s force seq cid flags d =
      Option.bind (server_create_entry env ?s1 True 0 0 CMD_TIMESTAMP (sc_buf_data ?b)) (\<lambda>(_, s). Some (RS_OK, s))"
    using st(1) False t by (subst server_create_entry.simps) (simp add: tick_def ask_def not_le)
  have c1: "can_append ?s1 (es @ [?e]) (36 + length (sc_buf_data ?b) + q) k n"
    using c st(2-4) e(2) b by (auto simp: can_append_def)
  obtain s' where s': "server_create_entry env ?s1 True 0 0 CMD_TIMESTAMP (sc_buf_data ?b) = Some (RS_OK, s')" "wrote ?s1 s'"
      "can_append s' ((es @ [?e]) @ [own_entry ?s1 0 0 CMD_TIMESTAMP (sc_buf_data ?b)]) q k n" "sv_last_ts s' = sv_last_ts ?s1"
    using create_entry_no_ts [OF c1, of env True 0 0 CMD_TIMESTAMP] b(1) by auto
  have "wrote s s'" using s'(2) by (simp add: wrote_def)
  moreover have "e_term (own_entry ?s1 0 0 CMD_TIMESTAMP (sc_buf_data ?b)) = m_term (sv_meta s)"
    by (simp add: own_entry_def)
  ultimately show ?thesis using u s'(1,3) by (intro exI [of _ s'] exI) auto
qed

lemma command_fits:
  assumes fs: "\<forall>f \<in> set fs. field_ok f" and enc: "\<And>b. enc b = foldl put_field b fs"
    and l: "36 + length (concat (map enc_field fs)) < 2 ^ 32"
    and c: "can_append s es (36 + length (concat (map enc_field fs)) + (52 + q)) (2 * length fs + (4 + k))
      (length (concat (map enc_field fs)) + (16 + n))"
  shows "\<exists>s' ts. server_command env s flags enc = Some (RS_OK, s') \<and> wrote s s' \<and>
    can_append s' (es @ own_entry s 0 0 flags (concat (map enc_field fs)) # ts) q k n \<and>
    (\<forall>e \<in> set ts. e_term e = m_term (sv_meta s))"
proof -
  let ?d = "concat (map enc_field fs)" and ?b = "enc (sc_buf_clear (sv_tmp s))"
  have "room (sc_buf_clear (sv_tmp s)) (2 * length fs + (4 + k)) (length ?d + (16 + n))" "sc_buf_wf (sv_tmp s)"
    using c by (simp_all add: can_append_def)
  note b = scratch_encode [OF fs this(2,1), folded enc]
  let ?s = "s\<lparr>sv_tmp := ?b\<rparr>"
  have "can_append ?s es (36 + length ?d + (52 + q)) (4 + k) (16 + n)"
    using c b(2,3) by (simp add: can_append_def)
  from create_entry_fits [OF this l, of env True 0 0 flags] show ?thesis
    by (auto simp: server_command_def b(1) wrote_def own_entry_def)
qed

lemma set_index_meta:
  "meta_ok (set_index m i) = meta_ok m" "length (meta_fields (set_index m i)) = length (meta_fields m)"
  "length (meta_bytes (set_index m i)) = length (meta_bytes m)" "m_term (set_index m i) = m_term m"
  by (cases m; simp add: set_index_def meta_bytes_def split: option.split)+

lemma set_leader_term: "m_term (meta_set_leader m nm) = m_term m"
  by (simp add: meta_set_leader_def meta_update_def Let_def)

section \<open>Becoming the leader\<close>

lemma clear_nodes_frame:
  "can_append (foldl clear_node s is) es q k n = can_append s es q k n"
  "sv_meta (foldl clear_node s is) = sv_meta s" "sv_name (foldl clear_node s is) = sv_name s"
  "sv_role (foldl clear_node s is) = sv_role s" "sv_leader (foldl clear_node s is) = sv_leader s"
  "sv_store (foldl clear_node s is) = sv_store s" "sv_own (foldl clear_node s is) = sv_own s"
  by (rule foldl_keeps, simp add: clear_node_def set_node_def can_append_def)+

text \<open>
  The bytes that the entries of a new leader take in the log, and the writes and bytes that they take in
  the scratch buffer: an initial entry if the log is empty, the configuration, and the start of the
  term, each followed by a timestamp.
\<close>

definition can_lead :: "'st server \<Rightarrow> entry list \<Rightarrow> bool" where
  "can_lead s es \<longleftrightarrow>
     (let m = meta_set_leader (sv_meta s) (sv_name s)
      in meta_ok m \<and> 36 + length (meta_bytes m) < 2 ^ 32 \<and>
         can_append s es (552 + length (meta_bytes m)) (22 + 2 * length (meta_fields m)) (336 + length (meta_bytes m)))"

definition leads :: "'st server \<Rightarrow> 'st server \<Rightarrow> entry list \<Rightarrow> bool" where
  "leads s s' es \<longleftrightarrow> sv_role s' = SERVER_ROLE_LEADER \<and> sv_leader s' = Some (sv_own s) \<and>
     m_term (sv_meta s') = m_term (sv_meta s) \<and>
     (\<exists>new. store_rep (sv_store s') (es @ new) \<and> (\<forall>e \<in> set new. e_term e = m_term (sv_meta s)) \<and>
        CMD_META \<in> e_flags ` set new \<and> CMD_TERM \<in> e_flags ` set new)"

lemma can_append_mono:
  "can_append s es q k n \<Longrightarrow> q' \<le> q \<Longrightarrow> k' \<le> k \<Longrightarrow> n' \<le> n \<Longrightarrow> can_append s es q' k' n'"
  by (auto simp: can_append_def room_def)

text \<open>One of the commands, at the current term.\<close>

lemma command_appends:
  assumes fs: "\<forall>f \<in> set fs. field_ok f" and enc: "\<And>b. enc b = foldl put_field b fs"
    and l: "36 + length (concat (map enc_field fs)) < 2 ^ 32"
    and c: "can_append s es (36 + length (concat (map enc_field fs)) + (52 + q)) (2 * length fs + (4 + k))
      (length (concat (map enc_field fs)) + (16 + n))"
  shows "\<exists>s' new. server_command env s flags enc = Some (RS_OK, s') \<and> wrote s s' \<and> can_append s' (es @ new) q k n \<and>
    (\<forall>e \<in> set new. e_term e = m_term (sv_meta s)) \<and> flags \<in> e_flags ` set new"
proof -
  obtain s' ts where "server_command env s flags enc = Some (RS_OK, s')" "wrote s s'"
    "can_append s' (es @ own_entry s 0 0 flags (concat (map enc_field fs)) # ts) q k n"
    "\<forall>e \<in> set ts. e_term e = m_term (sv_meta s)"
    using command_fits [OF fs enc l c, of env flags] by blast
  then show ?thesis by (intro exI conjI) (assumption+, auto simp: own_entry_def)
qed

lemma become_leader_leads:
  assumes c: "can_lead s es" and r: "\<forall>n. \<exists>r. ev_rand env n = Some r \<and> length r = 256"
  shows "\<exists>s'. server_become_leader env s = Some (RS_OK, s') \<and> leads s s' es"
proof -
  define m where "m = meta_set_leader (sv_meta s) (sv_name s)"
  let ?lm = "length (meta_bytes m)" and ?lf = "length (meta_fields m)" and ?t = "m_term (sv_meta s)"
  define s1 where "s1 = foldl clear_node (foldl clear_node (s\<lparr>sv_role := SERVER_ROLE_LEADER, sv_leader := Some (sv_own s)\<rparr>)
      (sv_nodes s)) (sv_unknown s)"
  have un: "sv_unknown (foldl clear_node x is) = sv_unknown x" for x :: "'a server" and "is"
    by (rule foldl_keeps) (simp add: clear_node_def set_node_def)
  have m: "meta_ok m" "36 + ?lm < 2 ^ 32" "can_append s es (552 + ?lm) (22 + 2 * ?lf) (336 + ?lm)"
    using c by (simp_all add: can_lead_def m_def Let_def)
  have s1: "can_append s1 es (552 + ?lm) (22 + 2 * ?lf) (336 + ?lm)" "sv_meta s1 = sv_meta s" "sv_name s1 = sv_name s"
      "sv_role s1 = SERVER_ROLE_LEADER" "sv_leader s1 = Some (sv_own s)"
    using m(3) unfolding s1_def clear_nodes_frame by (simp_all add: can_append_def)
  obtain s2 n2 where 2: "(if st_last_index (sv_store s1) = 0 then server_write_init_cmd env s1 else Some (RS_OK, s1)) = Some (RS_OK, s2)"
      "wrote s1 s2" "can_append s2 (es @ n2) (36 + ?lm + (52 + 104)) (2 * ?lf + (4 + 8)) (?lm + (16 + 32))"
      "\<forall>e \<in> set n2. e_term e = ?t"
  proof (cases "st_last_index (sv_store s1) = 0")
    case True
    obtain rnd where rnd: "ev_rand env (sv_tick s1) = Some rnd" "length rnd = 256" using r by blast
    obtain real mono where t: "ev_time env (Suc (sv_tick s1)) = (real, mono)" by (cases "ev_time env (Suc (sv_tick s1))")
    let ?fs = "[F64 real, F64 mono, FRaw rnd]" and ?s = "s1\<lparr>sv_tick := Suc (Suc (sv_tick s1))\<rparr>"
    have "can_append ?s es (36 + length (concat (map enc_field ?fs)) + (52 + (192 + ?lm)))
        (2 * length ?fs + (4 + (12 + 2 * ?lf))) (length (concat (map enc_field ?fs)) + (16 + (48 + ?lm)))"
      using s1(1) rnd(2) by (simp add: can_append_def)
    from command_appends [OF _ _ _ this, of "\<lambda>b. cmd_encode_init b real mono rnd" env CMD_INIT]
    obtain s' new where n: "server_command env ?s CMD_INIT (\<lambda>b. cmd_encode_init b real mono rnd) = Some (RS_OK, s')"
        "wrote ?s s'" "can_append s' (es @ new) (192 + ?lm) (12 + 2 * ?lf) (48 + ?lm)"
        "\<forall>e \<in> set new. e_term e = m_term (sv_meta ?s)"
      using rnd(2) by (auto simp: cmd_encode_init_def)
    show thesis
    proof (rule that [of s' new])
      show "(if st_last_index (sv_store s1) = 0 then server_write_init_cmd env s1 else Some (RS_OK, s1)) = Some (RS_OK, s')"
        using True rnd(1) t n(1) by (simp add: server_write_init_cmd_def ask_def tick_def)
      show "wrote s1 s'" using n(2) by (simp add: wrote_def)
      show "can_append s' (es @ new) (36 + ?lm + (52 + 104)) (2 * ?lf + (4 + 8)) (?lm + (16 + 32))"
        using n(3) by (rule can_append_mono) simp_all
      show "\<forall>e \<in> set new. e_term e = ?t" using n(4) s1(2) by simp
    qed
  next
    case False
    show thesis
    proof (rule that [of s1 "[]"])
      show "can_append s1 (es @ []) (36 + ?lm + (52 + 104)) (2 * ?lf + (4 + 8)) (?lm + (16 + 32))"
        using can_append_mono [OF s1(1)] by simp
    qed (use False in \<open>simp_all add: wrote_def\<close>)
  qed
  note w2 = wrote_eqs [OF 2(2)]
  define m' where "m' = set_index (meta_set_leader (sv_meta s2) (sv_name s2)) (of_nat (add64 (st_last_index (sv_store s2)) 1))"
  have m': "m' = set_index m (of_nat (add64 (st_last_index (sv_store s2)) 1))" using w2 s1 by (simp add: m'_def m_def)
  let ?s2 = "s2\<lparr>sv_meta := m'\<rparr>"
  have tm: "m_term m' = ?t" by (simp add: m' set_index_meta m_def set_leader_term)
  have "can_append ?s2 (es @ n2) (36 + length (meta_bytes m') + (52 + 104)) (2 * length (meta_fields m') + (4 + 8))
      (length (meta_bytes m') + (16 + 32))"
    using 2(3) by (simp add: can_append_def m' set_index_meta)
  then obtain s3 n3 where 3: "server_command env ?s2 CMD_META (\<lambda>b. cmd_encode_meta b m') = Some (RS_OK, s3)" "wrote ?s2 s3"
      "can_append s3 ((es @ n2) @ n3) 104 8 32" "\<forall>e \<in> set n3. e_term e = ?t" "CMD_META \<in> e_flags ` set n3"
    using command_appends [of "meta_fields m'" "\<lambda>b. cmd_encode_meta b m'" ?s2 "es @ n2" 104 8 32 env CMD_META]
      meta_fields_ok [of m'] m(1,2) tm
    by (auto simp: cmd_encode_meta_def meta_encode_fields meta_bytes_def [symmetric] m' set_index_meta)
  have u3: "server_write_meta_cmd env s2 = Some (RS_OK, s3)"
    using 3(1) by (simp add: server_write_meta_cmd_def m'_def Let_def)
  note w3 = wrote_eqs [OF 3(2)]
  obtain real mono where t: "ev_time env (sv_tick s3) = (real, mono)" by (cases "ev_time env (sv_tick s3)")
  let ?fs = "[F64 real, F64 mono]" and ?s3 = "s3\<lparr>sv_tick := Suc (sv_tick s3)\<rparr>"
  have "can_append ?s3 ((es @ n2) @ n3) (36 + length (concat (map enc_field ?fs)) + (52 + 0))
      (2 * length ?fs + (4 + 0)) (length (concat (map enc_field ?fs)) + (16 + 0))"
    using 3(3) by (simp add: can_append_def)
  from command_appends [OF _ _ _ this, of "\<lambda>b. cmd_encode_term b real mono" env CMD_TERM]
  obtain s4 n4 where 4: "server_command env ?s3 CMD_TERM (\<lambda>b. cmd_encode_term b real mono) = Some (RS_OK, s4)"
      "wrote ?s3 s4" "can_append s4 (((es @ n2) @ n3) @ n4) 0 0 0" "\<forall>e \<in> set n4. e_term e = ?t"
      "CMD_TERM \<in> e_flags ` set n4"
    using w3(1) tm by (auto simp: cmd_encode_term_def)
  have u4: "server_write_term_start_cmd env s3 = Some (RS_OK, s4)"
    using 4(1) t by (simp add: server_write_term_start_cmd_def ask_def tick_def)
  note w4 = wrote_eqs [OF 4(2)]
  have "server_become_leader env s = Some (RS_OK, s4)"
    using 2(1) u3 u4 unfolding server_become_leader_def Let_def
    by (cases "st_last_index (sv_store s1) = 0") (simp_all add: un s1_def [symmetric] ok_bind_def)
  moreover have "leads s s4 es"
    using w2 w3 w4 s1 tm 4(3-5) 3(4,5) 2(4) unfolding leads_def
    by (intro conjI exI [of _ "n2 @ n3 @ n4"]) (auto simp: can_append_def)
  ultimately show ?thesis by blast
qed

section \<open>Collecting votes\<close>

text \<open>A number of responses that grant the vote.\<close>

primrec vote_responses :: "'st env \<Rightarrow> 'st server \<Rightarrow> u64 \<Rightarrow> nat \<Rightarrow> (rs_rc \<times> 'st server) option" where
  "vote_responses env s t 0 = Some (RS_OK, s)"
| "vote_responses env s t (Suc k) =
     ok_bind (server_on_reqvote_resp env s t 0 True) (\<lambda>s. vote_responses env s t k)"

lemma can_lead_count [simp]: "can_lead (s\<lparr>sv_vote_count := n\<rparr>) es = can_lead s es"
  by (simp add: can_lead_def can_append_def Let_def)

lemma majority_count [simp]: "majority (s\<lparr>sv_vote_count := n\<rparr>) = majority s"
  by (simp add: majority_def)

lemma u32_bound: "unat (x :: u32) < 4294967296"
  using unsigned_less [where 'a = nat, of x] by simp

lemma votes_lead:
  assumes "sv_role s = SERVER_ROLE_CANDIDATE" "m_term (sv_meta s) = t" "can_lead s es"
    and "\<forall>n. \<exists>r. ev_rand env n = Some r \<and> length r = 256"
    and "unat (sv_vote_count s) + Suc k = unat (majority s)"
  shows "\<exists>s'. vote_responses env s t (Suc k) = Some (RS_OK, s') \<and> leads s s' es"
  using assms
proof (induction k arbitrary: s)
  case 0
  let ?s = "s\<lparr>sv_vote_count := sv_vote_count s + 1\<rparr>"
  have "unat (sv_vote_count s + 1) = unat (majority s)"
    using 0(5) u32_bound [of "majority s"] by (simp add: unat_word_ariths)
  then have m: "majority ?s \<le> sv_vote_count ?s" by (simp add: word_le_nat_alt)
  have "can_lead ?s es" using 0(3) by simp
  then obtain s' where "server_become_leader env ?s = Some (RS_OK, s')" "leads ?s s' es"
    using become_leader_leads 0(4) by blast
  then show ?case using 0(1,2) m by (simp add: server_on_reqvote_resp_def ok_bind_def leads_def)
next
  case (Suc k)
  let ?s = "s\<lparr>sv_vote_count := sv_vote_count s + 1\<rparr>"
  have u: "unat (sv_vote_count s + 1) = Suc (unat (sv_vote_count s))"
    using Suc.prems(5) u32_bound [of "majority s"] by (simp add: unat_word_ariths)
  then have m: "\<not> majority ?s \<le> sv_vote_count ?s" using Suc.prems(5) by (simp add: word_le_nat_alt)
  have r: "server_on_reqvote_resp env s t 0 True = Some (RS_OK, ?s)"
    using Suc.prems(1,2) m by (simp add: server_on_reqvote_resp_def Let_def)
  obtain s' where s': "vote_responses env ?s t (Suc k) = Some (RS_OK, s')" "leads ?s s' es"
    using Suc.IH [of ?s] Suc.prems u by auto
  have "vote_responses env s t (Suc (Suc k)) = vote_responses env ?s t (Suc k)"
    by (subst vote_responses.simps) (simp add: r ok_bind_def)
  then show ?case using s' by (simp add: leads_def)
qed

section \<open>Requests when the files can be written\<close>

lemma write_meta_ok:
  assumes "\<forall>n. ev_file env n = RS_OK"
  shows "fst (server_write_meta env s) = RS_OK"
proof -
  have f: "file_op env s = (RS_OK, tick s)" for s :: "'a server" using assms by (simp add: file_op_def ask_def)
  show ?thesis by (simp add: server_write_meta_def f ok_then_def Let_def)
qed

lemma reqvote_ok:
  assumes "\<forall>n. ev_file env n = RS_OK"
  obtains s' where "server_on_reqvote_req env s i t li lt = (RS_OK, s')"
proof -
  have "fst (server_update_meta env s t v) = RS_OK" for v
    unfolding server_update_meta_def by (rule write_meta_ok [OF assms])
  then have "fst (server_on_reqvote_req env s i t li lt) = RS_OK"
    by (auto simp: server_on_reqvote_req_def ok_then_def Let_def split: prod.splits) (metis fst_conv)+
  then show thesis using that by (cases "server_on_reqvote_req env s i t li lt") auto
qed

section \<open>Properties\<close>


lemma idle_name: "text_ok (nd_name (sv_node (idle_server st store) 1))"
  by (simp add: idle_server_def node_create_def sc_str_create_def sc_str_create_len_def text_ok_def SC_STR_MAX_def)


text \<open>The server after it voted.\<close>

definition voted :: "'st server \<Rightarrow> u64 \<Rightarrow> cstring option \<Rightarrow> 'st server" where
  "voted s t v = s\<lparr>sv_meta := set_term (sv_meta s) t, sv_voted_for := v\<rparr>"

text \<open>
  C5: A vote is on disk before it is answered, and survives a restart. When a request is granted and the
  handler succeeds, the file that is then on disk makes a server that starts from it read back the term
  of the vote and the name of the candidate.
\<close>

theorem vote_survives_restart:
  fixes s s' s0 :: "'st server"
  assumes "server_on_reqvote_req env s i t li lt = (RS_OK, s')" "grants s t li" "text_ok (nd_name (sv_node s i))"
    and w: "can_write (voted s t (nd_name (sv_node s i)))"
    and d: "sv_disk s0 = sv_disk s'" "length (vote_bytes (voted s t (nd_name (sv_node s i)))) < 2 ^ 32"
    and "owned (sv_tmp s0)" "room (sc_buf_clear (sv_tmp s0)) 1 (length (vote_bytes (voted s t (nd_name (sv_node s i)))))"
    and "\<forall>n. ev_file env' n = RS_OK \<and> ev_ok env' n"
  shows "\<exists>s1. server_parse_meta env' s0 = Some (RS_OK, s1) \<and> m_term (sv_meta s1) = t \<and>
    sv_voted_for s1 = nd_name (sv_node s i)"
proof -
  let ?n = "nd_name (sv_node s i)" and ?s = "voted s t (nd_name (sv_node s i))"
  have set: "snd (sc_str_set old ?n) = ?n" for old using text_ok_create [OF assms(3)] by simp
  obtain rc1 s1 where u: "server_update_meta env s t ?n = (rc1, s1)" by (cases "server_update_meta env s t ?n")
  have r: "rc1 = RS_OK" "s' = node_send (s1\<lparr>sv_vote_ts := sv_ts s1\<rparr>) i
      (\<lambda>b. msg_create_reqvote_resp b t (of_nat (st_last_index (sv_store s))) True)"
    using assms(1,2) u by (auto simp: server_on_reqvote_req_def ok_then_def Let_def split: if_splits)
  have "view s' = view (s1\<lparr>sv_vote_ts := sv_ts s1\<rparr>)" unfolding r(2) by simp
  then have "sv_disk s' = sv_disk s1" using view_eqs(10) [of s' "s1\<lparr>sv_vote_ts := sv_ts s1\<rparr>"] by simp
  moreover have "sv_disk s1 = Some (vote_bytes ?s)"
    using update_meta_post [where s = s and t = t and v = ?n and env = env] w u r(1) by (simp add: set post_def voted_def)
  ultimately have ds: "sv_disk s0 = Some (vote_bytes ?s)" using d(1) by simp
  have ok: "text_ok (sv_name ?s)" "vote_ok (sv_voted_for ?s)" "meta_ok (sv_meta ?s)" using w by (simp_all add: can_write_def)
  obtain s2 where "server_parse_meta env' s0 = Some (RS_OK, s2)" "sv_meta s2 = sv_meta ?s"
      "sv_voted_for s2 = snd (sc_str_set (sv_voted_for s0) (sv_voted_for ?s))"
    using parse_meta_reads [OF ok ds d(2) assms(7-9)] by blast
  then show ?thesis by (simp add: set set_term_def voted_def)
qed

lemma log_files: "\<forall>n. ev_file log_env n = RS_OK"
  by (simp add: log_env_def)

lemma scratch_buf:
  "owned (sc_buf_init 1024)" "sc_buf_wf (sc_buf_init 1024)" "n \<le> 1024 \<Longrightarrow> room (sc_buf_clear (sc_buf_init 1024)) k n"
  by (simp_all add: owned_def room_def sc_buf_init_def sc_buf_wrap_def sc_buf_clear_def sc_buf_wf_def SC_BUF_MAX_def)

lemma idle_writes:
  fixes st :: 'st
  defines "s \<equiv> voted (idle_server st (blank_store 200 10)) 5 (nd_name (sv_node (idle_server st (blank_store 200 10)) 1))"
  shows "can_write s" "length (vote_bytes s) < 1024"
proof -
  have b: "length (vote_bytes s) < 1024"
    by (simp add: s_def voted_def vote_bytes_def vote_fields_def idle_server_def one_node_def set_term_def node_fields_def
        node_create_def sc_str_create_def sc_str_create_len_def SC_STR_MAX_def enc_str_def enc_bool_def uri_n_def)
  then show "length (vote_bytes s) < 1024" .
  have "meta_ok (sv_meta s)" using one_node_ok by (simp add: s_def voted_def idle_server_def set_term_def one_node_def)
  moreover have "text_ok (sv_voted_for s)" "text_ok (sv_name s)"
    using idle_name [of st "blank_store 200 10"] by (simp_all add: s_def voted_def) (simp add: idle_server_def text_ok_def SC_STR_MAX_def)
  moreover have t: "sv_tmp s = sc_buf_init 1024" by (simp add: s_def voted_def idle_server_def)
  ultimately show "can_write s"
    using b unfolding can_write_def t
    by (simp add: vote_ok_def scratch_buf)
qed

theorem vote_survives_restart_witness:
  "\<exists>s' s1. server_on_reqvote_req log_env (idle_server [] (blank_store 200 10)) 1 5 10 1 = (RS_OK, s') \<and>
     server_parse_meta log_env (idle_server [] (blank_store 200 10)\<lparr>sv_disk := sv_disk s'\<rparr>) = Some (RS_OK, s1) \<and>
     m_term (sv_meta s1) = 5 \<and> sv_voted_for s1 = Some [111]"
proof -
  let ?s = "idle_server [] (blank_store 200 10) :: entry list server"
  have f: "\<forall>n. ev_file log_env n = RS_OK" "\<forall>n. ev_file log_env n = RS_OK \<and> ev_ok log_env n" by (simp_all add: log_env_def)
  obtain s' where 1: "server_on_reqvote_req log_env ?s 1 5 10 1 = (RS_OK, s')" by (rule reqvote_ok [OF f(1)])
  have g: "grants ?s 5 10" by (simp add: grants_def leader_alive_def idle_server_def one_node_def blank_store_def)
  have t: "sv_tmp (?s\<lparr>sv_disk := sv_disk s'\<rparr>) = sc_buf_init 1024" by (simp add: idle_server_def)
  have o: "owned (sv_tmp (?s\<lparr>sv_disk := sv_disk s'\<rparr>))"
      "room (sc_buf_clear (sv_tmp (?s\<lparr>sv_disk := sv_disk s'\<rparr>))) 1 (length (vote_bytes (voted ?s 5 (nd_name (sv_node ?s 1)))))"
    using idle_writes(2) [where st = "[] :: entry list"] unfolding t
    by (simp_all add: scratch_buf)
  have n: "nd_name (sv_node ?s 1) = Some [111]"
    by (simp add: idle_server_def node_create_def sc_str_create_def sc_str_create_len_def SC_STR_MAX_def)
  have l: "length (vote_bytes (voted ?s 5 (nd_name (sv_node ?s 1)))) < 2 ^ 32"
    using idle_writes(2) [where st = "[] :: entry list"] by simp
  show ?thesis
    using vote_survives_restart [OF 1 g idle_name idle_writes(1) _ l o f(2)] 1 unfolding n by auto
qed

text \<open>
  C6: A candidate that gets the missing votes becomes the leader: as many granting responses in its
  term as are needed for a majority make it write the entries of a new leader - with its configuration
  and the start of its term - to the end of its log, all in its term, and know itself as the leader. It
  takes that the log and the scratch buffer have room for these entries and that the random source
  answers.
\<close>

theorem votes_make_leader:
  assumes "sv_role s = SERVER_ROLE_CANDIDATE" "m_term (sv_meta s) = t" "can_lead s es"
    and "\<forall>n. \<exists>r. ev_rand env n = Some r \<and> length r = 256"
    and "unat (sv_vote_count s) + Suc k = unat (majority s)"
  shows "\<exists>s' new. vote_responses env s t (Suc k) = Some (RS_OK, s') \<and> sv_role s' = SERVER_ROLE_LEADER \<and>
    sv_leader s' = Some (sv_own s) \<and> m_term (sv_meta s') = t \<and> store_rep (sv_store s') (es @ new) \<and>
    (\<forall>e \<in> set new. e_term e = t) \<and> CMD_META \<in> e_flags ` set new \<and> CMD_TERM \<in> e_flags ` set new"
  using votes_lead [OF assms] assms(2) unfolding leads_def by blast

definition campaign :: "entry list server" where
  "campaign = (idle_server [] (blank_store 4096 10))\<lparr>sv_role := SERVER_ROLE_CANDIDATE\<rparr>"

lemma campaign_leads: "can_lead campaign []"
proof -
  have m: "sv_meta campaign = one_node" "sv_name campaign = Some [110]" "sv_tmp campaign = sc_buf_init 1024"
      "sv_store campaign = blank_store 4096 10"
    by (simp_all add: campaign_def idle_server_def)
  have "meta_set_leader one_node (Some [110]) = meta_update one_node"
    by (simp add: meta_set_leader_def one_node_def Let_def)
  also have "\<dots> = one_node"
    using one_node_valid meta_ok_iff [of one_node] meta_update_eq [of one_node]
    by (simp add: valid_config_def) (simp add: one_node_def nodes_text_def leader_first_def node_text_def uri_n_def)
  finally have l: "meta_set_leader one_node (Some [110]) = one_node" .
  have b: "length (meta_bytes one_node) < 500"
    by (simp add: meta_bytes_def one_node_def node_fields_def enc_str_def enc_bool_def uri_n_def)
  have q: "page_quota (st_cur (blank_store 4096 10)) = 4024"
    using page_quota_rep [OF blank_page_rep(1)] page_rep_wpos [OF blank_page_rep(1)] blank_page_rep(2)
    by (simp add: blank_store_def st_cur_def)
  have "st_ss_index (blank_store 4096 10) = 10" by (simp add: blank_store_def)
  then show ?thesis
    using one_node_ok blank_store_rep [of 4096 10] b unfolding can_lead_def m l Let_def can_append_def q
    by (simp add: scratch_buf)
qed

theorem votes_make_leader_witness:
  "\<exists>s' new. vote_responses log_env campaign 3 1 = Some (RS_OK, s') \<and> sv_role s' = SERVER_ROLE_LEADER \<and>
     store_rep (sv_store s') new \<and> CMD_META \<in> e_flags ` set new"
proof -
  have c: "sv_role campaign = SERVER_ROLE_CANDIDATE" "m_term (sv_meta campaign) = 3"
      "unat (sv_vote_count campaign) + Suc 0 = unat (majority campaign)"
    by (simp_all add: campaign_def idle_server_def one_node_def majority_def)
  have r: "\<forall>n. \<exists>r. ev_rand log_env n = Some r \<and> length r = 256" by (simp add: log_env_def)
  show ?thesis using votes_make_leader [OF c(1,2) campaign_leads r c(3)] by auto
qed

text \<open>
  C8: A pre-vote that passes late takes the term back. A candidate keeps its pre-vote when it grants a
  vote in a later term; if the majority of the pre-vote comes in after that, the server goes back to
  the earlier term and votes for itself in it, and it grants a second vote in the later term to
  whoever asks for it. So the condition of the property on votes above, that a pre-vote that passes is
  for a later term, is needed, and the code does not check it.
\<close>

theorem stale_prevote_votes_again:
  assumes p: "passes s t g" "t < m_term (sv_meta s)" "majority s > 1"
    and r: "server_on_prevote_resp env s t ix g = Some (RS_OK, s')"
    and q: "\<not> leader_alive s'" "st_last_index (sv_store s') \<le> unat li"
  shows "m_term (sv_meta s') = t \<and> grants s' (m_term (sv_meta s)) li"
proof -
  have "m_term (sv_meta s') = t"
    using prevote_resp_effect [OF r p(3)] p(1) by (simp add: passes_def)
  then show ?thesis using p(2) q by (auto simp: grants_def)
qed

definition late_candidate :: "entry list server" where
  "late_candidate = (idle_server [] (blank_store 200 10))\<lparr>sv_role := SERVER_ROLE_CANDIDATE, sv_prevote_term := 2,
     sv_prevote_count := 1, sv_meta := Meta (m_name one_node) (m_uris one_node) 3 7 3 (m_nodes one_node) None\<rparr>"

theorem stale_prevote_votes_again_witness:
  "\<exists>s'. server_on_prevote_resp log_env late_candidate 2 0 True = Some (RS_OK, s') \<and>
     m_term (sv_meta late_candidate) = 3 \<and> m_term (sv_meta s') = 2 \<and> grants s' 3 10"
proof -
  let ?s = "late_candidate\<lparr>sv_prevote_count := 2\<rparr>"
  have p: "passes late_candidate 2 True" "m_term (sv_meta late_candidate) = 3" "majority late_candidate > 1"
      "majority ?s \<le> sv_prevote_count ?s" "sv_in_cluster ?s" "majority ?s > 1"
    by (simp_all add: passes_def late_candidate_def idle_server_def majority_def)
  obtain s1 where u: "server_update_meta log_env (?s\<lparr>sv_vote_count := 1\<rparr>) (sv_prevote_term ?s) (sv_name ?s) = (RS_OK, s1)"
    using write_meta_ok [of log_env] unfolding server_update_meta_def by (metis log_files prod.collapse)
  obtain s' where s': "server_check_prevote_count log_env ?s = Some (RS_OK, s')" "leader_kept s1 s'"
    using check_prevote_passes [OF p(4-6) u] by blast
  have r: "server_on_prevote_resp log_env late_candidate 2 0 True = Some (RS_OK, s')"
    using s'(1) by (simp add: server_on_prevote_resp_def late_candidate_def idle_server_def)
  have l: "sv_leader s' = None" "sv_store s' = blank_store 200 10"
    using s'(2) view_eqs(6) [of s' s1] update_meta_effect(3,6) [OF u]
    by (auto simp: leader_kept_def late_candidate_def idle_server_def)
  have q: "\<not> leader_alive s'" "st_last_index (sv_store s') \<le> unat (10 :: u64)"
    using l by (simp_all add: leader_alive_def blank_store_def)
  show ?thesis
    using stale_prevote_votes_again [OF p(1) _ p(3) r q] r p(2) by auto
qed

end
