(* ===== verification/Raft_Commit.thy ===== *)
theory Raft_Commit
  imports Raft_Vote
begin

text \<open>
  How far the log is committed: the leader commits what a majority of the cluster holds, and answers
  a read when it has heard from a majority since.
\<close>

section \<open>What appending leaves alone\<close>

definition steady :: "'st server \<Rightarrow> nat \<times> u64 \<times> server_role \<times> bool \<times> nat list \<times> nat option \<times> cstring option \<times> nat \<times> (nat \<Rightarrow> node) \<times>
    meta" where
  "steady s = (sv_commit s, sv_round_match s, sv_role s, sv_in_cluster s, sv_nodes s, sv_leader s, sv_voted_for s,
     sv_own s, sv_node s, sv_meta s)"

lemma steady_upd [simp]:
  "steady (s\<lparr>sv_store := st\<rparr>) = steady s" "steady (s\<lparr>sv_tmp := b\<rparr>) = steady s" "steady (s\<lparr>sv_last_ts := t\<rparr>) = steady s"
  "steady (s\<lparr>sv_tick := n\<rparr>) = steady s" "steady (s\<lparr>sv_ss := ss\<rparr>) = steady s" "steady (s\<lparr>sv_ss_inprogress := b'\<rparr>) = steady s"
  "steady (s\<lparr>sv_cache := ca\<rparr>) = steady s" "steady (s\<lparr>sv_read_reqs := rr\<rparr>) = steady s" "steady (s\<lparr>sv_client := cl\<rparr>) = steady s"
  "steady (s\<lparr>sv_clients := cs\<rparr>) = steady s" "steady (s\<lparr>sv_vclients := vs\<rparr>) = steady s" "steady (s\<lparr>sv_term_clients := ts\<rparr>) = steady s"
  "steady (s\<lparr>sv_jobs := js\<rparr>) = steady s" "steady (s\<lparr>sv_state := sm\<rparr>) = steady s" "steady (tick s) = steady s"
  by (simp_all add: steady_def tick_def)

lemma steady_ask: "ask q s = (a, s') \<Longrightarrow> steady s' = steady s"
  by (auto simp: ask_def)

lemma wait_snapshot_steady: "server_wait_snapshot env s = (rc, s') \<Longrightarrow> steady s' = steady s"
  by (auto simp: server_wait_snapshot_def ask_def Let_def split: if_splits prod.splits)

lemma wait_snapshot_steady' [simp]: "steady (snd (server_wait_snapshot env s)) = steady s"
  using wait_snapshot_steady [OF prod.collapse [symmetric]] .

lemma create_entry_steady:
  assumes "server_create_entry env s force seq cid flags data = Some r"
  shows "steady (snd r) = steady s"
proof (rule server_create_entry.raw_induct [where P = "\<lambda>env s force seq cid flags data r. steady (snd r) = steady s", OF _ assms],
    goal_cases)
  case (1 f env s force seq cid flags data r)
  show ?case
    using 1(2)
    by (auto simp: Let_def bind_eq_Some_conv dest!: 1(1) steady_ask wait_snapshot_steady steady_ask [OF sym] wait_snapshot_steady [OF sym] split: if_splits prod.splits)
qed

lemma steady_eqs:
  assumes "steady s' = steady s"
  shows "sv_commit s' = sv_commit s" "sv_round_match s' = sv_round_match s" "sv_role s' = sv_role s"
    "sv_nodes s' = sv_nodes s" "sv_node s' = sv_node s" "sv_meta s' = sv_meta s"
  using assms by (simp_all add: steady_def)

lemma command_steady: "server_command env s flags enc = Some r \<Longrightarrow> steady (snd r) = steady s"
  by (auto simp: server_command_def Let_def dest!: create_entry_steady)

section \<open>Answering clients\<close>

lemma client_ops_steady [simp]:
  "steady (set_client s i c) = steady s" "steady (drop_client s i) = steady s" "steady (client_send s i put) = steady s"
  "steady (snd (client_flush env s i)) = steady s" "steady (snd (client_done env s i)) = steady s"
  "steady (server_add_job env s j) = steady s"
  by (simp_all add: set_client_def drop_client_def client_send_def client_flush_def client_done_def server_add_job_def
      ask_def Let_def split: prod.splits)

lemma client_disconnect_steady: "server_on_client_disconnect env s i m = Some r \<Longrightarrow> steady (snd r) = steady s"
  by (auto simp: server_on_client_disconnect_def Let_def dest!: command_steady split: if_splits)

text \<open>The answer to one client, however it ends.\<close>

lemma or_disconnect_steady:
  assumes "or_disconnect env i r f = Some r'" "steady (snd r) = steady s" "\<And>s1. steady s1 = steady s \<Longrightarrow> f s1 = Some r' \<Longrightarrow> steady (snd r') = steady s"
  shows "steady (snd r') = steady s"
proof (cases r)
  case (Pair rc s1)
  then show ?thesis
    using assms client_disconnect_steady [of env s1 i MSG_ERR r'] by (cases "rc = RS_OK") (simp_all add: or_disconnect_def)
qed

lemma answer_steady:
  assumes "or_disconnect env i (p s) (\<lambda>s. or_disconnect env i (q s) g) = Some r"
    and "\<And>s. steady (snd (p s)) = steady s" "\<And>s. steady (snd (q s)) = steady s"
    and "\<And>s r. g s = Some r \<Longrightarrow> steady (snd r) = steady s"
  shows "steady (snd r) = steady s"
proof (rule or_disconnect_steady [OF assms(1,2)])
  fix s1 assume 1: "steady s1 = steady s" "or_disconnect env i (q s1) g = Some r"
  have "steady (snd r) = steady s1"
  proof (rule or_disconnect_steady [OF 1(2) assms(3)])
    fix s2 assume "steady s2 = steady s1" "g s2 = Some r"
    then show "steady (snd r) = steady s1" using assms(4) [of s2 r] by simp
  qed
  then show "steady (snd r) = steady s" using 1(1) by simp
qed

lemmas flush_done_steady = answer_steady [where p = "\<lambda>s. client_flush env s i" and q = "\<lambda>s. client_done env s i" for env i]
lemmas done_flush_steady = answer_steady [where p = "\<lambda>s. client_done env s i" and q = "\<lambda>s. client_flush env s i" for env i]

lemma connect_applied_steady:
  assumes "server_on_client_connect_applied env s sess = Some r"
  shows "steady (snd r) = steady s"
proof (cases "sv_role s \<noteq> SERVER_ROLE_LEADER")
  case True
  then show ?thesis using assms by (auto simp: server_on_client_connect_applied_def)
next
  case False
  note e = assms [unfolded server_on_client_connect_applied_def Let_def if_not_P [OF False]]
  show ?thesis
  proof (cases "map_of (sv_clients s) (se_name sess)")
    case None
    then show ?thesis using e by auto
  next
    case (Some i)
    then show ?thesis using flush_done_steady [OF e [unfolded Some option.case]] by auto
  qed
qed

lemma client_req_steady:
  assumes "server_on_applied_client_req env s cid resp = Some r"
  shows "steady (snd r) = steady s"
proof (cases "sv_role s \<noteq> SERVER_ROLE_LEADER")
  case True
  then show ?thesis using assms by (auto simp: server_on_applied_client_req_def)
next
  case False
  note e = assms [unfolded server_on_applied_client_req_def Let_def if_not_P [OF False]]
  show ?thesis
  proof (cases "map_of (sv_vclients s) cid")
    case None
    then show ?thesis using e by auto
  next
    case (Some i)
    then show ?thesis using flush_done_steady [OF e [unfolded Some option.case]] by auto
  qed
qed

lemma foldl_jobs_steady [simp]: "steady (foldl (server_add_job env) s js) = steady s"
  by (rule foldl_keeps) simp

lemma process_readonly_steady:
  assumes "server_process_readonly env s i = Some r"
  shows "steady (snd r) = steady s"
proof -
  obtain s1 where s1: "steady s1 = steady s"
      "or_disconnect env i (client_done env s1 i) (\<lambda>s. or_disconnect env i (client_flush env s i) (\<lambda>s. Some (RS_OK, s))) = Some r"
  proof -
    let ?c = "fst (conn_out (cl_conn (sv_client s i)) (sv_cache s))" and ?ca = "snd (conn_out (cl_conn (sv_client s i)) (sv_cache s))"
    let ?d = "case cl_msg (sv_client s i) of Some (Client_req _ _ d) \<Rightarrow> d | _ \<Rightarrow> []"
    obtain rc b calls st where m: "sm_read env (cl_id (sv_client s i)) ?d (c_out ?c) (sv_state s) = Some (rc, b, calls, st)"
    proof (cases "sm_read env (cl_id (sv_client s i)) ?d (c_out ?c) (sv_state s)")
      case None
      then show ?thesis using assms by (simp add: server_process_readonly_def Let_def case_prod_beta)
    next
      case (Some x)
      then show ?thesis using that by (cases x) simp
    qed
    let ?s1 = "foldl (server_add_job env)
      ((set_client s i ((sv_client s i)\<lparr>cl_conn := ?c\<lparr>c_out := b\<rparr>\<rparr>))\<lparr>sv_cache := ?ca, sv_state := st\<rparr>) calls"
    have e: "(if rc \<noteq> RS_OK then None else or_disconnect env i (client_done env ?s1 i)
        (\<lambda>s. or_disconnect env i (client_flush env s i) (\<lambda>s. Some (RS_OK, s)))) = Some r"
      using assms by (simp only: server_process_readonly_def Let_def case_prod_beta m bind.bind_lunit fst_conv snd_conv)
    then have "rc = RS_OK" by (auto split: if_splits)
    then show thesis using e that [of ?s1] by simp
  qed
  show ?thesis using done_flush_steady [OF s1(2)] s1(1) by auto
qed

lemma serve_reads_steady: "serve_reads env s is = Some r \<Longrightarrow> steady (snd r) = steady s"
proof (induction "is" arbitrary: s)
  case (Cons i "is")
  show ?case
  proof (cases "cl_round_index (sv_client s i) > sv_round_match s \<or> cl_commit_index (sv_client s i) > sv_commit s")
    case True
    then show ?thesis using Cons.prems by (auto simp: Let_def)
  next
    case False
    then obtain rc s1 where 1: "server_process_readonly env s i = Some (rc, s1)"
        "(if rc = RS_OK then serve_reads env s1 is else Some (rc, s1)) = Some r"
      using Cons.prems by (auto simp: ok_bind_def bind_eq_Some_conv Let_def)
    show ?thesis
      using process_readonly_steady [OF 1(1)] 1(2) Cons.IH [of s1] by (cases "rc = RS_OK") auto
  qed
qed auto

section \<open>The commit index\<close>

lemma write_meta_commit [simp]: "sv_commit (snd (server_write_meta env s)) = sv_commit s"
  using kept_all_eqs [OF write_meta_kept [of s env]] by simp

lemma on_meta_commit: "sv_commit (snd (server_on_meta env s m)) = sv_commit s"
  by (simp add: server_on_meta_def Let_def)

lemma applied_entry_commit:
  assumes a: "server_on_applied_entry env s e sess = Some r"
  shows "sv_commit (snd r) = sv_commit s"
proof -
  have t: "sv_commit (snd r) = sv_commit s" if "server_on_term_start s m = Some r" for m
    using that unfolding server_on_term_start_def by (auto split: if_splits)
  have q: "sv_commit (snd r) = sv_commit s" if "Option.bind sess (\<lambda>se. server_on_applied_client_req env s (se_id se) (se_resp se)) = Some r"
    using that steady_eqs(1) [OF client_req_steady] by (cases sess) simp_all
  have k: "sv_commit (snd r) = sv_commit s" if "Option.bind sess (server_on_client_connect_applied env s) = Some r"
    using that steady_eqs(1) [OF connect_applied_steady] by (cases sess) simp_all
  note a' = a [unfolded server_on_applied_entry_def Let_def]
  show ?thesis
  proof (cases "entry_flags e = CMD_META")
    case True
    then have "r = server_on_meta env s (sm_meta env (sv_state s))" using a' by simp
    then show ?thesis by (simp add: on_meta_commit)
  next
    case 1: False
    note b = a' [unfolded if_not_P [OF 1]]
    show ?thesis
    proof (cases "entry_flags e = CMD_TERM")
      case True
      then show ?thesis using b t by simp
    next
      case 2: False
      note c = b [unfolded if_not_P [OF 2]]
      show ?thesis
      proof (cases "entry_flags e = CMD_REQUEST")
        case True
        then show ?thesis using c q by simp
      next
        case 3: False
        note d = c [unfolded if_not_P [OF 3]]
        show ?thesis
          using d k by (cases "entry_flags e = CMD_CONNECT") (auto split: if_splits)
      qed
    qed
  qed
qed

lemma apply_from_commit: "apply_from env s i k = Some r \<Longrightarrow> sv_commit (snd r) = sv_commit s"
proof (induction k arbitrary: s i)
  case (Suc k)
  obtain e where e: "store_get_entry (sv_store s) i = Some e" using Suc.prems by (auto simp: bind_eq_Some_conv)
  obtain rc sess calls st where a: "sm_apply env i e (sv_state s) = Some (rc, sess, calls, st)"
    using Suc.prems e by (auto simp: bind_eq_Some_conv)
  let ?s = "foldl (server_add_job env) (s\<lparr>sv_state := st\<rparr>) calls"
  have c: "sv_commit ?s = sv_commit s" using steady_eqs(1) [of ?s "s\<lparr>sv_state := st\<rparr>"] by simp
  show ?case
  proof (cases "rc = RS_OK")
    case True
    then have "ok_bind (server_on_applied_entry env ?s e sess) (\<lambda>s. apply_from env s (Suc i) k) = Some r"
      using Suc.prems e a by simp
    then obtain rc1 s1 where 1: "server_on_applied_entry env ?s e sess = Some (rc1, s1)"
        "(if rc1 = RS_OK then apply_from env s1 (Suc i) k else Some (rc1, s1)) = Some r"
      by (auto simp: ok_bind_def bind_eq_Some_conv)
    have "sv_commit s1 = sv_commit s" using applied_entry_commit [OF 1(1)] c by simp
    then show ?thesis using 1(2) Suc.IH [of s1 "Suc i"] by (auto split: if_splits)
  next
    case False
    then show ?thesis using Suc.prems e a c by (auto simp: Let_def split: if_splits)
  qed
qed auto

lemma update_commit_bound:
  assumes "server_update_commit env s c = Some r"
  shows "sv_commit (snd r) = sv_commit s \<or> sv_commit s < c \<and> sv_commit (snd r) = min c (st_last_index (sv_store s))"
proof -
  let ?m = "min c (st_last_index (sv_store s))"
  let ?a = "if c > sv_commit s then let m = ?m in ok_bind (apply_from env s (sv_commit s + 1) (m - sv_commit s))
    (\<lambda>s. Some (RS_OK, s\<lparr>sv_commit := m, sv_last_quorum := sv_ts s\<rparr>)) else Some (RS_OK, s)"
  obtain rc1 s1 where 1: "?a = Some (rc1, s1)"
      "(if rc1 = RS_OK then if \<not> sv_ss_inprogress s1 \<and> sv_commit s1 \<ge> store_ss_index (sv_store s1)
         then let (ok, s) = ask (ev_ok env) (s1\<lparr>sv_ss_inprogress := True\<rparr>) in if ok then Some (RS_OK, s) else None
         else Some (RS_OK, s1) else Some (rc1, s1)) = Some r"
    using assms unfolding server_update_commit_def ok_bind_def [of ?a] bind_eq_Some_conv by force
  have r: "sv_commit (snd r) = sv_commit s1"
    using 1(2) by (auto simp: ask_def tick_def split: if_splits)
  show ?thesis
  proof (cases "c > sv_commit s")
    case True
    then obtain rc2 s2 where 2: "apply_from env s (sv_commit s + 1) (?m - sv_commit s) = Some (rc2, s2)"
        "(if rc2 = RS_OK then Some (RS_OK, s2\<lparr>sv_commit := ?m, sv_last_quorum := sv_ts s2\<rparr>) else Some (rc2, s2)) = Some (rc1, s1)"
      using 1(1) unfolding if_P [OF True] Let_def ok_bind_def bind_eq_Some_conv by force
    show ?thesis using apply_from_commit [OF 2(1)] 2(2) r True by (cases "rc2 = RS_OK") auto
  next
    case False
    then show ?thesis using 1(1) r by simp
  qed
qed

lemma set_own_round:
  "sv_meta (set_own s f) = sv_meta s" "sv_nodes (set_own s f) = sv_nodes s" "sv_store (set_own s f) = sv_store s"
  "sv_commit (set_own s f) = sv_commit s" "sv_own (set_own s f) = sv_own s" "sv_in_cluster (set_own s f) = sv_in_cluster s"
  by (simp_all add: set_own_def set_node_def)

lemma commit_match_commit: "sv_commit (snd (commit_match s)) = sv_commit s"
  by (simp add: commit_match_def Let_def set_own_round)

lemma held_round: "held (set_own s (\<lambda>n. n\<lparr>nd_round := r\<rparr>)) i = held s i"
  by (simp add: held_def set_own_def set_node_def)

text \<open>The commit index after a check is the one before, or one that was found to be held.\<close>

lemma check_commit_bound:
  fixes s :: "'st server"
  assumes "server_check_commit env s = Some (rc, s')"
  defines "s0 \<equiv> set_own s (\<lambda>n. n\<lparr>nd_round := sv_round s\<rparr>)"
  shows "unat (m_voter (sv_meta s) div 2) < length (sv_nodes s) \<and>
    (sv_commit s' = sv_commit s \<or> sv_commit s' \<le> fst (commit_match s0))"
proof -
  let ?ix = "unat (m_voter (sv_meta s) div 2)"
  have ix: "\<not> ?ix \<ge> length (sv_nodes s0)"
  proof
    assume "?ix \<ge> length (sv_nodes s0)"
    then show False using assms(1) unfolding server_check_commit_def Let_def s0_def [symmetric] by simp
  qed
  obtain mat s1 where m: "commit_match s0 = (mat, s1)" by (cases "commit_match s0")
  have c1: "sv_commit s1 = sv_commit s" using commit_match_commit [of s0] m by (simp add: s0_def set_own_round)
  obtain rc2 s2 where 2: "server_update_commit env s1 mat = Some (rc2, s2)"
      "(if rc2 = RS_OK then if sv_read_reqs s2 = [] then Some (RS_OK, s2) else if ?ix \<ge> length (sv_nodes s2) then None
         else let s = s2\<lparr>sv_nodes := sort_rounds s2\<rparr>; ri = nd_round (sv_node s (sv_nodes s ! ?ix));
                s = (if ri > sv_round_match s then s\<lparr>sv_round_match := ri, sv_last_quorum := sv_ts s\<rparr> else s)
           in serve_reads env s (sv_read_reqs s)
       else Some (rc2, s2)) = Some (rc, s')"
    using assms(1) unfolding server_check_commit_def Let_def s0_def [symmetric] if_not_P [OF ix] m prod.case ok_bind_def
      bind_eq_Some_conv
    by force
  have "sv_commit s' = sv_commit s2"
    using 2(2) steady_eqs(1) [OF serve_reads_steady] by (fastforce simp: Let_def split: if_splits)
  moreover have "sv_commit s2 = sv_commit s \<or> sv_commit s2 \<le> mat"
    using update_commit_bound [OF 2(1)] c1 by auto
  ultimately show ?thesis using ix m by (auto simp: s0_def set_own_round)
qed

section \<open>Properties\<close>



end
