(* ===== verification/Refinement.thy ===== *)
theory Refinement
  imports Resql_Prelude
begin

text \<open>
  Running a sequence of operations on a component, and the contract of an implementation that
  simulates an abstract component operation by operation: then it simulates every run.
\<close>

primrec run_ops :: "('o \<Rightarrow> 's \<Rightarrow> 'r \<times> 's) \<Rightarrow> 'o list \<Rightarrow> 's \<Rightarrow> 'r list \<times> 's" where
  "run_ops step [] s = ([], s)"
| "run_ops step (x # xs) s = (case step x s of (r, s') \<Rightarrow> map_prod (Cons r) id (run_ops step xs s'))"

text \<open>Every operation of the run is allowed in the abstract state it is applied to.\<close>

primrec run_ok :: "('o \<Rightarrow> 's \<Rightarrow> 'r \<times> 's) \<Rightarrow> ('o \<Rightarrow> 's \<Rightarrow> bool) \<Rightarrow> 'o list \<Rightarrow> 's \<Rightarrow> bool" where
  "run_ok step ok [] s = True"
| "run_ok step ok (x # xs) s = (ok x s \<and> run_ok step ok xs (snd (step x s)))"

locale refines =
  fixes rep :: "'c \<Rightarrow> 'a \<Rightarrow> bool"
    and cstep :: "'o \<Rightarrow> 'c \<Rightarrow> 'r \<times> 'c"
    and astep :: "'o \<Rightarrow> 'a \<Rightarrow> 'r \<times> 'a"
    and ok :: "'o \<Rightarrow> 'a \<Rightarrow> bool"
  assumes step: "rep c a \<Longrightarrow> ok x a \<Longrightarrow>
    fst (cstep x c) = fst (astep x a) \<and> rep (snd (cstep x c)) (snd (astep x a))"
begin

lemma run:
  assumes "rep c a" "run_ok astep ok xs a"
  shows "fst (run_ops cstep xs c) = fst (run_ops astep xs a) \<and>
    rep (snd (run_ops cstep xs c)) (snd (run_ops astep xs a))"
  using assms
proof (induction xs arbitrary: c a)
  case (Cons x xs)
  have s: "fst (cstep x c) = fst (astep x a)" "rep (snd (cstep x c)) (snd (astep x a))"
    using step [OF Cons.prems(1), of x] Cons.prems(2) by simp_all
  from Cons.IH [OF s(2)] show ?case
    using s(1) Cons.prems(2) by (simp add: case_prod_unfold)
qed simp

end

end
