(* ===== verification/Sc_List.thy ===== *)
theory Sc_List
  imports Refinement
begin

text \<open>
  Linked lists, \<^verbatim>\<open>lib/sc/sc_list.c\<close>: circular, doubly linked, the links inside the elements. The
  memory is explicit: an address has a \<^verbatim>\<open>next\<close> and a \<^verbatim>\<open>prev\<close> pointer, and every operation is
  the sequence of pointer assignments of the code, each reading what the ones before it wrote. A list
  head and an element are the same kind of object, and an element that is in no list points to itself.
\<close>

section \<open>Definitions\<close>

record sc_list =
  nxt :: "nat \<Rightarrow> nat"
  prv :: "nat \<Rightarrow> nat"

definition set_next :: "sc_list \<Rightarrow> nat \<Rightarrow> nat \<Rightarrow> sc_list" where
  "set_next m a b = m\<lparr>nxt := (nxt m)(a := b)\<rparr>"

definition set_prev :: "sc_list \<Rightarrow> nat \<Rightarrow> nat \<Rightarrow> sc_list" where
  "set_prev m a b = m\<lparr>prv := (prv m)(a := b)\<rparr>"

definition sc_list_init :: "sc_list \<Rightarrow> nat \<Rightarrow> sc_list" where
  "sc_list_init m l = set_prev (set_next m l l) l l"

definition sc_list_is_empty :: "sc_list \<Rightarrow> nat \<Rightarrow> bool" where
  "sc_list_is_empty m l \<longleftrightarrow> nxt m l = l"

definition sc_list_del :: "sc_list \<Rightarrow> nat \<Rightarrow> sc_list" where
  "sc_list_del m elem =
     (let m = set_next m (prv m elem) (nxt m elem);
          m = set_prev m (nxt m elem) (prv m elem);
          m = set_next m elem elem
      in set_prev m elem elem)"

text \<open>The loop of \<^verbatim>\<open>sc_list_foreach\<close>, which counts the elements from \<open>elem\<close> on.\<close>

partial_function (option) count_from :: "sc_list \<Rightarrow> nat \<Rightarrow> nat \<Rightarrow> nat option" where
  "count_from m l elem =
     (if elem \<noteq> l then Option.bind (count_from m l (nxt m elem)) (\<lambda>c. Some (c + 1)) else Some 0)"

definition sc_list_count :: "sc_list \<Rightarrow> nat \<Rightarrow> nat option" where
  "sc_list_count m l = count_from m l (nxt m l)"

text \<open>The loop of \<^verbatim>\<open>sc_list_foreach_safe\<close> that deletes every element; \<open>n\<close> is read before the body.\<close>

partial_function (option) clear_from :: "sc_list \<Rightarrow> nat \<Rightarrow> nat \<Rightarrow> nat \<Rightarrow> sc_list option" where
  "clear_from m l elem n =
     (if elem \<noteq> l then let m = sc_list_del m elem in clear_from m l n (nxt m n) else Some m)"

definition sc_list_clear :: "sc_list \<Rightarrow> nat \<Rightarrow> sc_list option" where
  "sc_list_clear m l = clear_from m l (nxt m l) (nxt m (nxt m l))"

definition sc_list_head :: "sc_list \<Rightarrow> nat \<Rightarrow> nat option" where
  "sc_list_head m l = (if nxt m l \<noteq> l then Some (nxt m l) else None)"

definition sc_list_tail :: "sc_list \<Rightarrow> nat \<Rightarrow> nat option" where
  "sc_list_tail m l = (if prv m l \<noteq> l then Some (prv m l) else None)"

definition sc_list_add_tail :: "sc_list \<Rightarrow> nat \<Rightarrow> nat \<Rightarrow> sc_list" where
  "sc_list_add_tail m l elem =
     (let m = sc_list_del m elem;
          p = prv m l;
          m = set_prev m l elem;
          m = set_next m elem l;
          m = set_prev m elem p
      in set_next m p elem)"

definition sc_list_pop_tail :: "sc_list \<Rightarrow> nat \<Rightarrow> nat option \<times> sc_list" where
  "sc_list_pop_tail m l =
     (let t = prv m l in if sc_list_is_empty m l then (None, m) else (Some t, sc_list_del m (prv m l)))"

definition sc_list_add_head :: "sc_list \<Rightarrow> nat \<Rightarrow> nat \<Rightarrow> sc_list" where
  "sc_list_add_head m l elem =
     (let m = sc_list_del m elem;
          n = nxt m l;
          m = set_next m l elem;
          m = set_prev m elem l;
          m = set_next m elem n
      in set_prev m n elem)"

definition sc_list_pop_head :: "sc_list \<Rightarrow> nat \<Rightarrow> nat option \<times> sc_list" where
  "sc_list_pop_head m l =
     (let h = nxt m l in if sc_list_is_empty m l then (None, m) else (Some h, sc_list_del m (nxt m l)))"

definition sc_list_add_after :: "sc_list \<Rightarrow> nat \<Rightarrow> nat \<Rightarrow> sc_list" where
  "sc_list_add_after m p elem =
     (let m = sc_list_del m elem;
          n = nxt m p;
          m = set_next m p elem;
          m = set_next m elem n;
          m = set_prev m elem p
      in set_prev m n elem)"

definition sc_list_add_before :: "sc_list \<Rightarrow> nat \<Rightarrow> nat \<Rightarrow> sc_list" where
  "sc_list_add_before m n elem =
     (let m = sc_list_del m elem;
          p = prv m n;
          m = set_prev m n elem;
          m = set_next m elem n;
          m = set_prev m elem p
      in set_next m p elem)"

section \<open>The sequence a list represents\<close>

text \<open>Consecutive addresses are linked both ways.\<close>

fun chain :: "sc_list \<Rightarrow> nat list \<Rightarrow> bool" where
  "chain m (a # b # r) \<longleftrightarrow> nxt m a = b \<and> prv m b = a \<and> chain m (b # r)"
| "chain m r \<longleftrightarrow> True"

definition list_rep :: "sc_list \<Rightarrow> nat \<Rightarrow> nat list \<Rightarrow> bool" where
  "list_rep m l xs \<longleftrightarrow> distinct (l # xs) \<and> chain m (l # xs @ [l])"

lemma set_links [simp]:
  "nxt (set_next m a b) = (nxt m)(a := b)" "prv (set_next m a b) = prv m"
  "prv (set_prev m a b) = (prv m)(a := b)" "nxt (set_prev m a b) = nxt m"
  by (simp_all add: set_next_def set_prev_def)

lemma chain_append: "chain m (xs @ a # ys) \<longleftrightarrow> chain m (xs @ [a]) \<and> chain m (a # ys)"
proof (induction xs)
  case (Cons x xs)
  then show ?case by (cases xs) auto
qed (cases ys; simp)

lemma chain_cong:
  "chain m ys \<Longrightarrow> (\<And>a. a \<in> set (butlast ys) \<Longrightarrow> nxt m' a = nxt m a) \<Longrightarrow>
     (\<And>a. a \<in> set (tl ys) \<Longrightarrow> prv m' a = prv m a) \<Longrightarrow> chain m' ys"
proof (induction m ys rule: chain.induct)
  case (1 m a b r)
  have "chain m' (b # r)"
    using 1 by (intro "1.IH") (auto simp: list.set_sel)
  then show ?case using 1 by (cases r) auto
qed auto

lemma list_rep_Nil: "list_rep m l [] \<longleftrightarrow> nxt m l = l \<and> prv m l = l"
  by (simp add: list_rep_def)

text \<open>Around an element: its neighbours, and the chains on both sides.\<close>

lemma list_rep_split:
  "list_rep m l (as @ e # bs) \<longleftrightarrow> distinct (l # as @ e # bs) \<and> chain m (l # as @ [e]) \<and> chain m (e # bs @ [l])"
  using chain_append [of m "l # as" e "bs @ [l]"] by (auto simp: list_rep_def)

lemma chain_snoc: "chain m (xs @ [a, b]) \<longleftrightarrow> chain m (xs @ [a]) \<and> nxt m a = b \<and> prv m b = a"
  using chain_append [of m xs a "[b]"] by simp

lemma chain_last: "xs \<noteq> [] \<Longrightarrow> chain m (xs @ [e]) \<longleftrightarrow> chain m xs \<and> nxt m (last xs) = e \<and> prv m e = last xs"
  using chain_snoc [of m "butlast xs" "last xs" e] append_butlast_last_id [of xs]
  by (metis append.assoc append_Cons append_Nil)

lemma chain_hd: "xs \<noteq> [] \<Longrightarrow> chain m (e # xs) \<longleftrightarrow> nxt m e = hd xs \<and> prv m (hd xs) = e \<and> chain m xs"
  by (cases xs) auto

text \<open>Deleting: the element points to itself, and its list closes up behind it.\<close>

lemma del_links:
  assumes "p = prv m e" "n = nxt m e" "p \<noteq> e" "n \<noteq> e"
  shows "nxt (sc_list_del m e) = (nxt m)(p := n, e := e)" "prv (sc_list_del m e) = (prv m)(n := p, e := e)"
  using assms by (simp_all add: sc_list_del_def Let_def)

lemma del_self:
  "nxt m e = e \<Longrightarrow> prv m e = e \<Longrightarrow> sc_list_del m e = m"
  by (simp add: sc_list_del_def Let_def set_next_def set_prev_def fun_upd_idem)

lemma list_rep_neighbours:
  assumes "list_rep m l (as @ e # bs)"
  shows "prv m e = last (l # as)" "nxt m e = hd (bs @ [l])" "prv m e \<noteq> e" "nxt m e \<noteq> e"
proof -
  have c: "distinct (l # as @ e # bs)" "chain m (l # as @ [e])" "chain m (e # bs @ [l])"
    using assms by (simp_all only: list_rep_split)
  show p: "prv m e = last (l # as)" using c(2) chain_last [of "l # as" m e] by simp
  show n: "nxt m e = hd (bs @ [l])" using c(3) chain_hd [of "bs @ [l]" m e] by simp
  show "prv m e \<noteq> e" unfolding p using c(1) last_in_set [of "l # as"] by (auto simp del: last.simps)
  show "nxt m e \<noteq> e" unfolding n using c(1) hd_in_set [of "bs @ [l]"] by (cases bs) auto
qed

lemma del_rep:
  assumes "list_rep m l (as @ e # bs)"
  shows "list_rep (sc_list_del m e) l (as @ bs)" "list_rep (sc_list_del m e) e []"
proof -
  let ?p = "last (l # as)" and ?n = "hd (bs @ [l])"
  note nb = list_rep_neighbours [OF assms]
  note d = del_links [OF nb(1) [symmetric] nb(2) [symmetric]]
  have c: "distinct (l # as @ e # bs)" "chain m (l # as @ [e])" "chain m (e # bs @ [l])"
    using assms by (simp_all only: list_rep_split)
  have ne: "?p \<noteq> e" "?n \<noteq> e" using nb by metis+
  have l: "nxt (sc_list_del m e) = (nxt m)(?p := ?n, e := e)" "prv (sc_list_del m e) = (prv m)(?n := ?p, e := e)"
    using d ne by auto
  show "list_rep (sc_list_del m e) e []" by (simp add: list_rep_Nil l)
  have f: "chain (sc_list_del m e) (l # as)"
  proof (rule chain_cong [of m])
    show "chain m (l # as)" using c(2) chain_last [of "l # as" m e] by simp
    show "nxt (sc_list_del m e) a = nxt m a" if "a \<in> set (butlast (l # as))" for a
    proof -
      have "distinct (butlast (l # as) @ [?p])" using c(1) append_butlast_last_id [of "l # as"] by simp
      then have "a \<noteq> ?p" using that by auto
      moreover have "a \<noteq> e" using in_set_butlastD [OF that] c(1) by auto
      ultimately show ?thesis by (simp add: l)
    qed
    show "prv (sc_list_del m e) a = prv m a" if "a \<in> set (tl (l # as))" for a
      using that c(1) by (cases bs) (auto simp: l)
  qed
  have b: "chain (sc_list_del m e) (bs @ [l])"
  proof (rule chain_cong [of m])
    show "chain m (bs @ [l])" using c(3) chain_hd [of "bs @ [l]" m e] by simp
    show "nxt (sc_list_del m e) a = nxt m a" if "a \<in> set (butlast (bs @ [l]))" for a
    proof -
      have "a \<in> set bs" using that by simp
      then have "a \<noteq> e" "a \<notin> set (l # as)" using c(1) by auto
      then have "a \<noteq> ?p" using last_in_set [of "l # as"] by (auto simp del: last.simps)
      then show ?thesis using \<open>a \<noteq> e\<close> by (simp add: l)
    qed
    show "prv (sc_list_del m e) a = prv m a" if "a \<in> set (tl (bs @ [l]))" for a
    proof (cases bs)
      case Nil
      then show ?thesis using that by simp
    next
      case (Cons x xs)
      then have "a \<noteq> x" "a \<noteq> e" using that c(1) by auto
      then show ?thesis using Cons by (simp add: l)
    qed
  qed
  have "chain (sc_list_del m e) (butlast (l # as) @ [?p])" using f by simp
  moreover have "chain (sc_list_del m e) (?p # bs @ [l])"
    using b ne by (subst chain_hd) (simp_all add: l)
  ultimately have "chain (sc_list_del m e) (butlast (l # as) @ ?p # bs @ [l])" using chain_append by blast
  moreover have "butlast (l # as) @ ?p # bs @ [l] = l # as @ bs @ [l]"
    using append_butlast_last_id [of "l # as"] by (metis append_Cons append_assoc append_Nil list.distinct(1))
  ultimately have "chain (sc_list_del m e) (l # as @ bs @ [l])" by (rule back_subst)
  then show "list_rep (sc_list_del m e) l (as @ bs)" using c(1) by (simp add: list_rep_def)
qed

text \<open>Deleting from one list leaves another list alone.\<close>

lemma del_other:
  assumes "list_rep m l xs" "list_rep m k ys" "e \<in> set xs" "set (l # xs) \<inter> set (k # ys) = {}"
  shows "list_rep (sc_list_del m e) k ys"
proof -
  obtain as bs where xs: "xs = as @ e # bs" using split_list [OF assms(3)] by blast
  note nb = list_rep_neighbours [OF assms(1) [unfolded xs]]
  have p: "prv m e \<in> set (l # xs)" "nxt m e \<in> set (l # xs)"
    unfolding nb(1,2) xs using last_in_set [of "l # as"] hd_in_set [of "bs @ [l]"]
    by (auto simp del: last.simps)
  note d = del_links [OF refl refl nb(3,4)]
  have "chain (sc_list_del m e) (k # ys @ [k])"
  proof (rule chain_cong [of m])
    show "chain m (k # ys @ [k])" using assms(2) by (simp add: list_rep_def)
    show "nxt (sc_list_del m e) a = nxt m a" if "a \<in> set (butlast (k # ys @ [k]))" for a
      using that p assms(3,4) in_set_butlastD [OF that] by (auto simp: d)
    show "prv (sc_list_del m e) a = prv m a" if "a \<in> set (tl (k # ys @ [k]))" for a
      using that p assms(3,4) by (auto simp: d)
  qed
  then show ?thesis using assms(2) by (simp add: list_rep_def)
qed

text \<open>Linking an element between two neighbours: the common end of the four insertions.\<close>

definition link_between :: "sc_list \<Rightarrow> nat \<Rightarrow> nat \<Rightarrow> nat \<Rightarrow> sc_list" where
  "link_between m p e n = m\<lparr>nxt := (nxt m)(p := e, e := n), prv := (prv m)(n := e, e := p)\<rparr>"

lemma link_between_rep:
  assumes "list_rep m l (as @ bs)" "e \<notin> set (l # as @ bs)"
  shows "list_rep (link_between m (last (l # as)) e (hd (bs @ [l]))) l (as @ e # bs)"
proof -
  let ?p = "last (l # as)" and ?n = "hd (bs @ [l])"
  let ?m = "link_between m ?p e ?n"
  have d: "distinct (l # as @ e # bs)" using assms by (auto simp: list_rep_def)
  have "chain m (butlast (l # as) @ ?p # bs @ [l])"
    using assms(1) append_butlast_last_id [of "l # as"]
    by (metis append_Cons append_assoc append_Nil list.distinct(1) list_rep_def)
  then have c: "chain m (butlast (l # as) @ [?p])" "chain m (?p # bs @ [l])"
    using chain_append by blast+
  have "chain m (l # as)" using c(1) append_butlast_last_id [of "l # as"] by simp
  then have f: "chain ?m (l # as)"
  proof (rule chain_cong)
    show "nxt ?m a = nxt m a" if "a \<in> set (butlast (l # as))" for a
    proof -
      have "distinct (butlast (l # as) @ [?p])" using d append_butlast_last_id [of "l # as"] by simp
      then have "a \<noteq> ?p" using that by auto
      moreover have "a \<noteq> e" using in_set_butlastD [OF that] assms(2) by auto
      ultimately show ?thesis by (simp add: link_between_def)
    qed
    show "prv ?m a = prv m a" if "a \<in> set (tl (l # as))" for a
      using that d by (cases bs) (auto simp: link_between_def)
  qed
  have "chain m (bs @ [l])" using c(2) chain_hd [of "bs @ [l]" m ?p] by simp
  then have b: "chain ?m (bs @ [l])"
  proof (rule chain_cong)
    show "nxt ?m a = nxt m a" if "a \<in> set (butlast (bs @ [l]))" for a
    proof -
      have a: "a \<noteq> e" "a \<notin> set (l # as)" using that d by auto
      then have "a \<noteq> ?p" using last_in_set [of "l # as"] by (auto simp del: last.simps)
      then show ?thesis using a(1) by (simp add: link_between_def)
    qed
    show "prv ?m a = prv m a" if "a \<in> set (tl (bs @ [l]))" for a
      using that d by (cases bs) (auto simp: link_between_def)
  qed
  have ne: "?p \<noteq> e" "?n \<noteq> e"
    using d last_in_set [of "l # as"] hd_in_set [of "bs @ [l]"] by (auto simp del: last.simps)
  have "chain ?m (l # as @ [e])"
    using f chain_last [of "l # as" ?m e] ne by (simp add: link_between_def)
  moreover have "chain ?m (e # bs @ [l])"
    using b ne by (subst chain_hd) (simp_all add: link_between_def)
  ultimately show ?thesis using d by (simp only: list_rep_split)
qed

section \<open>Sequences\<close>

text \<open>
  \<open>seq m l U xs\<close>: the list at \<open>l\<close> holds \<open>xs\<close>, and the elements of \<open>U\<close> that it does not hold are
  unlinked.
\<close>

definition seq :: "sc_list \<Rightarrow> nat \<Rightarrow> nat set \<Rightarrow> nat list \<Rightarrow> bool" where
  "seq m l U xs \<longleftrightarrow> list_rep m l xs \<and> set xs \<subseteq> U \<and> l \<notin> U \<and> (\<forall>e \<in> U - set xs. list_rep m e [])"

lemma seq_frame:
  assumes "list_rep m' l ys" "seq m l U xs" "set ys \<subseteq> U"
    "\<And>a. a \<in> U \<Longrightarrow> a \<notin> set ys \<Longrightarrow> list_rep m' a []"
  shows "seq m' l U ys"
  using assms by (simp add: seq_def)

lemma remove1_middle: "distinct (as @ e # bs) \<Longrightarrow> remove1 e (as @ e # bs) = as @ bs"
  by (simp add: remove1_append)

lemma seq_del:
  assumes s: "seq m l U xs" and e: "e \<in> U"
  shows "seq (sc_list_del m e) l U (remove1 e xs)"
proof (cases "e \<in> set xs")
  case True
  then obtain as bs where xs: "xs = as @ e # bs" by (meson split_list)
  have r: "list_rep m l (as @ e # bs)" "distinct (l # as @ e # bs)" "l \<notin> U" "set xs \<subseteq> U"
    using s by (simp_all add: seq_def xs list_rep_def)
  note d = del_rep [OF r(1)]
  have o: "list_rep (sc_list_del m e) a []" if "a \<in> U" "a \<notin> set (as @ bs)" for a
  proof (cases "a = e")
    case True
    then show ?thesis using d(2) by simp
  next
    case False
    then have "list_rep m a []" using s that by (auto simp: seq_def xs)
    then show ?thesis
      using del_other [OF r(1), of a "[]" e] that False r(3) by auto
  qed
  have "seq (sc_list_del m e) l U (as @ bs)"
  proof (rule seq_frame [OF d(1) s])
    show "set (as @ bs) \<subseteq> U" using r(4) by (auto simp: xs)
  qed (rule o)
  then show ?thesis using r(2) remove1_middle [of as e bs] by (simp add: xs)
next
  case False
  then have "list_rep m e []" using s e by (simp add: seq_def)
  then have "sc_list_del m e = m" by (intro del_self) (simp_all add: list_rep_Nil)
  then show ?thesis using s False by (simp add: remove1_idem)
qed

lemma seq_link:
  assumes s: "seq m l U (as @ bs)" and e: "e \<in> U" "e \<notin> set (as @ bs)"
  shows "seq (link_between m (last (l # as)) e (hd (bs @ [l]))) l U (as @ e # bs)"
proof -
  let ?m = "link_between m (last (l # as)) e (hd (bs @ [l]))"
  have r: "list_rep m l (as @ bs)" "l \<notin> U" "set (as @ bs) \<subseteq> U" using s by (simp_all add: seq_def)
  have "e \<notin> set (l # as @ bs)" using e r(2) by auto
  note k = link_between_rep [OF r(1) this]
  have o: "list_rep ?m a []" if "a \<in> U" "a \<notin> set (as @ e # bs)" for a
  proof -
    have "a \<noteq> l" using that r(2) by auto
    then have "a \<noteq> last (l # as)" "a \<noteq> hd (bs @ [l])" "a \<noteq> e"
      using that last_in_set [of "l # as"] hd_in_set [of "bs @ [l]"] by (auto simp del: last.simps)
    moreover have "list_rep m a []" using s that by (simp add: seq_def)
    ultimately show ?thesis by (simp add: list_rep_Nil link_between_def)
  qed
  show ?thesis
  proof (rule seq_frame [OF k s])
    show "set (as @ e # bs) \<subseteq> U" using r(3) e(1) by auto
  qed (rule o)
qed

lemma seq_ends:
  assumes "seq m l U xs"
  shows "prv m l = last (l # xs)" "nxt m l = hd (xs @ [l])"
  using assms chain_last [of "l # xs" m l] chain_hd [of "xs @ [l]" m l] by (simp_all add: seq_def list_rep_def)

text \<open>Each insertion deletes first, and then links between the neighbours it finds.\<close>

lemma link_eqs:
  assumes "p \<noteq> e" "n \<noteq> e"
  shows "set_next (set_prev (set_next (set_prev m n e) e n) e p) p e = link_between m p e n"
    "set_prev (set_next (set_prev (set_next m p e) e p) e n) n e = link_between m p e n"
    "set_prev (set_prev (set_next (set_next m p e) e n) e p) n e = link_between m p e n"
  using assms by (simp_all add: set_next_def set_prev_def link_between_def fun_upd_twist)

lemma seq_add_tail:
  assumes "seq m l U xs" "e \<in> U"
  shows "seq (sc_list_add_tail m l e) l U (remove1 e xs @ [e])"
proof -
  let ?m = "sc_list_del m e" and ?ys = "remove1 e xs"
  have s: "seq ?m l U ?ys" by (rule seq_del [OF assms])
  have e: "e \<notin> set ?ys" using assms(1) by (simp add: seq_def list_rep_def)
  have "e \<noteq> l" using assms by (auto simp: seq_def)
  moreover have "last (l # ?ys) \<noteq> e" using e \<open>e \<noteq> l\<close> last_in_set [of "l # ?ys"] by (auto simp del: last.simps)
  ultimately have "sc_list_add_tail m l e = link_between ?m (last (l # ?ys)) e l"
    unfolding sc_list_add_tail_def Let_def seq_ends(1) [OF s] by (intro link_eqs) auto
  then show ?thesis using seq_link [of ?m l U ?ys "[]" e] s assms(2) e by simp
qed

lemma seq_add_head:
  assumes "seq m l U xs" "e \<in> U"
  shows "seq (sc_list_add_head m l e) l U (e # remove1 e xs)"
proof -
  let ?m = "sc_list_del m e" and ?ys = "remove1 e xs"
  have s: "seq ?m l U ?ys" by (rule seq_del [OF assms])
  have e: "e \<notin> set ?ys" using assms(1) by (simp add: seq_def list_rep_def)
  have "e \<noteq> l" using assms by (auto simp: seq_def)
  moreover have "hd (?ys @ [l]) \<noteq> e" using e \<open>e \<noteq> l\<close> hd_in_set [of "?ys @ [l]"] by auto
  ultimately have "sc_list_add_head m l e = link_between ?m l e (hd (?ys @ [l]))"
    unfolding sc_list_add_head_def Let_def seq_ends(2) [OF s] by (intro link_eqs) auto
  then show ?thesis using seq_link [of ?m l U "[]" ?ys e] s assms(2) e by simp
qed

lemma remove1_ends: "distinct (x # xs) \<Longrightarrow> remove1 x (x # xs) = xs" "distinct (xs @ [x]) \<Longrightarrow> remove1 x (xs @ [x]) = xs"
  by (simp_all add: remove1_append)

lemma seq_empty: "seq m l U xs \<Longrightarrow> sc_list_is_empty m l \<longleftrightarrow> xs = []"
  using seq_ends(2) [of m l U xs] by (cases xs) (auto simp: sc_list_is_empty_def seq_def list_rep_def)

lemma seq_pop_head:
  assumes "seq m l U xs"
  shows "fst (sc_list_pop_head m l) = (case xs of [] \<Rightarrow> None | x # _ \<Rightarrow> Some x)"
    "seq (snd (sc_list_pop_head m l)) l U (tl xs)"
proof -
  have e: "sc_list_is_empty m l \<longleftrightarrow> xs = []" by (rule seq_empty [OF assms])
  show "fst (sc_list_pop_head m l) = (case xs of [] \<Rightarrow> None | x # _ \<Rightarrow> Some x)"
    using e seq_ends(2) [OF assms] by (cases xs) (simp_all add: sc_list_pop_head_def)
  show "seq (snd (sc_list_pop_head m l)) l U (tl xs)"
  proof (cases xs)
    case Nil
    then show ?thesis using assms e by (simp add: sc_list_pop_head_def)
  next
    case (Cons x ys)
    have "x \<in> U" using assms Cons by (simp add: seq_def)
    then show ?thesis using seq_del [OF assms, of x] e Cons seq_ends(2) [OF assms] by (simp add: sc_list_pop_head_def)
  qed
qed

lemma seq_pop_tail:
  assumes "seq m l U xs"
  shows "fst (sc_list_pop_tail m l) = (if xs = [] then None else Some (last xs))"
    "seq (snd (sc_list_pop_tail m l)) l U (butlast xs)"
proof -
  have e: "sc_list_is_empty m l \<longleftrightarrow> xs = []" by (rule seq_empty [OF assms])
  have p: "prv m l = (if xs = [] then l else last xs)" using seq_ends(1) [OF assms] by simp
  show "fst (sc_list_pop_tail m l) = (if xs = [] then None else Some (last xs))"
    using e p by (simp add: sc_list_pop_tail_def)
  show "seq (snd (sc_list_pop_tail m l)) l U (butlast xs)"
  proof (cases xs rule: rev_cases)
    case Nil
    then show ?thesis using assms e by (simp add: sc_list_pop_tail_def)
  next
    case (snoc ys x)
    have x: "x \<in> U" "distinct (ys @ [x])" using assms snoc by (simp_all add: seq_def list_rep_def)
    then show ?thesis using seq_del [OF assms x(1)] e snoc p remove1_ends(2) [OF x(2)]
      by (simp add: sc_list_pop_tail_def)
  qed
qed

lemma seq_neighbours:
  assumes "seq m l U (as @ p # bs)"
  shows "nxt m p = hd (bs @ [l])" "prv m p = last (l # as)"
  using list_rep_neighbours [of m l as p bs] assms by (simp_all add: seq_def)

lemma seq_add_after:
  assumes "seq m l U xs" "e \<in> U" "remove1 e xs = as @ p # bs"
  shows "seq (sc_list_add_after m p e) l U (as @ p # e # bs)"
proof -
  let ?m = "sc_list_del m e"
  have s: "seq ?m l U (as @ p # bs)" using seq_del [OF assms(1,2)] assms(3) by simp
  have "e \<notin> set (remove1 e xs)" using assms(1) by (simp add: seq_def list_rep_def)
  then have e: "e \<notin> set (as @ p # bs)" by (simp add: assms(3))
  have "e \<noteq> l" using assms(1,2) by (auto simp: seq_def)
  moreover have "hd (bs @ [l]) \<noteq> e" using e \<open>e \<noteq> l\<close> hd_in_set [of "bs @ [l]"] by auto
  ultimately have "sc_list_add_after m p e = link_between ?m p e (hd (bs @ [l]))"
    unfolding sc_list_add_after_def Let_def seq_neighbours(1) [OF s] using e by (intro link_eqs) auto
  then show ?thesis using seq_link [of ?m l U "as @ [p]" bs e] s assms(2) e by simp
qed

lemma seq_add_before:
  assumes "seq m l U xs" "e \<in> U" "remove1 e xs = as @ n # bs"
  shows "seq (sc_list_add_before m n e) l U (as @ e # n # bs)"
proof -
  let ?m = "sc_list_del m e"
  have s: "seq ?m l U (as @ n # bs)" using seq_del [OF assms(1,2)] assms(3) by simp
  have "e \<notin> set (remove1 e xs)" using assms(1) by (simp add: seq_def list_rep_def)
  then have e: "e \<notin> set (as @ n # bs)" by (simp add: assms(3))
  have "e \<noteq> l" using assms(1,2) by (auto simp: seq_def)
  moreover have "last (l # as) \<noteq> e" using e \<open>e \<noteq> l\<close> last_in_set [of "l # as"] by (auto simp del: last.simps)
  ultimately have "sc_list_add_before m n e = link_between ?m (last (l # as)) e n"
    unfolding sc_list_add_before_def Let_def seq_neighbours(2) [OF s] using e by (intro link_eqs) auto
  then show ?thesis using seq_link [of ?m l U as "n # bs" e] s assms(2) e by simp
qed

lemma count_from_rep:
  assumes "chain m (ys @ [l])" "l \<notin> set ys"
  shows "count_from m l (hd (ys @ [l])) = Some (length ys)"
  using assms
proof (induction ys)
  case (Cons y ys)
  have "nxt m y = hd (ys @ [l])" "chain m (ys @ [l])" using Cons.prems(1) chain_hd [of "ys @ [l]" m y] by simp_all
  then show ?case using Cons by (subst count_from.simps) simp
qed (subst count_from.simps, simp)

lemma seq_count: "seq m l U xs \<Longrightarrow> sc_list_count m l = Some (length xs)"
  using count_from_rep [of m xs l] seq_ends(2) [of m l U xs] chain_hd [of "xs @ [l]" m l]
  by (simp add: sc_list_count_def seq_def list_rep_def)

text \<open>Clearing: at every turn the rest of the list is still linked, and \<open>n\<close> is its second element.\<close>

lemma clear_from_rep:
  assumes "seq m l U xs"
  shows "\<exists>m'. clear_from m l (hd (xs @ [l])) (nxt m (hd (xs @ [l]))) = Some m' \<and> seq m' l U []"
  using assms
proof (induction xs arbitrary: m)
  case Nil
  then show ?case by (subst clear_from.simps) simp
next
  case (Cons x xs)
  let ?m = "sc_list_del m x"
  have x: "x \<in> U" "x \<noteq> l" using Cons.prems by (auto simp: seq_def list_rep_def)
  have s: "seq ?m l U xs" using seq_del [OF Cons.prems x(1)] by simp
  have n: "nxt m x = hd (xs @ [l])" using seq_neighbours(1) [of m l U "[]" x xs] Cons.prems by simp
  show ?case using Cons.IH [OF s] x(2) n by (subst clear_from.simps) (simp add: Let_def)
qed

lemma seq_clear: "seq m l U xs \<Longrightarrow> \<exists>m'. sc_list_clear m l = Some m' \<and> seq m' l U []"
  using clear_from_rep [of m l U xs] seq_ends(2) [of m l U xs] by (simp add: sc_list_clear_def)

section \<open>Runs of operations\<close>

datatype list_op =
    Add_head nat | Add_tail nat | Add_after nat nat | Add_before nat nat | Pop_head | Pop_tail | Del nat

fun list_do :: "nat \<Rightarrow> list_op \<Rightarrow> sc_list \<Rightarrow> nat option \<times> sc_list" where
  "list_do l (Add_head e) m = (None, sc_list_add_head m l e)"
| "list_do l (Add_tail e) m = (None, sc_list_add_tail m l e)"
| "list_do l (Add_after p e) m = (None, sc_list_add_after m p e)"
| "list_do l (Add_before n e) m = (None, sc_list_add_before m n e)"
| "list_do l Pop_head m = sc_list_pop_head m l"
| "list_do l Pop_tail m = sc_list_pop_tail m l"
| "list_do l (Del e) m = (None, sc_list_del m e)"

text \<open>The same operations on a sequence without repetitions.\<close>

fun seq_do :: "list_op \<Rightarrow> nat list \<Rightarrow> nat option \<times> nat list" where
  "seq_do (Add_head e) xs = (None, e # remove1 e xs)"
| "seq_do (Add_tail e) xs = (None, remove1 e xs @ [e])"
| "seq_do (Add_after p e) xs =
     (let ys = remove1 e xs
      in (None, takeWhile (\<lambda>x. x \<noteq> p) ys @ p # e # tl (dropWhile (\<lambda>x. x \<noteq> p) ys)))"
| "seq_do (Add_before n e) xs =
     (let ys = remove1 e xs
      in (None, takeWhile (\<lambda>x. x \<noteq> n) ys @ e # n # tl (dropWhile (\<lambda>x. x \<noteq> n) ys)))"
| "seq_do Pop_head xs = (case xs of [] \<Rightarrow> (None, []) | x # r \<Rightarrow> (Some x, r))"
| "seq_do Pop_tail xs = (if xs = [] then (None, []) else (Some (last xs), butlast xs))"
| "seq_do (Del e) xs = (None, remove1 e xs)"

fun seq_op_ok :: "nat set \<Rightarrow> list_op \<Rightarrow> nat list \<Rightarrow> bool" where
  "seq_op_ok U (Add_head e) xs = (e \<in> U)"
| "seq_op_ok U (Add_tail e) xs = (e \<in> U)"
| "seq_op_ok U (Add_after p e) xs = (e \<in> U \<and> p \<in> set xs \<and> p \<noteq> e)"
| "seq_op_ok U (Add_before n e) xs = (e \<in> U \<and> n \<in> set xs \<and> n \<noteq> e)"
| "seq_op_ok U (Del e) xs = (e \<in> U)"
| "seq_op_ok U _ xs = True"

lemma split_first:
  "p \<in> set ys \<Longrightarrow> ys = takeWhile (\<lambda>x. x \<noteq> p) ys @ p # tl (dropWhile (\<lambda>x. x \<noteq> p) ys)"
  by (induction ys) auto

lemma list_do_seq:
  assumes "seq m l U xs" "seq_op_ok U x xs"
  shows "fst (list_do l x m) = fst (seq_do x xs) \<and> seq (snd (list_do l x m)) l U (snd (seq_do x xs))"
proof (cases x)
  case (Add_after p e)
  then have "remove1 e xs = takeWhile (\<lambda>x. x \<noteq> p) (remove1 e xs) @ p # tl (dropWhile (\<lambda>x. x \<noteq> p) (remove1 e xs))"
    using assms(2) by (intro split_first) (simp add: in_set_remove1)
  then show ?thesis using seq_add_after [OF assms(1), of e] assms(2) Add_after by (simp add: Let_def)
next
  case (Add_before p e)
  then have "remove1 e xs = takeWhile (\<lambda>x. x \<noteq> p) (remove1 e xs) @ p # tl (dropWhile (\<lambda>x. x \<noteq> p) (remove1 e xs))"
    using assms(2) by (intro split_first) (simp add: in_set_remove1)
  then show ?thesis using seq_add_before [OF assms(1), of e] assms(2) Add_before by (simp add: Let_def)
next
  case Pop_head
  then show ?thesis using seq_pop_head [OF assms(1)] by (cases xs) simp_all
next
  case Pop_tail
  then show ?thesis using seq_pop_tail [OF assms(1)] by (cases "xs = []") simp_all
qed (use assms seq_add_head seq_add_tail seq_del in simp_all)

interpretation lists: refines "\<lambda>m xs. seq m l U xs" "list_do l" seq_do "seq_op_ok U"
  by unfold_locales (rule list_do_seq)

section \<open>Properties\<close>

text \<open>
  C38: The pointer list is a sequence. Any run of insertions, removals and deletions acts on the list
  at \<open>l\<close> as on a sequence without repetitions: inserting an element that is in the list already moves
  it, the results are those of the sequence, afterwards counting gives its length, and clearing
  returns with every element unlinked.
\<close>

theorem sc_list_refines_sequence:
  assumes "seq m l U xs" "run_ok seq_do (seq_op_ok U) ops xs"
  shows "fst (run_ops (list_do l) ops m) = fst (run_ops seq_do ops xs) \<and>
    seq (snd (run_ops (list_do l) ops m)) l U (snd (run_ops seq_do ops xs)) \<and>
    sc_list_count (snd (run_ops (list_do l) ops m)) l = Some (length (snd (run_ops seq_do ops xs))) \<and>
    (\<exists>m'. sc_list_clear (snd (run_ops (list_do l) ops m)) l = Some m' \<and> seq m' l U [])"
  using lists.run [OF assms] seq_count seq_clear by blast

theorem sc_list_refines_sequence_witness:
  "fst (run_ops (list_do 0) [Add_tail 1, Add_tail 2, Add_head 3, Add_tail 1, Pop_tail, Pop_head]
     \<lparr>nxt = id, prv = id\<rparr>) = [None, None, None, None, Some 1, Some 3]"
proof -
  have "seq \<lparr>nxt = id, prv = id\<rparr> 0 {1, 2, 3} []" by (simp add: seq_def list_rep_Nil)
  moreover have "run_ok seq_do (seq_op_ok {1, 2, 3})
      [Add_tail 1, Add_tail 2, Add_head 3, Add_tail 1, Pop_tail, Pop_head] []" by simp
  ultimately show ?thesis
    using sc_list_refines_sequence [of "\<lparr>nxt = id, prv = id\<rparr>" 0 "{1, 2, 3}" "[]"
        "[Add_tail 1, Add_tail 2, Add_head 3, Add_tail 1, Pop_tail, Pop_head]"] by simp
qed

end
