(* ===== verification/Sc_Map.thy ===== *)
theory Sc_Map
  imports Sc_Core Refinement
begin

text \<open>
  Hash maps, \<^verbatim>\<open>lib/sc/sc_map.c\<close>: open addressing with linear probing, the capacity a power of two,
  deletion by moving later items back over the hole. The macros define one map per key and value
  type; here their arguments are a record, the hash function and whether items store the hash. The key
  zero is \<^term>\<open>None\<close>, its value is kept before the array. A search that does not meet a free slot or
  leaves the array does not return, the value \<^term>\<open>None\<close>. The load limit, which the code computes in
  double precision, is the integer part of the exact quotient: the capacity is a power of two, so the
  product is exact, and it is an integer only for 25, 50 and 75, whose quotients are exact as well.
\<close>

unbundle bit_operations_syntax

section \<open>Definitions\<close>

record ('k, 'v) sc_map_item =
  mi_key :: "'k option"
  mi_value :: 'v
  mi_hash :: u32

record ('k, 'v) sc_map =
  mp_mem :: "('k, 'v) sc_map_item list"
  mp_zero :: 'v
  mp_static :: bool
  mp_cap :: nat
  mp_size :: nat
  mp_load_fac :: nat
  mp_remap :: nat
  mp_used :: bool
  mp_oom :: bool
  mp_found :: bool

text \<open>The arguments of \<^verbatim>\<open>sc_map_def_strkey\<close> and \<^verbatim>\<open>sc_map_def_scalar\<close>.\<close>

record 'k sc_map_kind =
  kd_str :: bool
  kd_hash :: "'k \<Rightarrow> u32"

definition sc_map_cmp :: "'k sc_map_kind \<Rightarrow> ('k, 'v) sc_map_item \<Rightarrow> 'k \<Rightarrow> u32 \<Rightarrow> bool" where
  "sc_map_cmp kd t key hash \<longleftrightarrow> (if kd_str kd then mi_hash t = hash \<and> mi_key t = Some key else mi_key t = Some key)"

definition sc_map_assign ::
  "'k sc_map_kind \<Rightarrow> ('k, 'v) sc_map_item \<Rightarrow> 'k \<Rightarrow> 'v \<Rightarrow> u32 \<Rightarrow> ('k, 'v) sc_map_item" where
  "sc_map_assign kd t key val hash =
     (let t = t\<lparr>mi_key := Some key, mi_value := val\<rparr> in if kd_str kd then t\<lparr>mi_hash := hash\<rparr> else t)"

definition sc_map_hashof :: "'k sc_map_kind \<Rightarrow> ('k, 'v) sc_map_item \<Rightarrow> u32" where
  "sc_map_hashof kd t = (if kd_str kd then mi_hash t else kd_hash kd (the (mi_key t)))"

definition empty_item :: "('k, 'v :: zero) sc_map_item" where
  "empty_item = \<lparr>mi_key = None, mi_value = 0, mi_hash = 0\<rparr>"

definition sc_map_empty :: "('k, 'v :: zero) sc_map" where
  "sc_map_empty =
     \<lparr>mp_mem = [empty_item], mp_zero = 0, mp_static = True, mp_cap = 1, mp_size = 0, mp_load_fac = 0,
      mp_remap = 0, mp_used = False, mp_oom = False, mp_found = False\<rparr>"

definition map_smear :: "u32 \<Rightarrow> u32" where
  "map_smear v =
     (let v = v OR drop_bit 1 v; v = v OR drop_bit 2 v; v = v OR drop_bit 4 v; v = v OR drop_bit 8 v
      in v OR drop_bit 16 v)"

text \<open>The new array and its capacity; the capacity is computed in 32 bits.\<close>

definition sc_map_alloc :: "nat \<Rightarrow> nat \<Rightarrow> (('k, 'v :: zero) sc_map_item list \<times> nat) option" where
  "sc_map_alloc cap factor =
     (if cap > UINT32_MAX div factor then None
      else let v = if cap < 8 then 8 else word_of_nat (cap * factor);
               v = unat (map_smear (v - 1) + 1)
           in Some (replicate v empty_item, v))"

definition map_limit :: "nat \<Rightarrow> nat \<Rightarrow> nat" where
  "map_limit cap load_fac = cap * load_fac div 100"

definition sc_map_init :: "('k, 'v :: zero) sc_map \<Rightarrow> nat \<Rightarrow> nat \<Rightarrow> bool \<times> ('k, 'v) sc_map" where
  "sc_map_init m cap load_fac =
     (let f = if load_fac = 0 then 75 else load_fac
      in if f > 95 \<or> f < 25 then (False, m)
         else if cap = 0 then (True, sc_map_empty\<lparr>mp_load_fac := f\<rparr>)
         else case sc_map_alloc cap 1 of
           None \<Rightarrow> (False, m)
         | Some (t, cap) \<Rightarrow>
             (True, m\<lparr>mp_mem := t, mp_zero := 0, mp_static := False, mp_size := 0, mp_used := False,
                      mp_cap := cap, mp_load_fac := f, mp_remap := map_limit cap f\<rparr>))"

definition sc_map_term :: "('k, 'v :: zero) sc_map \<Rightarrow> ('k, 'v) sc_map" where
  "sc_map_term m = (if mp_static m then m else sc_map_empty)"

definition sc_map_clear :: "('k, 'v) sc_map \<Rightarrow> ('k, 'v) sc_map" where
  "sc_map_clear m =
     (if mp_size m > 0
      then m\<lparr>mp_mem := map (\<lambda>t. t\<lparr>mi_key := None\<rparr>) (take (mp_cap m) (mp_mem m)) @ drop (mp_cap m) (mp_mem m),
             mp_used := False, mp_size := 0\<rparr>
      else m)"

text \<open>The search of every operation: from a position on, to the first item that stops it.\<close>

partial_function (option) walk ::
  "(('k, 'v) sc_map_item \<Rightarrow> bool) \<Rightarrow> ('k, 'v) sc_map_item list \<Rightarrow> nat \<Rightarrow> nat \<Rightarrow> nat option" where
  "walk stop mem md pos =
     (if length mem \<le> pos then None
      else if stop (mem ! pos) then Some pos
      else walk stop mem md (add32 pos 1 AND md))"

definition remap_item ::
  "'k sc_map_kind \<Rightarrow> nat \<Rightarrow> ('k, 'v) sc_map_item list \<Rightarrow> ('k, 'v) sc_map_item \<Rightarrow> ('k, 'v) sc_map_item list option" where
  "remap_item kd md new t =
     (if mi_key t \<noteq> None
      then Option.bind (walk (\<lambda>x. mi_key x = None) new md (unat (sc_map_hashof kd t) AND md))
             (\<lambda>pos. Some (new[pos := t]))
      else Some new)"

primrec remap_items ::
  "'k sc_map_kind \<Rightarrow> nat \<Rightarrow> ('k, 'v) sc_map_item list \<Rightarrow> ('k, 'v) sc_map_item list \<Rightarrow>
   ('k, 'v) sc_map_item list option" where
  "remap_items kd md new [] = Some new"
| "remap_items kd md new (t # ts) = Option.bind (remap_item kd md new t) (\<lambda>new. remap_items kd md new ts)"

definition sc_map_remap :: "'k sc_map_kind \<Rightarrow> ('k, 'v :: zero) sc_map \<Rightarrow> (bool \<times> ('k, 'v) sc_map) option" where
  "sc_map_remap kd m =
     (if mp_size m < mp_remap m then Some (True, m)
      else case sc_map_alloc (mp_cap m) 2 of
        None \<Rightarrow> Some (False, m)
      | Some (new, cap) \<Rightarrow>
          Option.bind (remap_items kd (sub32 cap 1) new (take (mp_cap m) (mp_mem m)))
            (\<lambda>new. Some (True, m\<lparr>mp_mem := new, mp_zero := if mp_static m then 0 else mp_zero m, mp_static := False,
                                   mp_cap := cap, mp_remap := map_limit cap (mp_load_fac m)\<rparr>)))"

definition map_find :: "'k sc_map_kind \<Rightarrow> ('k, 'v) sc_map \<Rightarrow> 'k \<Rightarrow> nat option" where
  "map_find kd m key =
     (let md = sub32 (mp_cap m) 1; h = kd_hash kd key
      in walk (\<lambda>t. mi_key t = None \<or> sc_map_cmp kd t key h) (mp_mem m) md (unat h AND md))"

definition sc_map_put ::
  "'k sc_map_kind \<Rightarrow> ('k, 'v :: zero) sc_map \<Rightarrow> 'k option \<Rightarrow> 'v \<Rightarrow> ('v \<times> ('k, 'v) sc_map) option" where
  "sc_map_put kd m key val =
     Option.bind (sc_map_remap kd (m\<lparr>mp_oom := False\<rparr>)) (\<lambda>(ok, m).
       if \<not> ok then Some (0, m\<lparr>mp_oom := True\<rparr>)
       else case key of
         None \<Rightarrow>
           Some (if mp_used m then mp_zero m else 0,
                 m\<lparr>mp_found := mp_used m, mp_size := add32 (mp_size m) (of_bool (\<not> mp_used m)),
                   mp_used := True, mp_zero := val\<rparr>)
       | Some k \<Rightarrow>
           Option.bind (map_find kd m k) (\<lambda>pos.
             let t = mp_mem m ! pos;
                 m = if mi_key t = None then m\<lparr>mp_size := add32 (mp_size m) 1\<rparr> else m;
                 m = m\<lparr>mp_found := (mi_key t \<noteq> None)\<rparr>
             in Some (if mp_found m then mi_value t else 0,
                      m\<lparr>mp_mem := (mp_mem m)[pos := sc_map_assign kd t k val (kd_hash kd k)]\<rparr>)))"

definition sc_map_get ::
  "'k sc_map_kind \<Rightarrow> ('k, 'v :: zero) sc_map \<Rightarrow> 'k option \<Rightarrow> ('v \<times> ('k, 'v) sc_map) option" where
  "sc_map_get kd m key =
     (case key of
        None \<Rightarrow> Some (if mp_used m then mp_zero m else 0, m\<lparr>mp_found := mp_used m\<rparr>)
      | Some k \<Rightarrow>
          Option.bind (map_find kd m k) (\<lambda>pos.
            let t = mp_mem m ! pos
            in if mi_key t = None then Some (0, m\<lparr>mp_found := False\<rparr>)
               else Some (mi_value t, m\<lparr>mp_found := True\<rparr>)))"

text \<open>The inner loop of a deletion: \<open>prev\<close> is the hole, \<open>it\<close> the position looked at last.\<close>

partial_function (option) map_shift ::
  "'k sc_map_kind \<Rightarrow> nat \<Rightarrow> ('k, 'v) sc_map_item list \<Rightarrow> nat \<Rightarrow> nat \<Rightarrow> ('k, 'v) sc_map_item list option" where
  "map_shift kd md mem prev it =
     (let it = add32 it 1 AND md
      in if length mem \<le> it then None
         else if mi_key (mem ! it) = None then Some mem
         else let p = unat (sc_map_hashof kd (mem ! it)) AND md
              in if p > it \<and> (p \<le> prev \<or> it \<ge> prev) \<or> p \<le> prev \<and> it \<ge> prev
                 then let mem = mem[prev := mem ! it];
                          mem = mem[it := (mem ! it)\<lparr>mi_key := None\<rparr>]
                      in map_shift kd md mem it it
                 else map_shift kd md mem prev it)"

definition sc_map_del ::
  "'k sc_map_kind \<Rightarrow> ('k, 'v :: zero) sc_map \<Rightarrow> 'k option \<Rightarrow> ('v \<times> ('k, 'v) sc_map) option" where
  "sc_map_del kd m key =
     (case key of
        None \<Rightarrow>
          (let m = m\<lparr>mp_found := mp_used m, mp_size := sub32 (mp_size m) (of_bool (mp_used m)), mp_used := False\<rparr>
           in Some (if mp_found m then mp_zero m else 0, m))
      | Some k \<Rightarrow>
          Option.bind (map_find kd m k) (\<lambda>pos.
            let t = mp_mem m ! pos
            in if mi_key t = None then Some (0, m\<lparr>mp_found := False\<rparr>)
               else Option.bind (map_shift kd (sub32 (mp_cap m) 1) ((mp_mem m)[pos := t\<lparr>mi_key := None\<rparr>]) pos pos)
                      (\<lambda>mem. Some (mi_value t, m\<lparr>mp_found := True, mp_size := sub32 (mp_size m) 1, mp_mem := mem\<rparr>))))"

text \<open>
  What the \<^verbatim>\<open>sc_map_foreach\<close> loops visit, in their order, when the body does not change the map.
\<close>

definition sc_map_foreach :: "('k, 'v) sc_map \<Rightarrow> ('k option \<times> 'v) list" where
  "sc_map_foreach m =
     (if mp_used m then [(None, mp_zero m)] else []) @
     map (\<lambda>t. (mi_key t, mi_value t)) (filter (\<lambda>t. mi_key t \<noteq> None) (take (mp_cap m) (mp_mem m)))"

section \<open>The hash functions\<close>

definition sc_map_hash_32 :: "u32 \<Rightarrow> u32" where
  "sc_map_hash_32 a = a"

definition sc_map_hash_64 :: "u64 \<Rightarrow> u32" where
  "sc_map_hash_64 a = ucast a XOR ucast (drop_bit 32 a)"

definition murmur_m :: u64 where
  "murmur_m = 0xc6a4a7935bd1e995"

fun murmur_blocks :: "u64 \<Rightarrow> bytes \<Rightarrow> u64" where
  "murmur_blocks h p =
     (if length p < 8 then h
      else let k = de64 p * murmur_m;
               k = k XOR drop_bit 47 k;
               k = k * murmur_m
           in murmur_blocks ((h XOR k) * murmur_m) (drop 8 p))"

text \<open>The cases of the switch fall through: byte \<open>n\<close> of the rest, then the ones before it.\<close>

primrec murmur_rest :: "u64 \<Rightarrow> bytes \<Rightarrow> nat \<Rightarrow> u64" where
  "murmur_rest h p 0 = h"
| "murmur_rest h p (Suc n) = murmur_rest (h XOR push_bit (8 * n) (ucast (p ! n))) p n"

definition murmurhash :: "cstring \<Rightarrow> u32" where
  "murmurhash key =
     (let n = length key;
          h = murmur_blocks (word_of_nat n * murmur_m) key;
          p = drop (n - n mod 8) key;
          h = if n mod 8 = 0 then h else murmur_rest h p (n mod 8) * murmur_m;
          h = h XOR drop_bit 47 h;
          h = h * murmur_m;
          h = h XOR drop_bit 47 h
      in ucast h)"

text \<open>The maps of the program: by 64-bit number and by name.\<close>

definition kind_64 :: "u64 sc_map_kind" where
  "kind_64 = \<lparr>kd_str = False, kd_hash = sc_map_hash_64\<rparr>"

definition kind_str :: "cstring sc_map_kind" where
  "kind_str = \<lparr>kd_str = True, kd_hash = murmurhash\<rparr>"

definition key_64 :: "u64 \<Rightarrow> u64 option" where
  "key_64 k = (if k = 0 then None else Some k)"

declare murmur_blocks.simps [simp del]

section \<open>Positions on the circle\<close>

text \<open>The number of steps from one position to another.\<close>

definition dst :: "nat \<Rightarrow> nat \<Rightarrow> nat \<Rightarrow> nat" where
  "dst n a b = (if a \<le> b then b - a else b + n - a)"

lemma dst_less: "a < n \<Longrightarrow> b < n \<Longrightarrow> dst n a b < n"
  by (auto simp: dst_def)

lemma dst_self [simp]: "dst n a a = 0"
  by (simp add: dst_def)

lemma at_dst: "a < n \<Longrightarrow> b < n \<Longrightarrow> (a + dst n a b) mod n = b"
  by (auto simp: dst_def)

lemma mod_step: "(a :: nat) < n \<Longrightarrow> d < n \<Longrightarrow> (a + d) mod n = (if a + d < n then a + d else a + d - n)"
  by (auto simp: le_mod_geq not_less)

lemma dst_at: "a < n \<Longrightarrow> d < n \<Longrightarrow> dst n a ((a + d) mod n) = d"
  by (auto simp: mod_step dst_def)

lemma dst_inj: "a < n \<Longrightarrow> b < n \<Longrightarrow> c < n \<Longrightarrow> dst n a b = dst n a c \<Longrightarrow> b = c"
  by (metis at_dst)

lemma and_mask_mod: "x AND (2 ^ e - 1) = (x :: nat) mod 2 ^ e"
  by (metis mask_eq_exp_minus_1 take_bit_eq_mask take_bit_eq_mod)

lemma next_pos:
  assumes "n = 2 ^ e" "e \<le> 31" "pos < n"
  shows "add32 pos 1 AND sub32 n 1 = (pos + 1) mod n" "x AND sub32 n 1 = x mod n"
proof -
  have "(2::nat) ^ e \<le> 2 ^ 31" using assms(2) by (intro power_increasing) simp_all
  then have n: "n \<le> 2 ^ 31" "0 < n" using assms by simp_all
  then have "sub32 n 1 = 2 ^ e - 1" "add32 pos 1 = pos + 1" using assms(1,3) by simp_all
  then show "add32 pos 1 AND sub32 n 1 = (pos + 1) mod n" "x AND sub32 n 1 = x mod n"
    using and_mask_mod assms(1) by simp_all
qed

text \<open>The test of a deletion: the hole is on the way from the home of an item to its position.\<close>

lemma hole_on_the_way:
  assumes "p < n" "prev < n" "it < n" "it \<noteq> prev"
  shows "(p > it \<and> (p \<le> prev \<or> it \<ge> prev) \<or> p \<le> prev \<and> it \<ge> prev) \<longleftrightarrow> dst n p prev < dst n p it"
  using assms by (auto simp: dst_def)

section \<open>Searching\<close>

lemma walk_finds:
  assumes n: "length mem = n" "n = 2 ^ e" "e \<le> 31" and a: "a < n" and i: "i < n" "stop (mem ! i)"
  shows "\<exists>d < n. walk stop mem (sub32 n 1) a = Some ((a + d) mod n) \<and> stop (mem ! ((a + d) mod n)) \<and>
    (\<forall>d' < d. \<not> stop (mem ! ((a + d') mod n)))"
proof -
  define D where "D = (LEAST d. stop (mem ! ((a + d) mod n)))"
  have ex: "stop (mem ! ((a + dst n a i) mod n))" using at_dst [OF a i(1)] i(2) by simp
  have D: "stop (mem ! ((a + D) mod n))" unfolding D_def by (rule LeastI) (rule ex)
  have lt: "D < n" using Least_le [of "\<lambda>d. stop (mem ! ((a + d) mod n))", OF ex] dst_less [OF a i(1)]
    unfolding D_def by linarith
  have no: "\<not> stop (mem ! ((a + d') mod n))" if "d' < D" for d' using that not_less_Least unfolding D_def by blast
  have "d \<le> D \<Longrightarrow> walk stop mem (sub32 n 1) ((a + d) mod n) = Some ((a + D) mod n)" for d
  proof (induction d rule: inc_induct)
    case base
    have "(a + D) mod n < length mem" using a n(1) by simp
    then show ?case using D by (subst walk.simps) simp
  next
    case (step d)
    have "add32 ((a + d) mod n) 1 AND sub32 n 1 = (a + Suc d) mod n"
      using a by (simp add: next_pos(1) [OF n(2,3), simplified] mod_Suc_eq)
    moreover have "(a + d) mod n < length mem" using a n(1) by simp
    ultimately show ?case using step no [OF step.hyps(2)] by (subst walk.simps) simp
  qed
  from this [of 0] show ?thesis using D lt no a by auto
qed

section \<open>Tables\<close>

definition uniq :: "('k, 'v) sc_map_item list \<Rightarrow> bool" where
  "uniq mem \<longleftrightarrow> (\<forall>i < length mem. \<forall>j < length mem. \<forall>k.
     mi_key (mem ! i) = Some k \<and> mi_key (mem ! j) = Some k \<longrightarrow> i = j)"

definition home :: "'k sc_map_kind \<Rightarrow> nat \<Rightarrow> 'k \<Rightarrow> nat" where
  "home kd n k = unat (kd_hash kd k) mod n"

text \<open>From the home of an item to the item, the slots are taken, those of \<open>X\<close> apart.\<close>

definition placed :: "'k sc_map_kind \<Rightarrow> ('k, 'v) sc_map_item list \<Rightarrow> nat set \<Rightarrow> bool" where
  "placed kd mem X \<longleftrightarrow> (\<forall>i < length mem. \<forall>k. mi_key (mem ! i) = Some k \<longrightarrow>
     (\<forall>d < dst (length mem) (home kd (length mem) k) i.
        mi_key (mem ! ((home kd (length mem) k + d) mod length mem)) \<noteq> None \<or>
        (home kd (length mem) k + d) mod length mem \<in> X))"

lemma placedD:
  assumes "placed kd mem X" "i < length mem" "mi_key (mem ! i) = Some k" "d < dst (length mem) (home kd (length mem) k) i"
  shows "mi_key (mem ! ((home kd (length mem) k + d) mod length mem)) \<noteq> None \<or>
    (home kd (length mem) k + d) mod length mem \<in> X"
  using assms unfolding placed_def by blast

definition hashed :: "'k sc_map_kind \<Rightarrow> ('k, 'v) sc_map_item list \<Rightarrow> bool" where
  "hashed kd mem \<longleftrightarrow> (kd_str kd \<longrightarrow> (\<forall>i < length mem. \<forall>k. mi_key (mem ! i) = Some k \<longrightarrow> mi_hash (mem ! i) = kd_hash kd k))"

abbreviation table :: "'k sc_map_kind \<Rightarrow> ('k, 'v) sc_map_item list \<Rightarrow> bool" where
  "table kd mem \<equiv> uniq mem \<and> placed kd mem {} \<and> hashed kd mem"

definition live :: "('k, 'v) sc_map_item list \<Rightarrow> ('k, 'v) sc_map_item multiset" where
  "live mem = filter_mset (\<lambda>t. mi_key t \<noteq> None) (mset mem)"

lemma live_update:
  assumes "i < length mem"
  shows "live (mem[i := t]) =
    (if mi_key t \<noteq> None then {#t#} else {#}) + (live mem - (if mi_key (mem ! i) \<noteq> None then {#mem ! i#} else {#}))"
  using assms by (simp add: live_def mset_update)

lemma live_size_update:
  assumes "i < length mem" "mi_key t \<noteq> None"
  shows "size (live (mem[i := t])) = (if mi_key (mem ! i) = None then Suc (size (live mem)) else size (live mem))"
proof (cases "mi_key (mem ! i) = None")
  case False
  then have "mem ! i \<in># live mem" using assms(1) by (auto simp: live_def)
  from size_Suc_Diff1 [OF this] show ?thesis using False live_update [OF assms(1), of t] assms(2) by simp
qed (use live_update [OF assms(1), of t] assms(2) in simp)

lemma live_iff: "t \<in># live mem \<longleftrightarrow> (\<exists>i < length mem. mem ! i = t \<and> mi_key t \<noteq> None)"
  by (auto simp: live_def in_set_conv_nth)

lemma live_in: "i < length mem \<Longrightarrow> mi_key (mem ! i) \<noteq> None \<Longrightarrow> mem ! i \<in># live mem"
  by (auto simp: live_iff)

lemma free_slot:
  assumes "size (live mem) < length mem"
  obtains i where "i < length mem" "mi_key (mem ! i) = None"
proof -
  have "\<exists>t \<in> set mem. mi_key t = None"
  proof (rule ccontr)
    assume "\<not> ?thesis"
    then have "filter (\<lambda>t. mi_key t \<noteq> None) mem = mem" by (auto intro: filter_True)
    then have "size (live mem) = length mem" unfolding live_def by (metis mset_filter size_mset)
    then show False using assms by simp
  qed
  then show thesis using that by (auto simp: in_set_conv_nth)
qed

lemma cmp_key:
  assumes "hashed kd mem" "i < length mem"
  shows "sc_map_cmp kd (mem ! i) k (kd_hash kd k) \<longleftrightarrow> mi_key (mem ! i) = Some k"
  using assms by (auto simp: sc_map_cmp_def hashed_def)

lemma hashof_key:
  assumes "hashed kd mem" "i < length mem" "mi_key (mem ! i) = Some k"
  shows "sc_map_hashof kd (mem ! i) = kd_hash kd k"
  using assms by (auto simp: sc_map_hashof_def hashed_def)

text \<open>A search for a key ends at its item, or at a free slot if there is none.\<close>

definition free_for :: "'k sc_map_kind \<Rightarrow> ('k, 'v) sc_map_item list \<Rightarrow> 'k \<Rightarrow> nat \<Rightarrow> bool" where
  "free_for kd mem k pos \<longleftrightarrow>
     (\<forall>d < dst (length mem) (home kd (length mem) k) pos. mi_key (mem ! ((home kd (length mem) k + d) mod length mem)) \<noteq> None)"

lemma home_less: "0 < n \<Longrightarrow> home kd n k < n"
  by (simp add: home_def)

lemma find_ends:
  assumes m: "length (mp_mem m) = mp_cap m" "mp_cap m = 2 ^ e" "e \<le> 31"
    and t: "table kd (mp_mem m)" and f: "size (live (mp_mem m)) < mp_cap m"
  obtains pos where "map_find kd m k = Some pos" "pos < mp_cap m" "free_for kd (mp_mem m) k pos"
    "mi_key (mp_mem m ! pos) = Some k \<or>
     mi_key (mp_mem m ! pos) = None \<and> (\<forall>i < mp_cap m. mi_key (mp_mem m ! i) \<noteq> Some k)"
proof -
  let ?mem = "mp_mem m" and ?n = "mp_cap m"
  let ?stop = "\<lambda>t. mi_key t = None \<or> sc_map_cmp kd t k (kd_hash kd k)"
  let ?h = "home kd ?n k"
  have n0: "0 < ?n" using m(2) by simp
  have h: "?h < ?n" using home_less [OF n0] .
  obtain i where i: "i < ?n" "mi_key (?mem ! i) = None" using free_slot [of ?mem] f m(1) by auto
  obtain d where d: "d < ?n" "walk ?stop ?mem (sub32 ?n 1) ?h = Some ((?h + d) mod ?n)"
    "?stop (?mem ! ((?h + d) mod ?n))" "\<And>d'. d' < d \<Longrightarrow> \<not> ?stop (?mem ! ((?h + d') mod ?n))"
    using walk_finds [OF m h i(1), of ?stop] i(2) by blast
  let ?p = "(?h + d) mod ?n"
  have p: "?p < ?n" using n0 by simp
  have md: "unat (kd_hash kd k) AND sub32 ?n 1 = ?h" using next_pos(2) [OF m(2,3) n0] by (simp add: home_def)
  have cmp: "?stop (?mem ! j) \<longleftrightarrow> mi_key (?mem ! j) = None \<or> mi_key (?mem ! j) = Some k" if "j < ?n" for j
    using cmp_key [of kd ?mem j k] t that m(1) by simp
  have dp: "dst ?n ?h ?p = d" by (rule dst_at [OF h d(1)])
  show thesis
  proof (rule that)
    show "map_find kd m k = Some ?p" using d(2) md by (simp add: map_find_def Let_def)
    show "?p < ?n" by (rule p)
    show "free_for kd ?mem k ?p" using d(4) dp m(1) by (auto simp: free_for_def)
    show "mi_key (?mem ! ?p) = Some k \<or> mi_key (?mem ! ?p) = None \<and> (\<forall>i < ?n. mi_key (?mem ! i) \<noteq> Some k)"
    proof (cases "mi_key (?mem ! ?p) = None")
      case True
      have "mi_key (?mem ! j) \<noteq> Some k" if j: "j < ?n" for j
      proof
        assume k: "mi_key (?mem ! j) = Some k"
        let ?q = "dst ?n ?h j"
        have at: "(?h + ?q) mod ?n = j" by (rule at_dst [OF h j])
        consider "?q < d" | "?q = d" | "d < ?q" by linarith
        then show False
        proof cases
          case 1
          then show ?thesis using d(4) [OF 1] at cmp [OF j] k by simp
        next
          case 2
          then show ?thesis using at k True by simp
        next
          case 3
          then have "mi_key (?mem ! ?p) \<noteq> None" using t j k m(1) by (auto simp: placed_def)
          then show ?thesis using True by simp
        qed
      qed
      then show ?thesis using True by blast
    next
      case False
      then show ?thesis using d(3) unfolding cmp [OF p] by (elim disjE) simp_all
    qed
  qed
qed

section \<open>Storing an item\<close>

lemma update_table:
  assumes t: "table kd mem" and p: "pos < length mem" "free_for kd mem k pos"
    and k: "mi_key (mem ! pos) = Some k \<or> mi_key (mem ! pos) = None \<and> (\<forall>i < length mem. mi_key (mem ! i) \<noteq> Some k)"
    and x: "mi_key x = Some k" "kd_str kd \<Longrightarrow> mi_hash x = kd_hash kd k"
  shows "table kd (mem[pos := x])"
proof (intro conjI)
  have other: "mi_key (mem ! i) \<noteq> Some k" if "i < length mem" "i \<noteq> pos" for i
    using t k p(1) that by (auto simp: uniq_def)
  show "uniq (mem[pos := x])"
    unfolding uniq_def
  proof (intro allI impI)
    fix i j k'
    assume i: "i < length (mem[pos := x])" and j: "j < length (mem[pos := x])"
      and e: "mi_key (mem[pos := x] ! i) = Some k' \<and> mi_key (mem[pos := x] ! j) = Some k'"
    show "i = j" using t e i j other x(1) by (cases "i = pos"; cases "j = pos") (auto simp: uniq_def)
  qed
  show "placed kd (mem[pos := x]) {}"
    unfolding placed_def
  proof (intro allI impI)
    fix i k' d
    assume i: "i < length (mem[pos := x])" and e: "mi_key (mem[pos := x] ! i) = Some k'"
      and d: "d < dst (length (mem[pos := x])) (home kd (length (mem[pos := x])) k') i"
    let ?q = "(home kd (length mem) k' + d) mod length mem"
    have "mi_key (mem ! ?q) \<noteq> None"
    proof (cases "i = pos")
      case True
      then show ?thesis using e d p x(1) by (simp add: free_for_def)
    next
      case False
      then show ?thesis using t e d i by (auto simp: placed_def)
    qed
    then show "mi_key (mem[pos := x] ! ((home kd (length (mem[pos := x])) k' + d) mod length (mem[pos := x]))) \<noteq> None \<or>
        (home kd (length (mem[pos := x])) k' + d) mod length (mem[pos := x]) \<in> {}"
      using x(1) p(1) by (cases "?q = pos") auto
  qed
  show "hashed kd (mem[pos := x])"
    unfolding hashed_def
  proof (intro impI allI)
    fix i k'
    assume "kd_str kd" "i < length (mem[pos := x])" "mi_key (mem[pos := x] ! i) = Some k'"
    then show "mi_hash (mem[pos := x] ! i) = kd_hash kd k'"
      using t x by (cases "i = pos") (auto simp: hashed_def)
  qed
qed

section \<open>Growing\<close>

lemma walk_free:
  assumes n: "length mem = n" "n = 2 ^ e" "e \<le> 31" and f: "size (live mem) < n"
  obtains pos where "walk (\<lambda>x. mi_key x = None) mem (sub32 n 1) (home kd n k) = Some pos" "pos < n"
    "free_for kd mem k pos" "mi_key (mem ! pos) = None"
proof -
  have n0: "0 < n" using n(2) by simp
  have h: "home kd n k < n" using home_less [OF n0] .
  obtain i where i: "i < n" "mi_key (mem ! i) = None" using free_slot [of mem] f n(1) by auto
  obtain d where d: "d < n" "walk (\<lambda>x. mi_key x = None) mem (sub32 n 1) (home kd n k) = Some ((home kd n k + d) mod n)"
    "mi_key (mem ! ((home kd n k + d) mod n)) = None" "\<And>d'. d' < d \<Longrightarrow> mi_key (mem ! ((home kd n k + d') mod n)) \<noteq> None"
    using walk_finds [OF n h i(1), of "\<lambda>x. mi_key x = None"] i(2) by blast
  show thesis
  proof (rule that [OF d(2) _ _ d(3)])
    show "(home kd n k + d) mod n < n" using n0 by simp
    show "free_for kd mem k ((home kd n k + d) mod n)"
      using d(4) dst_at [OF h d(1)] n(1) by (auto simp: free_for_def)
  qed
qed

lemma remap_item_table:
  assumes n: "length new = n" "n = 2 ^ e" "e \<le> 31" and t: "table kd new" and f: "size (live new) < n"
    and x: "mi_key x = Some k" "kd_str kd \<Longrightarrow> mi_hash x = kd_hash kd k" "\<forall>i < n. mi_key (new ! i) \<noteq> Some k"
  shows "\<exists>new'. remap_item kd (sub32 n 1) new x = Some new' \<and> length new' = n \<and> table kd new' \<and>
    live new' = add_mset x (live new)"
proof -
  have n0: "0 < n" using n(2) by simp
  obtain pos where pos: "walk (\<lambda>x. mi_key x = None) new (sub32 n 1) (home kd n k) = Some pos" "pos < n"
    "free_for kd new k pos" "mi_key (new ! pos) = None"
    using walk_free [OF n f, of kd k] by blast
  have "unat (sc_map_hashof kd x) AND sub32 n 1 = home kd n k"
    using next_pos(2) [OF n(2,3) n0] x by (simp add: home_def sc_map_hashof_def)
  then have "remap_item kd (sub32 n 1) new x = Some (new[pos := x])" using pos(1) x(1) by (simp add: remap_item_def)
  moreover have "table kd (new[pos := x])"
    using update_table [OF t _ pos(3) _ x(1,2)] pos(2,4) x(3) n(1) by simp
  moreover have "live (new[pos := x]) = add_mset x (live new)" using live_update [of pos new x] pos(2,4) x(1) n(1) by simp
  ultimately show ?thesis using n(1) by simp
qed

lemma uniq_Cons:
  assumes "uniq (t # ts)"
  shows "uniq ts" and "mi_key t = Some k \<Longrightarrow> i < length ts \<Longrightarrow> mi_key (ts ! i) \<noteq> Some k"
proof -
  have u: "i = j" if "i < Suc (length ts)" "j < Suc (length ts)" "mi_key ((t # ts) ! i) = Some k"
    "mi_key ((t # ts) ! j) = Some k" for i j k
    using assms that unfolding uniq_def by auto
  show "uniq ts" unfolding uniq_def using u [of "Suc i" "Suc j" for i j] by auto
  show "mi_key (ts ! i) \<noteq> Some k" if "mi_key t = Some k" "i < length ts"
    using u [of 0 "Suc i" k] that by auto
qed

lemma hashed_Cons:
  assumes "hashed kd (t # ts)"
  shows "hashed kd ts" and "kd_str kd \<Longrightarrow> mi_key t = Some k \<Longrightarrow> mi_hash t = kd_hash kd k"
proof -
  have h: "mi_hash ((t # ts) ! i) = kd_hash kd k" if "kd_str kd" "i < Suc (length ts)" "mi_key ((t # ts) ! i) = Some k" for i k
    using assms that unfolding hashed_def by auto
  show "hashed kd ts" unfolding hashed_def using h [of "Suc i" for i] by auto
  show "kd_str kd \<Longrightarrow> mi_key t = Some k \<Longrightarrow> mi_hash t = kd_hash kd k" using h [of 0 k] by simp
qed

lemma remap_items_table:
  assumes "length new = n" "n = 2 ^ e" "e \<le> 31" "table kd new" "uniq ts" "hashed kd ts"
    "size (live new) + size (live ts) < n"
    "\<And>i j k. i < length ts \<Longrightarrow> j < n \<Longrightarrow> mi_key (ts ! i) = Some k \<Longrightarrow> mi_key (new ! j) \<noteq> Some k"
  shows "\<exists>new'. remap_items kd (sub32 n 1) new ts = Some new' \<and> length new' = n \<and> table kd new' \<and>
    live new' = live new + live ts"
  using assms(1,4-)
proof (induction ts arbitrary: new)
  case (Cons x ts)
  note u = uniq_Cons [OF Cons.prems(3)] and h = hashed_Cons [OF Cons.prems(4)]
  show ?case
  proof (cases "mi_key x")
    case None
    have "mi_key (new ! j) \<noteq> Some k" if "i < length ts" "j < n" "mi_key (ts ! i) = Some k" for i j k
      using Cons.prems(6) [of "Suc i" j k] that by simp
    then show ?thesis
      using Cons.IH [OF Cons.prems(1,2) u(1) h(1)] Cons.prems(5) None by (simp add: remap_item_def live_def)
  next
    case (Some k)
    have lt: "live (x # ts) = add_mset x (live ts)" using Some by (simp add: live_def)
    have "size (live new) < n" using Cons.prems(5) lt by simp
    moreover have "\<forall>i < n. mi_key (new ! i) \<noteq> Some k" using Cons.prems(6) [of 0 _ k] Some by simp
    ultimately obtain new1 where 1: "remap_item kd (sub32 n 1) new x = Some new1" "length new1 = n" "table kd new1"
      "live new1 = add_mset x (live new)"
      using remap_item_table [OF Cons.prems(1) assms(2,3) Cons.prems(2) _ Some h(2)] Some by blast
    have "mi_key (new1 ! j) \<noteq> Some k'" if i: "i < length ts" and j: "j < n" and k': "mi_key (ts ! i) = Some k'" for i j k'
    proof
      assume e: "mi_key (new1 ! j) = Some k'"
      then have "new1 ! j \<in># add_mset x (live new)" using live_in [of j new1] j 1 by simp
      then consider "new1 ! j = x" | "new1 ! j \<in># live new" by auto
      then show False
      proof cases
        case 1
        then show ?thesis using u(2) [OF Some i] e Some k' by simp
      next
        case 2
        then obtain j' where "j' < n" "new ! j' = new1 ! j" using Cons.prems(1) by (auto simp: live_iff)
        then show ?thesis using Cons.prems(6) [of "Suc i" j' k'] i k' e by simp
      qed
    qed
    then show ?thesis
      using Cons.IH [OF 1(2,3) u(1) h(1)] Cons.prems(5) 1(1,4) lt by simp
  qed
qed (use assms in \<open>simp add: live_def\<close>)

section \<open>Deleting an item\<close>

lemma dst_add: "a < n \<Longrightarrow> b < n \<Longrightarrow> c < n \<Longrightarrow> dst n a b \<le> dst n a c \<Longrightarrow> dst n a c = dst n a b + dst n b c"
  by (auto simp: dst_def split: if_splits)

lemma dst_sum: "a < n \<Longrightarrow> b < n \<Longrightarrow> c < n \<Longrightarrow> dst n a b + dst n b c < n \<Longrightarrow> dst n a c = dst n a b + dst n b c"
  by (auto simp: dst_def split: if_splits)

lemma dst_next:
  assumes "a < n" "b < n"
  shows "(b + 1) mod n \<noteq> a \<Longrightarrow> dst n a ((b + 1) mod n) = Suc (dst n a b)"
    and "b \<noteq> a \<Longrightarrow> Suc (dst n ((b + 1) mod n) a) = dst n b a"
    and "(b + 1) mod n = a \<Longrightarrow> dst n a b = n - 1"
  using assms by (auto simp: dst_def mod_Suc split: if_splits)

text \<open>With the hole out of the way of every item the table has none.\<close>

lemma placed_no_hole:
  assumes "placed kd mem {prev}" "prev < length mem"
    and no: "\<And>i k. i < length mem \<Longrightarrow> mi_key (mem ! i) = Some k \<Longrightarrow>
      \<not> dst (length mem) (home kd (length mem) k) prev < dst (length mem) (home kd (length mem) k) i"
  shows "placed kd mem {}"
  unfolding placed_def
proof (intro allI impI)
  let ?n = "length mem"
  fix i k d
  assume i: "i < ?n" and k: "mi_key (mem ! i) = Some k" and d: "d < dst ?n (home kd ?n k) i"
  have h: "home kd ?n k < ?n" using i by (intro home_less) linarith
  have "(home kd ?n k + d) mod ?n \<noteq> prev"
    using no [OF i k] d dst_at [OF h, of d] dst_less [OF h i] by auto
  then show "mi_key (mem ! ((home kd ?n k + d) mod ?n)) \<noteq> None \<or> (home kd ?n k + d) mod ?n \<in> {}"
    using assms(1) i k d unfolding placed_def by blast
qed

lemma shift_stops:
  assumes p: "placed kd mem {prev}" and b: "prev < length mem" "it < length mem"
    and free: "mi_key (mem ! ((it + 1) mod length mem)) = None"
    and seen: "\<And>i k. i < length mem \<Longrightarrow> mi_key (mem ! i) = Some k \<Longrightarrow> dst (length mem) prev i \<le> dst (length mem) prev it \<Longrightarrow>
      \<not> dst (length mem) (home kd (length mem) k) prev < dst (length mem) (home kd (length mem) k) i"
  shows "placed kd mem {}"
proof (rule placed_no_hole [OF p b(1)], rule notI)
  let ?n = "length mem" and ?it = "(it + 1) mod length mem"
  fix i k
  let ?h = "home kd ?n k"
  assume i: "i < ?n" and k: "mi_key (mem ! i) = Some k" and way: "dst ?n ?h prev < dst ?n ?h i"
  have h: "?h < ?n" using i by (intro home_less) linarith
  have it: "?it < ?n" using b(2) by (intro mod_less_divisor) linarith
  have far: "dst ?n prev it < dst ?n prev i" using seen [OF i k] way by (meson not_le)
  then have np: "?it \<noteq> prev" using dst_next(3) [OF b(1,2)] dst_less [OF b(1) i] by auto
  have s: "dst ?n prev ?it = Suc (dst ?n prev it)" by (rule dst_next(1) [OF b np])
  have "i \<noteq> ?it" using free k by auto
  then have far2: "dst ?n prev ?it < dst ?n prev i" using far s dst_inj [OF b(1) i it] by linarith
  have sum: "dst ?n ?h i = dst ?n ?h prev + dst ?n prev i" using dst_add [OF h b(1) i] way by simp
  then have "dst ?n ?h ?it = dst ?n ?h prev + dst ?n prev ?it"
    using dst_sum [OF h b(1) it] far2 dst_less [OF h i] by simp
  then have "dst ?n ?h ?it < dst ?n ?h i" using sum far2 by simp
  then have "mi_key (mem ! ?it) \<noteq> None \<or> ?it = prev"
    using p i k at_dst [OF h it] unfolding placed_def by (metis singletonD)
  then show False using free np by simp
qed

text \<open>Moving the item at \<open>it\<close> to the hole makes \<open>it\<close> the hole.\<close>

definition move_back :: "('k, 'v) sc_map_item list \<Rightarrow> nat \<Rightarrow> nat \<Rightarrow> ('k, 'v) sc_map_item list" where
  "move_back mem prev it = mem[prev := mem ! it, it := (mem ! it)\<lparr>mi_key := None\<rparr>]"

lemma move_back_nth:
  assumes "prev < length mem" "it < length mem" "it \<noteq> prev"
  shows "length (move_back mem prev it) = length mem" "move_back mem prev it ! prev = mem ! it"
    "mi_key (move_back mem prev it ! it) = None"
    "i \<noteq> prev \<Longrightarrow> i \<noteq> it \<Longrightarrow> move_back mem prev it ! i = mem ! i"
  using assms by (simp_all add: move_back_def)

lemma move_back_live:
  assumes "prev < length mem" "it < length mem" "it \<noteq> prev" "mi_key (mem ! prev) = None" "mi_key (mem ! it) \<noteq> None"
  shows "live (move_back mem prev it) = live mem"
proof -
  have "mem ! it \<in># live mem" using assms(2,5) by (rule live_in)
  then show ?thesis
    using assms live_update [of prev mem "mem ! it"] live_update [of it "mem[prev := mem ! it]"]
    by (simp add: move_back_def)
qed

lemma move_back_key:
  assumes "prev < length mem" "it < length mem" "it \<noteq> prev" "i < length mem" "mi_key (move_back mem prev it ! i) = Some k"
  shows "i \<noteq> it" "mi_key (mem ! (if i = prev then it else i)) = Some k"
proof -
  note nth = move_back_nth [OF assms(1-3)]
  show ne: "i \<noteq> it" using assms(5) nth(3) by auto
  show "mi_key (mem ! (if i = prev then it else i)) = Some k"
    using assms(5) nth(2,4) ne by (cases "i = prev") simp_all
qed

lemma move_back_table:
  assumes b: "prev < length mem" "it < length mem" "it \<noteq> prev" and k: "mi_key (mem ! it) = Some k"
    and u: "uniq mem" "hashed kd mem" and p: "placed kd mem {prev}"
    and way: "dst (length mem) (home kd (length mem) k) prev < dst (length mem) (home kd (length mem) k) it"
  shows "uniq (move_back mem prev it)" "hashed kd (move_back mem prev it)" "placed kd (move_back mem prev it) {it}"
proof -
  let ?mem = "move_back mem prev it" and ?n = "length mem"
  note nth = move_back_nth [OF b] and key = move_back_key [OF b]
  show "uniq ?mem"
    unfolding uniq_def nth(1)
  proof (intro allI impI, elim conjE)
    fix i j k'
    assume i: "i < ?n" "mi_key (?mem ! i) = Some k'" and j: "j < ?n" "mi_key (?mem ! j) = Some k'"
    have "(if i = prev then it else i) < ?n" "(if j = prev then it else j) < ?n" using i(1) j(1) b(2) by simp_all
    then have "(if i = prev then it else i) = (if j = prev then it else j)"
      using u(1) key(2) [OF i] key(2) [OF j] unfolding uniq_def by blast
    then show "i = j" using key(1) [OF i] key(1) [OF j] by (auto split: if_splits)
  qed
  show "hashed kd ?mem"
    unfolding hashed_def nth(1)
  proof (intro allI impI)
    fix i k'
    assume a: "kd_str kd" "i < ?n" "mi_key (?mem ! i) = Some k'"
    then have "?mem ! i = mem ! (if i = prev then it else i)" using nth key(1) by auto
    then show "mi_hash (?mem ! i) = kd_hash kd k'"
      using u(2) a key(2) [OF a(2,3)] b(2) unfolding hashed_def by (auto split: if_splits)
  qed
  show "placed kd ?mem {it}"
    unfolding placed_def nth(1)
  proof (intro allI impI)
    fix i k' d
    let ?q = "(home kd ?n k' + d) mod ?n"
    assume i: "i < ?n" and k': "mi_key (?mem ! i) = Some k'" and d: "d < dst ?n (home kd ?n k') i"
    have h: "home kd ?n k' < ?n" using i by (intro home_less) linarith
    have "mi_key (mem ! ?q) \<noteq> None \<or> ?q = prev"
    proof (cases "i = prev")
      case True
      then have "k' = k" using key(2) [OF i k'] k by simp
      then have "d < dst ?n (home kd ?n k) it" using d True way by simp
      then show ?thesis using placedD [OF p b(2) k] \<open>k' = k\<close> by simp
    next
      case False
      then have "mi_key (mem ! i) = Some k'" using key(2) [OF i k'] by simp
      then show ?thesis using placedD [OF p i _ d] by simp
    qed
    then show "mi_key (?mem ! ?q) \<noteq> None \<or> ?q \<in> {it}"
      using nth k by (cases "?q = it"; cases "?q = prev") auto
  qed
qed

lemma map_shift_step:
  assumes "add32 it 1 AND md = q" "q < length mem" "unat (sc_map_hashof kd (mem ! q)) AND md = p"
  shows "mi_key (mem ! q) = None \<Longrightarrow> map_shift kd md mem prev it = Some mem"
    and "mi_key (mem ! q) \<noteq> None \<Longrightarrow> q \<noteq> prev \<Longrightarrow> p > q \<and> (p \<le> prev \<or> q \<ge> prev) \<or> p \<le> prev \<and> q \<ge> prev \<Longrightarrow>
      map_shift kd md mem prev it = map_shift kd md (move_back mem prev q) q q"
    and "mi_key (mem ! q) \<noteq> None \<Longrightarrow> \<not> (p > q \<and> (p \<le> prev \<or> q \<ge> prev) \<or> p \<le> prev \<and> q \<ge> prev) \<Longrightarrow>
      map_shift kd md mem prev it = map_shift kd md mem prev q"
proof -
  have u: "map_shift kd md mem prev it =
    (if length mem \<le> q then None
     else if mi_key (mem ! q) = None then Some mem
     else if p > q \<and> (p \<le> prev \<or> q \<ge> prev) \<or> p \<le> prev \<and> q \<ge> prev
     then map_shift kd md (mem[prev := mem ! q, q := (mem[prev := mem ! q] ! q)\<lparr>mi_key := None\<rparr>]) q q
     else map_shift kd md mem prev q)"
    by (subst map_shift.simps) (simp only: assms(1,3) Let_def)
  show "mi_key (mem ! q) = None \<Longrightarrow> map_shift kd md mem prev it = Some mem" using u assms(2) by simp
  show "map_shift kd md mem prev it = map_shift kd md (move_back mem prev q) q q"
    if "mi_key (mem ! q) \<noteq> None" "q \<noteq> prev" "p > q \<and> (p \<le> prev \<or> q \<ge> prev) \<or> p \<le> prev \<and> q \<ge> prev"
    unfolding u move_back_def if_not_P [OF that(1)] if_P [OF that(3)] using assms(2) that(2) by simp
  show "map_shift kd md mem prev it = map_shift kd md mem prev q"
    if "mi_key (mem ! q) \<noteq> None" "\<not> (p > q \<and> (p \<le> prev \<or> q \<ge> prev) \<or> p \<le> prev \<and> q \<ge> prev)"
    unfolding u if_not_P [OF that(1)] if_not_P [OF that(2)] using assms(2) by simp
qed

lemma shift_ends:
  assumes n: "length mem = n" "n = 2 ^ e" "e \<le> 31" and b: "prev < n" "it < n"
    and f: "f < n" "f \<noteq> prev" "f \<noteq> it" "mi_key (mem ! f) = None" and hole: "mi_key (mem ! prev) = None"
    and t: "uniq mem" "hashed kd mem" "placed kd mem {prev}"
    and seen: "\<And>i k. i < n \<Longrightarrow> mi_key (mem ! i) = Some k \<Longrightarrow> dst n prev i \<le> dst n prev it \<Longrightarrow>
      \<not> dst n (home kd n k) prev < dst n (home kd n k) i"
  shows "\<exists>mem'. map_shift kd (sub32 n 1) mem prev it = Some mem' \<and> length mem' = n \<and> table kd mem' \<and> live mem' = live mem"
  using n(1) b f hole t seen
proof (induction "dst n it f" arbitrary: mem prev it rule: less_induct)
  case less
  let ?it = "(it + 1) mod n"
  have it: "?it < n" using n(2) by simp
  have nx: "add32 it 1 AND sub32 n 1 = ?it" by (rule next_pos(1) [OF n(2,3) less.prems(3)])
  have len: "prev < length mem" "?it < length mem" using less.prems(1,2) it by simp_all
  note step = map_shift_step [OF nx len(2)]
  have closer: "dst n ?it f < dst n it f" using dst_next(2) [OF less.prems(4,3)] less.prems(6) by simp
  show ?case
  proof (cases "mi_key (mem ! ?it)")
    case None
    then have "placed kd mem {}"
      using shift_stops [OF less.prems(11), of it] less.prems(1-3,12) by simp
    then show ?thesis using step(1) [OF refl None] less.prems(1,9,10) by blast
  next
    case (Some k)
    let ?h = "home kd n k"
    have h: "?h < n" using n(2) by (intro home_less) simp
    have np: "?it \<noteq> prev" "f \<noteq> ?it" using Some less.prems(7,8) by auto
    have p: "unat (sc_map_hashof kd (mem ! ?it)) AND sub32 n 1 = ?h"
      using hashof_key [OF less.prems(10) _ Some] it less.prems(1) next_pos(2) [OF n(2,3) it] by (simp add: home_def)
    note test = hole_on_the_way [OF h less.prems(2) it np(1)]
    note bm = len np(1)
    show ?thesis
    proof (cases "dst n ?h prev < dst n ?h ?it")
      case True
      have eq: "map_shift kd (sub32 n 1) mem prev it = map_shift kd (sub32 n 1) (move_back mem prev ?it) ?it ?it"
        by (rule step(2) [OF p _ np(1)]) (use Some True test in auto)
      let ?mem = "move_back mem prev ?it"
      note nth = move_back_nth [OF bm]
      note tb = move_back_table [OF bm Some less.prems(9,10,11), unfolded less.prems(1), OF True]
      have free: "mi_key (?mem ! f) = None" using nth(4) [OF less.prems(5) np(2)] less.prems(7) by simp
      have dn: "\<not> dst n (home kd n k') ?it < dst n (home kd n k') i"
        if "i < n" "mi_key (?mem ! i) = Some k'" "dst n ?it i \<le> dst n ?it ?it" for i k'
      proof -
        have "i = ?it" using that(3) dst_inj [OF it that(1) it] unfolding dst_self by linarith
        then show ?thesis using nth(3) that(2) by simp
      qed
      have "\<exists>mem'. map_shift kd (sub32 n 1) ?mem ?it ?it = Some mem' \<and> length mem' = n \<and> table kd mem' \<and>
          live mem' = live ?mem"
        by (rule less.hyps [OF closer nth(1)[unfolded less.prems(1)] it it less.prems(4) np(2) np(2) free nth(3) tb])
           (rule dn)
      then show ?thesis using eq move_back_live [OF bm less.prems(8)] Some by simp
    next
      case False
      have eq: "map_shift kd (sub32 n 1) mem prev it = map_shift kd (sub32 n 1) mem prev ?it"
        by (rule step(3) [OF p]) (use Some False test in auto)
      have "\<not> dst n (home kd n k') prev < dst n (home kd n k') i"
        if i: "i < n" and k': "mi_key (mem ! i) = Some k'" and d: "dst n prev i \<le> dst n prev ?it" for i k'
      proof (cases "i = ?it")
        case True
        then show ?thesis using False k' Some by simp
      next
        case no: False
        then have "dst n prev i \<le> dst n prev it"
          using d dst_next(1) [OF less.prems(2,3) np(1)] dst_inj [OF less.prems(2) i it] by linarith
        then show ?thesis using less.prems(12) [OF i k'] by blast
      qed
      then show ?thesis
        unfolding eq using less.hyps [OF closer less.prems(1,2) it less.prems(4,5) np(2) less.prems(7-11)] by blast
    qed
  qed
qed

section \<open>The invariant\<close>

definition map_inv :: "'k sc_map_kind \<Rightarrow> ('k, 'v) sc_map \<Rightarrow> bool" where
  "map_inv kd m \<longleftrightarrow>
     (\<exists>e \<le> 31. mp_cap m = 2 ^ e) \<and> length (mp_mem m) = mp_cap m \<and> table kd (mp_mem m) \<and>
     mp_size m = size (live (mp_mem m)) + of_bool (mp_used m) \<and> mp_size m \<le> mp_remap m \<and> mp_remap m < mp_cap m \<and>
     25 \<le> mp_load_fac m \<and> mp_load_fac m \<le> 95 \<and>
     (if mp_static m then mp_remap m = 0 \<and> mp_cap m = 1 else 8 \<le> mp_cap m \<and> mp_remap m = map_limit (mp_cap m) (mp_load_fac m))"

lemma map_invD:
  assumes "map_inv kd m"
  obtains e where "mp_cap m = 2 ^ e" "e \<le> 31" "length (mp_mem m) = mp_cap m" "table kd (mp_mem m)"
    "size (live (mp_mem m)) < mp_cap m" "mp_size m = size (live (mp_mem m)) + of_bool (mp_used m)"
  using assms unfolding map_inv_def by fastforce

lemma map_smear_bits: "bit (map_smear s) k \<longleftrightarrow> (\<exists>j \<ge> k. bit s j)"
proof -
  have 0: "bit s k \<longleftrightarrow> (\<exists>i < 1. bit s (k + i))" for k by simp
  have "bit (map_smear s) k \<longleftrightarrow> (\<exists>i < 32. bit s (k + i))"
    unfolding map_smear_def Let_def
    using smear_step [OF smear_step [OF smear_step [OF smear_step [OF smear_step [OF 0]]]], of k] by simp
  also have "\<dots> \<longleftrightarrow> (\<exists>j \<ge> k. bit s j)"
  proof
    assume "\<exists>j \<ge> k. bit s j"
    then obtain j where j: "k \<le> j" "bit s j" by blast
    have "j < 32" using bit_imp_le_length [OF j(2)] by simp
    then show "\<exists>i < 32. bit s (k + i)" using j by (intro exI [of _ "j - k"]) simp
  qed (metis le_add1)
  finally show ?thesis .
qed

text \<open>The capacity of a new array: the least power of two, at least eight, that is large enough.\<close>

lemma sc_map_alloc_pow2:
  assumes "0 < factor" "cap * factor \<le> 2 ^ 31"
  obtains e where "e \<le> 31" "sc_map_alloc cap factor = Some (replicate (2 ^ e) empty_item, 2 ^ e)" "(8 :: nat) \<le> 2 ^ e"
    "8 \<le> cap \<Longrightarrow> cap * factor \<le> 2 ^ e"
proof -
  define w :: u32 where "w = (if cap < 8 then 8 else word_of_nat (cap * factor))"
  have le: "cap \<le> cap * factor" using assms(1) by simp
  have w: "unat w = (if cap < 8 then 8 else cap * factor)"
    using assms(2) unat_word_of_nat_small(1) [of "cap * factor"] by (simp add: w_def)
  have w8: "8 \<le> unat w" 
  proof (cases "cap < 8")
    case False
    then have "8 \<le> cap * factor" using le by linarith
    then show ?thesis using w False by simp
  qed (simp add: w)
  have w31: "unat w \<le> 2 ^ 31" using w assms(2) by (cases "cap < 8") simp_all
  have "1 < unat w" "unat w \<le> 2 ^ (LENGTH(32) - 1)" using w8 w31 by simp_all
  from smear_pow2 [OF this map_smear_bits]
  obtain h where h: "unat (map_smear (w - 1) + 1) = 2 ^ Suc h" "2 ^ h < unat w" "unat w \<le> 2 ^ Suc h" by blast
  have "(2 :: nat) ^ h < 2 ^ 31" using h(2) w31 by linarith
  then have "h < 31" by (simp only: power_strict_increasing_iff)
  then have e: "Suc h \<le> 31" by simp
  have "\<not> cap > UINT32_MAX div factor" using assms by (simp add: not_less less_eq_div_iff_mult_less_eq)
  then have "sc_map_alloc cap factor = Some (replicate (2 ^ Suc h) empty_item, 2 ^ Suc h)"
    unfolding sc_map_alloc_def w_def [symmetric] Let_def h(1) by (simp only: if_False)
  moreover have "8 \<le> (2 :: nat) ^ Suc h" using h(3) w8 by linarith
  moreover have "cap * factor \<le> 2 ^ Suc h" if "8 \<le> cap" using h(3) w that by simp
  ultimately show thesis using that e by blast
qed

lemma empty_table [simp]: "table kd (replicate n empty_item)" "live (replicate n empty_item) = {#}"
  by (simp_all add: uniq_def placed_def hashed_def empty_item_def live_def)

lemma map_limit_less: "0 < cap \<Longrightarrow> f \<le> 95 \<Longrightarrow> map_limit cap f < cap"
proof -
  assume "0 < cap" "f \<le> 95"
  then have "cap * f \<le> cap * 95" "cap * 95 < cap * 100" by simp_all
  then have "cap * f < cap * 100" by linarith
  then show ?thesis unfolding map_limit_def by (simp add: less_mult_imp_div_less)
qed

lemma map_limit_grows:
  assumes "25 \<le> f" "8 \<le> cap'" "8 \<le> cap \<Longrightarrow> cap * 2 \<le> cap'"
  shows "2 \<le> map_limit cap' f" "8 \<le> cap \<Longrightarrow> 2 * map_limit cap f \<le> map_limit cap' f" "cap' \<le> 4 * map_limit cap' f + 3"
proof -
  have l: "map_limit cap' 25 \<le> map_limit cap' f" unfolding map_limit_def using assms(1) by (intro div_le_mono) simp
  have q: "map_limit cap' 25 = cap' div 4" by (simp add: map_limit_def)
  show "2 \<le> map_limit cap' f" using l assms(2) unfolding q by linarith
  show "cap' \<le> 4 * map_limit cap' f + 3" using l unfolding q by linarith
  assume c: "8 \<le> cap"
  have "cap * 2 * f \<le> cap' * f" using assms(3) [OF c] by simp
  then have "cap * 2 * f div 100 \<le> map_limit cap' f" unfolding map_limit_def by (rule div_le_mono)
  then show "2 * map_limit cap f \<le> map_limit cap' f" unfolding map_limit_def by linarith
qed

text \<open>Before an item is put there is room for it below the load limit.\<close>

lemma sc_map_remap_room:
  fixes m :: "('k, 'v :: zero) sc_map"
  assumes m: "map_inv kd m" and small: "mp_size m < 2 ^ 29"
  obtains m' where "sc_map_remap kd m = Some (True, m')" "map_inv kd m'" "mp_size m' < mp_remap m'"
    "live (mp_mem m') = live (mp_mem m)" "mp_used m' = mp_used m" "mp_used m \<Longrightarrow> mp_zero m' = mp_zero m"
    "mp_size m' = mp_size m" "mp_oom m' = mp_oom m" "\<not> mp_static m'"
proof (cases "mp_size m < mp_remap m")
  case True
  then have "\<not> mp_static m" using m by (auto simp: map_inv_def)
  then show thesis using that [of m] True m by (simp add: sc_map_remap_def)
next
  case False
  let ?n = "mp_cap m" and ?f = "mp_load_fac m"
  have f: "25 \<le> ?f" "?f \<le> 95" using m by (simp_all add: map_inv_def)
  have sz: "mp_size m = mp_remap m" using m False by (simp add: map_inv_def)
  obtain e where e: "?n = 2 ^ e" "e \<le> 31" "length (mp_mem m) = ?n" "table kd (mp_mem m)"
    "size (live (mp_mem m)) < ?n" "mp_size m = size (live (mp_mem m)) + of_bool (mp_used m)"
    using map_invD [OF m] by metis
  have fits: "?n * 2 \<le> 2 ^ 31"
  proof (cases "mp_static m")
    case True
    then show ?thesis using m by (simp add: map_inv_def)
  next
    case False
    then have "?n \<le> 4 * mp_remap m + 3"
      using m map_limit_grows(3) [OF f(1), of ?n 0] by (simp add: map_inv_def)
    then have "e \<noteq> 31" using sz small e(1) by auto
    then have "(2 :: nat) ^ e \<le> 2 ^ 30" using e(2) by (intro power_increasing) simp_all
    then show ?thesis using e(1) by simp
  qed
  obtain e' where e': "e' \<le> 31" "sc_map_alloc ?n 2 = Some (replicate (2 ^ e') empty_item :: ('k, 'v) sc_map_item list, 2 ^ e')" "(8 :: nat) \<le> 2 ^ e'"
    "8 \<le> ?n \<Longrightarrow> ?n * 2 \<le> 2 ^ e'"
    using sc_map_alloc_pow2 [OF _ fits] by auto
  have room: "mp_remap m < map_limit (2 ^ e') ?f"
  proof (cases "mp_static m")
    case True
    then show ?thesis using m map_limit_grows(1) [OF f(1) e'(3), of 0] by (simp add: map_inv_def)
  next
    case False
    then have "8 \<le> ?n" "mp_remap m = map_limit ?n ?f" using m by (simp_all add: map_inv_def)
    then show ?thesis
      using map_limit_grows(2) [OF f(1) e'(3) e'(4)] map_limit_grows(1) [OF f(1), of ?n 0] by simp
  qed
  have lim: "map_limit (2 ^ e') ?f < 2 ^ e'" using f(2) by (intro map_limit_less) simp_all
  obtain new where new: "remap_items kd (sub32 (2 ^ e') 1) (replicate (2 ^ e') empty_item) (mp_mem m) = Some new"
    "length new = 2 ^ e'" "table kd new" "live new = live (mp_mem m)"
  proof -
    let ?new = "replicate (2 ^ e') empty_item :: ('k, 'v) sc_map_item list"
    have "size (live ?new) + size (live (mp_mem m)) < 2 ^ e'" using e(6) room lim sz by simp
    moreover have "mi_key (?new ! j) \<noteq> Some k" if "j < 2 ^ e'" for j k using that by (simp add: empty_item_def)
    ultimately show thesis
      using remap_items_table [of ?new "2 ^ e'" e' kd "mp_mem m"] e(4) e'(1) that by fastforce
  qed
  let ?m = "m\<lparr>mp_mem := new, mp_zero := if mp_static m then 0 else mp_zero m, mp_static := False,
    mp_cap := 2 ^ e', mp_remap := map_limit (2 ^ e') ?f\<rparr>"
  have "sc_map_remap kd m = Some (True, ?m)"
    unfolding sc_map_remap_def if_not_P [OF False] e'(2) using new(1) e(3) by (simp del: One_nat_def)
  moreover have "map_inv kd ?m"
    using new(2-4) e'(1,3) f lim room sz e(6) by (auto simp: map_inv_def)
  moreover have "\<not> mp_static m" if "mp_used m" using that e(6) sz m by (auto simp: map_inv_def)
  ultimately show thesis using that [of ?m] room sz new(4) by simp
qed

section \<open>Maps as dictionaries\<close>

definition holds :: "('k, 'v) sc_map_item list \<Rightarrow> 'k \<Rightarrow> 'v \<Rightarrow> bool" where
  "holds mem k v \<longleftrightarrow> (\<exists>t \<in># live mem. mi_key t = Some k \<and> mi_value t = v)"

definition map_rep :: "'k sc_map_kind \<Rightarrow> ('k, 'v) sc_map \<Rightarrow> ('k option \<Rightarrow> 'v option) \<Rightarrow> bool" where
  "map_rep kd m f \<longleftrightarrow>
     map_inv kd m \<and> f None = (if mp_used m then Some (mp_zero m) else None) \<and>
     (\<forall>k v. f (Some k) = Some v \<longleftrightarrow> holds (mp_mem m) k v)"

lemma holds_nth: "holds mem k v \<longleftrightarrow> (\<exists>i < length mem. mi_key (mem ! i) = Some k \<and> mi_value (mem ! i) = v)"
  unfolding holds_def Bex_def live_iff by auto

lemma holds_at:
  assumes "uniq mem" "i < length mem" "mi_key (mem ! i) = Some k"
  shows "holds mem k v \<longleftrightarrow> mi_value (mem ! i) = v"
  using assms unfolding holds_nth uniq_def by blast

lemma holds_update:
  assumes "i < length mem" "mi_key (mem ! i) = None \<or> mi_key (mem ! i) = Some k" "mi_key x = None \<or> mi_key x = Some k" "k' \<noteq> k"
  shows "holds (mem[i := x]) k' v \<longleftrightarrow> holds mem k' v"
proof -
  have "mi_key (mem[i := x] ! j) = Some k' \<and> mi_value (mem[i := x] ! j) = v \<longleftrightarrow>
      mi_key (mem ! j) = Some k' \<and> mi_value (mem ! j) = v" if "j < length mem" for j
    using assms that by (cases "j = i") auto
  then show ?thesis by (auto simp: holds_nth)
qed

lemma holds_put:
  assumes "uniq (mem[i := x])" "i < length mem" "mi_key x = Some k"
  shows "holds (mem[i := x]) k v \<longleftrightarrow> mi_value x = v"
  using holds_at [OF assms(1), of i k v] assms(2,3) by simp

lemma rep_lookup:
  assumes "map_rep kd m f"
  shows "(\<forall>i < mp_cap m. mi_key (mp_mem m ! i) \<noteq> Some k) \<Longrightarrow> f (Some k) = None"
    and "i < mp_cap m \<Longrightarrow> mi_key (mp_mem m ! i) = Some k \<Longrightarrow> f (Some k) = Some (mi_value (mp_mem m ! i))"
proof -
  have l: "length (mp_mem m) = mp_cap m" "uniq (mp_mem m)" and h: "\<And>k v. f (Some k) = Some v \<longleftrightarrow> holds (mp_mem m) k v"
    using assms by (simp_all add: map_rep_def map_inv_def)
  show "f (Some k) = None" if "\<forall>i < mp_cap m. mi_key (mp_mem m ! i) \<noteq> Some k"
  proof (cases "f (Some k)")
    case (Some v)
    then show ?thesis using h [of k v] that l(1) by (auto simp: holds_nth)
  qed
  show "f (Some k) = Some (mi_value (mp_mem m ! i))" if "i < mp_cap m" "mi_key (mp_mem m ! i) = Some k"
    using h holds_at [OF l(2) _ that(2)] that(1) l(1) by simp
qed

text \<open>The size is the number of keys.\<close>

lemma rep_size:
  assumes "map_rep kd m f"
  shows "card (dom f) = mp_size m" "finite (dom f)"
proof -
  let ?mem = "mp_mem m"
  let ?I = "{i. i < length ?mem \<and> mi_key (?mem ! i) \<noteq> None}"
  have l: "length ?mem = mp_cap m" "uniq ?mem" and h: "\<And>k v. f (Some k) = Some v \<longleftrightarrow> holds ?mem k v"
    and n: "f None = (if mp_used m then Some (mp_zero m) else None)"
    and sz: "mp_size m = size (live ?mem) + of_bool (mp_used m)"
    using assms by (simp_all add: map_rep_def map_inv_def)
  have "size (live ?mem) = length (filter (\<lambda>t. mi_key t \<noteq> None) ?mem)"
    unfolding live_def by (metis mset_filter size_mset)
  then have card: "size (live ?mem) = card ?I" by (simp add: length_filter_conv_card)
  have dom: "dom f = (if mp_used m then {None} else {}) \<union> (\<lambda>i. mi_key (?mem ! i)) ` ?I" (is "_ = ?D")
  proof (rule set_eqI)
    fix k show "k \<in> dom f \<longleftrightarrow> k \<in> ?D"
    proof (cases k)
      case (Some k')
      have "Some k' \<in> dom f \<longleftrightarrow> (\<exists>i < length ?mem. mi_key (?mem ! i) = Some k')"
        using h [of k'] by (auto simp: holds_nth dom_def)
      also have "\<dots> \<longleftrightarrow> Some k' \<in> ?D" by (auto simp: image_iff)
      finally show ?thesis using Some by simp
    qed (auto simp: n)
  qed
  have fin: "finite ?I" by simp
  have "inj_on (\<lambda>i. mi_key (?mem ! i)) ?I" using l(2) by (auto simp: inj_on_def uniq_def)
  then have c: "card ((\<lambda>i. mi_key (?mem ! i)) ` ?I) = card ?I" by (rule card_image)
  have nn: "None \<notin> (\<lambda>i. mi_key (?mem ! i)) ` ?I" by force
  show "finite (dom f)" unfolding dom using fin by simp
  show "card (dom f) = mp_size m" unfolding dom sz card using nn c fin by (simp add: card_insert_disjoint)
qed

lemma rep_find:
  assumes "map_rep kd m f"
  obtains pos where "map_find kd m k = Some pos" "pos < mp_cap m" "free_for kd (mp_mem m) k pos"
    "mi_key (mp_mem m ! pos) = Some k \<or>
     mi_key (mp_mem m ! pos) = None \<and> (\<forall>i < mp_cap m. mi_key (mp_mem m ! i) \<noteq> Some k)"
proof -
  have "map_inv kd m" using assms by (simp add: map_rep_def)
  then obtain e where "mp_cap m = 2 ^ e" "e \<le> 31" "length (mp_mem m) = mp_cap m" "table kd (mp_mem m)"
    "size (live (mp_mem m)) < mp_cap m" by (rule map_invD)
  then show thesis using find_ends [of m e kd k] that by blast
qed

definition or_zero :: "'v option \<Rightarrow> 'v :: zero" where
  "or_zero x = (case x of None \<Rightarrow> 0 | Some v \<Rightarrow> v)"

lemma map_rep_frame:
  "map_rep kd (m\<lparr>mp_found := x\<rparr>) f = map_rep kd m f" "map_rep kd (m\<lparr>mp_oom := y\<rparr>) f = map_rep kd m f"
  by (simp_all add: map_rep_def map_inv_def)

lemma put_key:
  fixes m :: "('k, 'v) sc_map" and v :: 'v
  assumes m: "map_rep kd m f" and room: "mp_size m < mp_remap m" "\<not> mp_static m"
    and pos: "pos < mp_cap m" "free_for kd (mp_mem m) k pos"
      "mi_key (mp_mem m ! pos) = Some k \<or> mi_key (mp_mem m ! pos) = None \<and> (\<forall>i < mp_cap m. mi_key (mp_mem m ! i) \<noteq> Some k)"
  defines "x \<equiv> sc_map_assign kd (mp_mem m ! pos) k v (kd_hash kd k)"
    and "sz \<equiv> if mi_key (mp_mem m ! pos) = None then add32 (mp_size m) 1 else mp_size m"
  shows "map_rep kd (m\<lparr>mp_mem := (mp_mem m)[pos := x], mp_size := sz\<rparr>) (f(Some k \<mapsto> v))"
proof -
  let ?mem = "mp_mem m"
  have inv: "map_inv kd m" using m by (simp add: map_rep_def)
  have l: "length ?mem = mp_cap m" "table kd ?mem" and h: "\<And>k v. f (Some k) = Some v \<longleftrightarrow> holds ?mem k v"
    and n: "f None = (if mp_used m then Some (mp_zero m) else None)" using m by (simp_all add: map_rep_def map_inv_def)
  have x: "mi_key x = Some k" "kd_str kd \<Longrightarrow> mi_hash x = kd_hash kd k" "mi_value x = v"
    by (simp_all add: x_def sc_map_assign_def Let_def)
  have t: "table kd (?mem[pos := x])"
    by (rule update_table [OF l(2) _ pos(2) _ x(1,2)]) (use pos(1,3) l(1) in simp_all)
  have "mp_size m < 2 ^ 31"
  proof -
    obtain e where "mp_cap m = 2 ^ e" "e \<le> 31" using inv by (auto simp: map_inv_def)
    moreover have "(2 :: nat) ^ e \<le> 2 ^ 31" using calculation(2) by (intro power_increasing) simp_all
    ultimately show ?thesis using room inv by (simp add: map_inv_def)
  qed
  then have sz: "sz = size (live (?mem[pos := x])) + of_bool (mp_used m)" "sz \<le> mp_remap m"
    using inv room(1) live_size_update [of pos ?mem x] pos(1) x(1) l(1) by (simp_all add: sz_def map_inv_def)
  have "map_inv kd (m\<lparr>mp_mem := ?mem[pos := x], mp_size := sz\<rparr>)"
    using inv t sz by (simp add: map_inv_def)
  moreover have "(f(Some k \<mapsto> v)) (Some k') = Some v' \<longleftrightarrow> holds (?mem[pos := x]) k' v'" for k' v'
  proof (cases "k' = k")
    case True
    then show ?thesis using holds_put [of ?mem pos x k v'] t pos(1) l(1) x by auto
  next
    case False
    have "mi_key (?mem ! pos) = None \<or> mi_key (?mem ! pos) = Some k" using pos(3) by blast
    then show ?thesis using holds_update [of pos ?mem k x k' v'] False pos(1) l(1) x(1) h by auto
  qed
  ultimately show ?thesis using n by (simp add: map_rep_def)
qed

lemma sc_map_put_rep:
  assumes m: "map_rep kd m f" and small: "card (dom f) < 2 ^ 29"
  obtains m' where "sc_map_put kd m key v = Some (or_zero (f key), m')" "mp_found m' \<longleftrightarrow> f key \<noteq> None" "\<not> mp_oom m'"
    "map_rep kd m' (f(key \<mapsto> v))"
proof -
  let ?m = "m\<lparr>mp_oom := False\<rparr>"
  have m0: "map_rep kd ?m f" using m by (simp add: map_rep_frame)
  have "map_inv kd ?m" "mp_size ?m < 2 ^ 29" using m0 small rep_size(1) [OF m] by (simp_all add: map_rep_def)
  from sc_map_remap_room [OF this] obtain m1 where m1: "sc_map_remap kd ?m = Some (True, m1)" "map_inv kd m1" "mp_size m1 < mp_remap m1"
    "live (mp_mem m1) = live (mp_mem ?m)" "mp_used m1 = mp_used ?m" "mp_used ?m \<Longrightarrow> mp_zero m1 = mp_zero ?m"
    "mp_size m1 = mp_size ?m" "mp_oom m1 = mp_oom ?m" "\<not> mp_static m1"
    by metis
  have r1: "map_rep kd m1 f"
    using m0 m1(2,4-6) by (auto simp: map_rep_def holds_def)
  show thesis
  proof (cases key)
    case None
    let ?r = "m1\<lparr>mp_found := mp_used m1, mp_size := add32 (mp_size m1) (of_bool (\<not> mp_used m1)),
      mp_used := True, mp_zero := v\<rparr>"
    have "sc_map_put kd m key v = Some (or_zero (f key), ?r)"
      using m1(1) None r1 by (simp add: sc_map_put_def or_zero_def map_rep_def)
    moreover have "mp_found ?r \<longleftrightarrow> f key \<noteq> None" using None r1 by (simp add: map_rep_def)
    moreover have "add32 (mp_size m1) (of_bool (\<not> mp_used m1)) = size (live (mp_mem m1)) + 1"
      using m1(2,7) \<open>mp_size ?m < 2 ^ 29\<close> by (simp add: map_inv_def)
    then have "map_rep kd ?r (f(key \<mapsto> v))"
      using r1 m1(3,9) None by (auto simp: map_rep_def map_inv_def)
    moreover have "\<not> mp_oom ?r" using m1(8) by simp
    ultimately show ?thesis using that by blast
  next
    case (Some k)
    obtain pos where pos: "map_find kd m1 k = Some pos" "pos < mp_cap m1" "free_for kd (mp_mem m1) k pos"
      "mi_key (mp_mem m1 ! pos) = Some k \<or>
       mi_key (mp_mem m1 ! pos) = None \<and> (\<forall>i < mp_cap m1. mi_key (mp_mem m1 ! i) \<noteq> Some k)"
      by (rule rep_find [OF r1])
    let ?t = "mp_mem m1 ! pos"
    have fk: "f key = (if mi_key ?t = None then None else Some (mi_value ?t))"
      using pos(4)
      rep_lookup(1) [OF r1] rep_lookup(2) [OF r1 pos(2)] Some by (cases "mi_key ?t") simp_all
    let ?r = "m1\<lparr>mp_mem := (mp_mem m1)[pos := sc_map_assign kd ?t k v (kd_hash kd k)],
      mp_size := if mi_key ?t = None then add32 (mp_size m1) 1 else mp_size m1\<rparr>\<lparr>mp_found := (mi_key ?t \<noteq> None)\<rparr>"
    have "sc_map_put kd m key v = Some (or_zero (f key), ?r)"
      using m1(1) Some pos(1) fk by (cases "mi_key ?t") (simp_all add: sc_map_put_def or_zero_def Let_def)
    moreover have "map_rep kd ?r (f(key \<mapsto> v))"
      unfolding map_rep_frame Some by (rule put_key [OF r1 m1(3,9) pos(2-4)])
    moreover have "mp_found ?r \<longleftrightarrow> f key \<noteq> None" "\<not> mp_oom ?r" using fk m1(8) by simp_all
    ultimately show ?thesis using that by blast
  qed
qed

lemma sc_map_get_rep:
  assumes m: "map_rep kd m f"
  obtains m' where "sc_map_get kd m key = Some (or_zero (f key), m')" "mp_found m' \<longleftrightarrow> f key \<noteq> None" "map_rep kd m' f"
proof (cases key)
  case None
  have n: "f None = (if mp_used m then Some (mp_zero m) else None)" using m by (simp add: map_rep_def)
  show thesis
  proof (rule that)
    show "sc_map_get kd m key = Some (or_zero (f key), m\<lparr>mp_found := mp_used m\<rparr>)"
      using None n by (simp add: sc_map_get_def or_zero_def)
  qed (use None n m in \<open>simp_all add: map_rep_frame\<close>)
next
  case (Some k)
  obtain pos where pos: "map_find kd m k = Some pos" "pos < mp_cap m" "free_for kd (mp_mem m) k pos"
    "mi_key (mp_mem m ! pos) = Some k \<or>
     mi_key (mp_mem m ! pos) = None \<and> (\<forall>i < mp_cap m. mi_key (mp_mem m ! i) \<noteq> Some k)"
    by (rule rep_find [OF m])
  let ?t = "mp_mem m ! pos"
  have fk: "f key = (if mi_key ?t = None then None else Some (mi_value ?t))"
    using pos(4)
      rep_lookup(1) [OF m] rep_lookup(2) [OF m pos(2)] Some by (cases "mi_key ?t") simp_all
  then have "sc_map_get kd m key = Some (or_zero (f key), m\<lparr>mp_found := (mi_key ?t \<noteq> None)\<rparr>)"
    using Some pos(1) by (cases "mi_key ?t") (simp_all add: sc_map_get_def or_zero_def Let_def)
  then show thesis by (rule that) (use fk m in \<open>simp_all add: map_rep_frame\<close>)
qed

text \<open>Removing an item makes its slot the hole of the table.\<close>

lemma erase_table:
  assumes t: "table kd mem" and pos: "pos < length mem" "mi_key (mem ! pos) = Some k" and x: "mi_key x = None"
  shows "uniq (mem[pos := x])" "hashed kd (mem[pos := x])" "placed kd (mem[pos := x]) {pos}"
    "live (mem[pos := x]) = live mem - {#mem ! pos#}" "holds (mem[pos := x]) k' v \<longleftrightarrow> k' \<noteq> k \<and> holds mem k' v"
proof -
  have key: "i \<noteq> pos" "mi_key (mem ! i) = Some k'" if "i < length mem" "mi_key (mem[pos := x] ! i) = Some k'" for i k'
    using that x pos(1) by (cases "i = pos"; simp)+
  show "uniq (mem[pos := x])"
    unfolding uniq_def length_list_update
  proof (intro allI impI, elim conjE)
    fix i j k'
    assume i: "i < length mem" "mi_key (mem[pos := x] ! i) = Some k'" and j: "j < length mem" "mi_key (mem[pos := x] ! j) = Some k'"
    show "i = j" using t i(1) j(1) key(2) [OF i] key(2) [OF j] unfolding uniq_def by blast
  qed
  show "hashed kd (mem[pos := x])"
    unfolding hashed_def length_list_update
  proof (intro allI impI)
    fix i k'
    assume s: "kd_str kd" and i: "i < length mem" "mi_key (mem[pos := x] ! i) = Some k'"
    show "mi_hash (mem[pos := x] ! i) = kd_hash kd k'"
      using t s i(1) key [OF i] unfolding hashed_def by auto
  qed
  show "placed kd (mem[pos := x]) {pos}"
    unfolding placed_def length_list_update
  proof (intro allI impI)
    fix i k' d
    let ?q = "(home kd (length mem) k' + d) mod length mem"
    assume i: "i < length mem" "mi_key (mem[pos := x] ! i) = Some k'" and d: "d < dst (length mem) (home kd (length mem) k') i"
    have "mi_key (mem ! ?q) \<noteq> None" using placedD [of kd mem "{}", OF _ i(1) key(2) [OF i] d] t by simp
    then show "mi_key (mem[pos := x] ! ?q) \<noteq> None \<or> ?q \<in> {pos}" by (cases "?q = pos") simp_all
  qed
  show "live (mem[pos := x]) = live mem - {#mem ! pos#}" using live_update [OF pos(1), of x] x pos(2) by simp
  show "holds (mem[pos := x]) k' v \<longleftrightarrow> k' \<noteq> k \<and> holds mem k' v"
  proof (cases "k' = k")
    case True
    have "\<not> holds (mem[pos := x]) k v"
      unfolding holds_nth length_list_update
    proof (intro notI, elim exE conjE)
      fix i assume i: "i < length mem" "mi_key (mem[pos := x] ! i) = Some k"
      show False using t key [OF i] i(1) pos unfolding uniq_def by blast
    qed
    then show ?thesis using True by simp
  next
    case False
    then show ?thesis using holds_update [of pos mem k x k' v] pos x by simp
  qed
qed

lemma map_inv_small:
  assumes "map_inv kd m"
  shows "mp_size m < 2 ^ 32"
proof -
  obtain e where "mp_cap m = 2 ^ e" "e \<le> 31" using assms by (auto simp: map_inv_def)
  moreover have "(2 :: nat) ^ e \<le> 2 ^ 31" using calculation(2) by (intro power_increasing) simp_all
  ultimately show ?thesis using assms by (simp add: map_inv_def)
qed

lemma shift_erased:
  assumes m: "map_inv kd m" and pos: "pos < mp_cap m" "mi_key (mp_mem m ! pos) = Some k"
  defines "mem \<equiv> (mp_mem m)[pos := (mp_mem m ! pos)\<lparr>mi_key := None\<rparr>]"
  shows "\<exists>mem'. map_shift kd (sub32 (mp_cap m) 1) mem pos pos = Some mem' \<and> length mem' = mp_cap m \<and> table kd mem' \<and>
    live mem' = live mem"
proof -
  obtain e where e: "mp_cap m = 2 ^ e" "e \<le> 31" "length (mp_mem m) = mp_cap m" "table kd (mp_mem m)"
    "size (live (mp_mem m)) < mp_cap m" "mp_size m = size (live (mp_mem m)) + of_bool (mp_used m)"
    using m by (rule map_invD)
  note er = erase_table [OF e(4) _ pos(2), of "(mp_mem m ! pos)\<lparr>mi_key := None\<rparr>", folded mem_def]
  have pl: "pos < length (mp_mem m)" using pos(1) e(3) by simp
  obtain i where i: "i < mp_cap m" "mi_key (mp_mem m ! i) = None" using free_slot [of "mp_mem m"] e(3,5) by auto
  have ne: "i \<noteq> pos" using i(2) pos(2) by auto
  show ?thesis
  proof (rule shift_ends [OF _ e(1,2) pos(1) pos(1) i(1) ne ne])
    show "length mem = mp_cap m" using e(3) by (simp add: mem_def)
    show "mi_key (mem ! i) = None" "mi_key (mem ! pos) = None" using i(2) ne pl by (simp_all add: mem_def)
    show "uniq mem" "hashed kd mem" "placed kd mem {pos}" using er(1-3) pl by simp_all
    show "\<not> dst (mp_cap m) (home kd (mp_cap m) k') pos < dst (mp_cap m) (home kd (mp_cap m) k') j"
      if "j < mp_cap m" "mi_key (mem ! j) = Some k'" "dst (mp_cap m) pos j \<le> dst (mp_cap m) pos pos" for j k'
    proof -
      have "j = pos" using that(3) dst_inj [OF pos(1) that(1) pos(1)] unfolding dst_self by linarith
      then show ?thesis using that(2) pl by (simp add: mem_def)
    qed
  qed
qed

lemma del_item:
  assumes m: "map_rep kd m f" and pos: "pos < mp_cap m" "mi_key (mp_mem m ! pos) = Some k"
  obtains mem' where
    "map_shift kd (sub32 (mp_cap m) 1) ((mp_mem m)[pos := (mp_mem m ! pos)\<lparr>mi_key := None\<rparr>]) pos pos = Some mem'"
    "map_rep kd (m\<lparr>mp_found := True, mp_size := sub32 (mp_size m) 1, mp_mem := mem'\<rparr>) (f(Some k := None))"
proof -
  let ?mem = "(mp_mem m)[pos := (mp_mem m ! pos)\<lparr>mi_key := None\<rparr>]"
  have inv: "map_inv kd m" and n: "f None = (if mp_used m then Some (mp_zero m) else None)"
    and h: "\<And>k v. f (Some k) = Some v \<longleftrightarrow> holds (mp_mem m) k v" using m by (simp_all add: map_rep_def)
  have l: "length (mp_mem m) = mp_cap m" "table kd (mp_mem m)" "mp_size m = size (live (mp_mem m)) + of_bool (mp_used m)"
    using inv by (simp_all add: map_inv_def)
  have pl: "pos < length (mp_mem m)" using pos(1) l(1) by simp
  note er = erase_table [OF l(2) pl pos(2), of "(mp_mem m ! pos)\<lparr>mi_key := None\<rparr>"]
  obtain mem' where mem': "map_shift kd (sub32 (mp_cap m) 1) ?mem pos pos = Some mem'" "length mem' = mp_cap m"
    "table kd mem'" "live mem' = live ?mem" using shift_erased [OF inv pos] by blast
  let ?r = "m\<lparr>mp_found := True, mp_size := sub32 (mp_size m) 1, mp_mem := mem'\<rparr>"
  have "mp_mem m ! pos \<in># live (mp_mem m)" using pl pos(2) by (simp add: live_in)
  from size_Suc_Diff1 [OF this] have "Suc (size (live mem')) = size (live (mp_mem m))" using er(4) mem'(4) by simp
  then have "sub32 (mp_size m) 1 = size (live mem') + of_bool (mp_used m)" "sub32 (mp_size m) 1 \<le> mp_size m"
    using l(3) map_inv_small [OF inv] by simp_all
  then have "map_inv kd ?r" using inv mem'(2,3) by (simp add: map_inv_def)
  moreover have "holds mem' k' v \<longleftrightarrow> k' \<noteq> k \<and> holds (mp_mem m) k' v" for k' v
    using er(5) mem'(4) by (simp add: holds_def)
  ultimately have "map_rep kd ?r (f(Some k := None))" using n h by (auto simp: map_rep_def)
  then show thesis using that mem'(1) by blast
qed

lemma sc_map_del_rep:
  assumes m: "map_rep kd m f"
  obtains m' where "sc_map_del kd m key = Some (or_zero (f key), m')" "mp_found m' \<longleftrightarrow> f key \<noteq> None"
    "map_rep kd m' (f(key := None))"
proof (cases key)
  case None
  let ?r = "m\<lparr>mp_found := mp_used m, mp_size := sub32 (mp_size m) (of_bool (mp_used m)), mp_used := False\<rparr>"
  have inv: "map_inv kd m" and n: "f None = (if mp_used m then Some (mp_zero m) else None)" using m by (simp_all add: map_rep_def)
  show thesis
  proof (rule that)
    show "sc_map_del kd m key = Some (or_zero (f key), ?r)"
      using None n by (simp add: sc_map_del_def or_zero_def Let_def)
    show "mp_found ?r \<longleftrightarrow> f key \<noteq> None" using None n by simp
    have "sub32 (mp_size m) (of_bool (mp_used m)) = size (live (mp_mem m))"
      using inv map_inv_small [OF inv] by (simp add: map_inv_def)
    then show "map_rep kd ?r (f(key := None))" using m None by (simp add: map_rep_def map_inv_def)
  qed
next
  case (Some k)
  obtain pos where pos: "map_find kd m k = Some pos" "pos < mp_cap m" "free_for kd (mp_mem m) k pos"
    "mi_key (mp_mem m ! pos) = Some k \<or>
     mi_key (mp_mem m ! pos) = None \<and> (\<forall>i < mp_cap m. mi_key (mp_mem m ! i) \<noteq> Some k)"
    by (rule rep_find [OF m])
  let ?t = "mp_mem m ! pos"
  have fk: "f key = (if mi_key ?t = None then None else Some (mi_value ?t))"
    using pos(4) rep_lookup(1) [OF m] rep_lookup(2) [OF m pos(2)] Some by (cases "mi_key ?t") simp_all
  show thesis
  proof (cases "mi_key ?t")
    case None
    show thesis
    proof (rule that)
      show "sc_map_del kd m key = Some (or_zero (f key), m\<lparr>mp_found := False\<rparr>)"
        using Some pos(1) None fk by (simp add: sc_map_del_def or_zero_def Let_def)
      have "f(key := None) = f" using fk None by (auto simp: fun_eq_iff)
      then show "map_rep kd (m\<lparr>mp_found := False\<rparr>) (f(key := None))" using m by (simp only: map_rep_frame)
    qed (use fk None in simp)
  next
    case kt: (Some k0)
    then have k: "mi_key ?t = Some k" using pos(4) by auto
    obtain mem' where
      mem': "map_shift kd (sub32 (mp_cap m) 1) ((mp_mem m)[pos := ?t\<lparr>mi_key := None\<rparr>]) pos pos = Some mem'"
        "map_rep kd (m\<lparr>mp_found := True, mp_size := sub32 (mp_size m) 1, mp_mem := mem'\<rparr>) (f(Some k := None))"
      by (rule del_item [OF m pos(2) k])
    have "sc_map_del kd m key = Some (or_zero (f key), m\<lparr>mp_found := True, mp_size := sub32 (mp_size m) 1, mp_mem := mem'\<rparr>)"
      using Some pos(1) k fk mem'(1) by (simp add: sc_map_del_def or_zero_def Let_def)
    then show thesis by (rule that) (use mem'(2) Some fk k in simp_all)
  qed
qed

lemma sc_map_clear_rep:
  assumes m: "map_rep kd m f"
  shows "map_rep kd (sc_map_clear m) Map.empty"
proof (cases "mp_size m > 0")
  case True
  let ?mem = "map (\<lambda>t. t\<lparr>mi_key := None\<rparr>) (mp_mem m)"
  have l: "live ?mem = {#}" by (auto simp: live_def filter_mset_eq_conv)
  have "table kd ?mem" by (auto simp: uniq_def placed_def hashed_def)
  moreover have "sc_map_clear m = m\<lparr>mp_mem := ?mem, mp_used := False, mp_size := 0\<rparr>"
    using m True by (simp add: sc_map_clear_def map_rep_def map_inv_def)
  ultimately show ?thesis using m l by (simp add: map_rep_def map_inv_def holds_def)
next
  case False
  then have "dom f = {}" using rep_size [OF m] by simp
  then show ?thesis using m False by (simp add: sc_map_clear_def)
qed

lemma sc_map_init_rep:
  assumes "cap \<le> 2 ^ 31" "load_fac = 0 \<or> 25 \<le> load_fac \<and> load_fac \<le> 95"
  shows "fst (sc_map_init m cap load_fac)" "map_rep kd (snd (sc_map_init m cap load_fac)) Map.empty"
proof -
  define f where "f = (if load_fac = 0 then 75 else load_fac)"
  have f: "25 \<le> f" "f \<le> 95" using assms(2) by (auto simp: f_def)
  have "fst (sc_map_init m cap load_fac) \<and> map_rep kd (snd (sc_map_init m cap load_fac)) Map.empty"
  proof (cases "cap = 0")
    case True
    have "table kd [empty_item :: ('a, 'b) sc_map_item]" "live [empty_item :: ('a, 'b) sc_map_item] = {#}"
      using empty_table(1) [where kd = kd and n = 1] empty_table(2) [of 1] by simp_all
    then show ?thesis
      using True f unfolding sc_map_init_def f_def [symmetric]
      by (simp add: sc_map_empty_def map_rep_def map_inv_def holds_def exI [of _ 0])
  next
    case False
    have "cap * 1 \<le> 2 ^ 31" using assms(1) by simp
    from sc_map_alloc_pow2 [OF _ this] obtain e where e: "e \<le> 31"
      "sc_map_alloc cap 1 = Some (replicate (2 ^ e) (empty_item :: ('a, 'b) sc_map_item), 2 ^ e)" "(8 :: nat) \<le> 2 ^ e"
      by (metis zero_less_one)
    have "map_limit (2 ^ e) f < 2 ^ e" using f(2) by (intro map_limit_less) simp_all
    then show ?thesis
      using False f e unfolding sc_map_init_def f_def [symmetric]
      by (auto simp: map_rep_def map_inv_def holds_def)
  qed
  then show "fst (sc_map_init m cap load_fac)" "map_rep kd (snd (sc_map_init m cap load_fac)) Map.empty" by simp_all
qed

text \<open>The loops visit every key once, with its value.\<close>

lemma sc_map_foreach_rep:
  assumes m: "map_rep kd m f"
  shows "distinct (map fst (sc_map_foreach m))" "map_of (sc_map_foreach m) = f"
proof -
  have l: "length (mp_mem m) = mp_cap m" "uniq (mp_mem m)" and n: "f None = (if mp_used m then Some (mp_zero m) else None)"
    and h: "\<And>k v. f (Some k) = Some v \<longleftrightarrow> holds (mp_mem m) k v" using m by (simp_all add: map_rep_def map_inv_def)
  let ?F = "filter (\<lambda>t. mi_key t \<noteq> None) (mp_mem m)"
  have "distinct (map mi_key (filter (\<lambda>t. mi_key t \<noteq> None) mem))" if "uniq mem" for mem :: "('a, 'b) sc_map_item list"
    using that
  proof (induction mem)
    case (Cons t ts)
    then have "distinct (map mi_key (filter (\<lambda>t. mi_key t \<noteq> None) ts))" using uniq_Cons(1) by blast
    moreover have "mi_key t \<notin> mi_key ` set ts" if "mi_key t \<noteq> None"
      using uniq_Cons(2) [OF Cons.prems] that by (fastforce simp: in_set_conv_nth)
    ultimately show ?case by auto
  qed simp
  then have d: "distinct (map mi_key ?F)" using l(2) by blast
  show dd: "distinct (map fst (sc_map_foreach m))"
    using d l(1) by (auto simp: sc_map_foreach_def comp_def)
  show "map_of (sc_map_foreach m) = f"
  proof
    fix k
    have "map_of (sc_map_foreach m) k = Some v \<longleftrightarrow> f k = Some v" for v
    proof (cases k)
      case None
      then show ?thesis using n dd l(1) by (auto simp: map_of_eq_Some_iff sc_map_foreach_def)
    next
      case (Some k')
      then show ?thesis
        using h dd l(1) by (auto simp: map_of_eq_Some_iff sc_map_foreach_def holds_def live_def image_iff)
    qed
    then show "map_of (sc_map_foreach m) k = f k" by (metis option.exhaust)
  qed
qed

section \<open>The contract of a map\<close>

text \<open>
  What a user of a map relies on: a map that is well formed has a dictionary, and every operation
  returns with the answer of the dictionary.
\<close>

locale dictionary =
  fixes ok :: "'m \<Rightarrow> bool" and dict :: "'m \<Rightarrow> 'k option \<Rightarrow> 'v :: zero option"
    and get :: "'m \<Rightarrow> 'k option \<Rightarrow> ('v \<times> 'm) option"
    and put :: "'m \<Rightarrow> 'k option \<Rightarrow> 'v \<Rightarrow> ('v \<times> 'm) option"
    and del :: "'m \<Rightarrow> 'k option \<Rightarrow> ('v \<times> 'm) option"
    and found :: "'m \<Rightarrow> bool"
  assumes get_law: "ok m \<Longrightarrow> \<exists>m'. get m k = Some (or_zero (dict m k), m') \<and> (found m' \<longleftrightarrow> dict m k \<noteq> None) \<and> ok m' \<and> dict m' = dict m"
    and put_law: "ok m \<Longrightarrow> card (dom (dict m)) < 2 ^ 29 \<Longrightarrow> \<exists>r m'. put m k v = Some (r, m') \<and> ok m' \<and> dict m' = (dict m)(k \<mapsto> v)"
    and del_law: "ok m \<Longrightarrow> \<exists>r m'. del m k = Some (r, m') \<and> ok m' \<and> dict m' = (dict m)(k := None)"
begin

lemma getE:
  assumes "get m k = Some (p, m')" "ok m"
  shows "ok m'" "dict m' = dict m" "found m' \<longleftrightarrow> dict m k \<noteq> None" "dict m k = Some x \<Longrightarrow> p = x"
  using assms get_law [of m k] by (auto simp: or_zero_def)

lemma putE:
  assumes "put m k v = Some (r, m')" "ok m" "card (dom (dict m)) < 2 ^ 29"
  shows "ok m'" "dict m' = (dict m)(k \<mapsto> v)"
  using assms put_law [of m k v] by auto

lemma delE:
  assumes "del m k = Some (r, m')" "ok m"
  shows "ok m'" "dict m' = (dict m)(k := None)"
  using assms del_law [of m k] by auto

text \<open>Two indexes over the same values: a value is deleted from both by its keys.\<close>

lemma del_value:
  assumes "del m k = Some (r, m')" "ok m" "\<And>k' v. dict m k' = Some v \<Longrightarrow> key v = k'" "dict m' k' = Some v"
  shows "dict m k' = Some v" "key v \<noteq> k"
  using assms delE [OF assms(1,2)] by (auto split: if_splits)

end

definition dict_of :: "('k, 'v) sc_map \<Rightarrow> 'k option \<Rightarrow> 'v option" where
  "dict_of m = map_of (sc_map_foreach m)"

definition map_ok :: "'k sc_map_kind \<Rightarrow> ('k, 'v) sc_map \<Rightarrow> bool" where
  "map_ok kd m \<longleftrightarrow> map_rep kd m (dict_of m)"

lemma map_rep_dict: "map_rep kd m f \<Longrightarrow> map_ok kd m \<and> dict_of m = f"
  using sc_map_foreach_rep(2) [of kd m f] by (simp add: map_ok_def dict_of_def)

interpretation sc_maps: dictionary "map_ok kd" dict_of "sc_map_get kd" "sc_map_put kd" "sc_map_del kd" mp_found
proof (unfold_locales, goal_cases)
  case (1 m k)
  then have r: "map_rep kd m (dict_of m)" by (simp add: map_ok_def)
  obtain m' where "sc_map_get kd m k = Some (or_zero (dict_of m k), m')" "mp_found m' \<longleftrightarrow> dict_of m k \<noteq> None"
    "map_rep kd m' (dict_of m)" by (rule sc_map_get_rep [OF r])
  then show ?case using map_rep_dict by metis
next
  case (2 m k v)
  then have r: "map_rep kd m (dict_of m)" by (simp add: map_ok_def)
  obtain m' where "sc_map_put kd m k v = Some (or_zero (dict_of m k), m')" "mp_found m' \<longleftrightarrow> dict_of m k \<noteq> None"
    "\<not> mp_oom m'" "map_rep kd m' ((dict_of m)(k \<mapsto> v))" by (rule sc_map_put_rep [OF r 2(2)])
  then show ?case using map_rep_dict by metis
next
  case (3 m k)
  then have r: "map_rep kd m (dict_of m)" by (simp add: map_ok_def)
  obtain m' where "sc_map_del kd m k = Some (or_zero (dict_of m k), m')" "mp_found m' \<longleftrightarrow> dict_of m k \<noteq> None"
    "map_rep kd m' ((dict_of m)(k := None))" by (rule sc_map_del_rep [OF r])
  then show ?case using map_rep_dict by metis
qed

lemma map_ok_init: "cap \<le> 2 ^ 31 \<Longrightarrow> map_ok kd (snd (sc_map_init m cap 0)) \<and> dict_of (snd (sc_map_init m cap 0)) = Map.empty"
  using map_rep_dict [OF sc_map_init_rep(2) [of cap 0]] by simp

section \<open>Runs of operations\<close>

datatype ('k, 'v) map_op =
    Map_put "'k option" 'v | Map_get "'k option" | Map_del "'k option" | Map_clear | Map_size

datatype 'v map_res = Found bool 'v | Sized nat | Cleared | Oom | Stuck

fun map_do :: "'k sc_map_kind \<Rightarrow> ('k, 'v :: zero) map_op \<Rightarrow> ('k, 'v) sc_map \<Rightarrow> 'v map_res \<times> ('k, 'v) sc_map" where
  "map_do kd (Map_put k v) m =
     (case sc_map_put kd m k v of
        None \<Rightarrow> (Stuck, m)
      | Some (r, m) \<Rightarrow> (if mp_oom m then Oom else Found (mp_found m) r, m))"
| "map_do kd (Map_get k) m = (case sc_map_get kd m k of None \<Rightarrow> (Stuck, m) | Some (r, m) \<Rightarrow> (Found (mp_found m) r, m))"
| "map_do kd (Map_del k) m = (case sc_map_del kd m k of None \<Rightarrow> (Stuck, m) | Some (r, m) \<Rightarrow> (Found (mp_found m) r, m))"
| "map_do kd Map_clear m = (Cleared, sc_map_clear m)"
| "map_do kd Map_size m = (Sized (mp_size m), m)"

text \<open>The same operations on a dictionary.\<close>

fun dict_do :: "('k, 'v :: zero) map_op \<Rightarrow> ('k option \<Rightarrow> 'v option) \<Rightarrow> 'v map_res \<times> ('k option \<Rightarrow> 'v option)" where
  "dict_do (Map_put k v) f = (Found (f k \<noteq> None) (or_zero (f k)), f(k \<mapsto> v))"
| "dict_do (Map_get k) f = (Found (f k \<noteq> None) (or_zero (f k)), f)"
| "dict_do (Map_del k) f = (Found (f k \<noteq> None) (or_zero (f k)), f(k := None))"
| "dict_do Map_clear f = (Cleared, Map.empty)"
| "dict_do Map_size f = (Sized (card (dom f)), f)"

fun dict_ok :: "('k, 'v) map_op \<Rightarrow> ('k option \<Rightarrow> 'v option) \<Rightarrow> bool" where
  "dict_ok (Map_put k v) f \<longleftrightarrow> card (dom f) < 2 ^ 29"
| "dict_ok _ f \<longleftrightarrow> True"

lemma map_do_dict:
  assumes m: "map_rep kd m f" and ok: "dict_ok x f"
  shows "fst (map_do kd x m) = fst (dict_do x f) \<and> map_rep kd (snd (map_do kd x m)) (snd (dict_do x f))"
proof (cases x)
  case (Map_put k v)
  then have "card (dom f) < 2 ^ 29" using ok by simp
  then obtain m' where "sc_map_put kd m k v = Some (or_zero (f k), m')" "mp_found m' \<longleftrightarrow> f k \<noteq> None" "\<not> mp_oom m'"
    "map_rep kd m' (f(k \<mapsto> v))" by (rule sc_map_put_rep [OF m])
  then show ?thesis using Map_put by simp
next
  case (Map_get k)
  obtain m' where "sc_map_get kd m k = Some (or_zero (f k), m')" "mp_found m' \<longleftrightarrow> f k \<noteq> None" "map_rep kd m' f"
    by (rule sc_map_get_rep [OF m])
  then show ?thesis using Map_get by simp
next
  case (Map_del k)
  obtain m' where "sc_map_del kd m k = Some (or_zero (f k), m')" "mp_found m' \<longleftrightarrow> f k \<noteq> None"
    "map_rep kd m' (f(k := None))" by (rule sc_map_del_rep [OF m])
  then show ?thesis using Map_del by simp
qed (use m sc_map_clear_rep [OF m] rep_size(1) [OF m] in simp_all)

interpretation maps: refines "map_rep kd" "map_do kd" dict_do dict_ok
  by unfold_locales (rule map_do_dict)

section \<open>Properties\<close>

text \<open>
  C39: A hash map is a dictionary. From a new map on, whatever the initial capacity and load factor, every
  run of insertions, searches, deletions and clearings returns, with the answers of a dictionary from
  keys to values, however keys collide and however deletions move items; afterwards the loops
  visit each key of the dictionary once, with its value. The number of keys stays below a quarter of
  the largest capacity, where growing cannot fail.
\<close>

theorem sc_map_refines_dictionary:
  assumes "cap \<le> 2 ^ 31" "load_fac = 0 \<or> 25 \<le> load_fac \<and> load_fac \<le> 95" "run_ok dict_do dict_ok ops Map.empty"
  shows "fst (run_ops (map_do kd) ops (snd (sc_map_init m cap load_fac))) = fst (run_ops dict_do ops Map.empty) \<and>
    distinct (map fst (sc_map_foreach (snd (run_ops (map_do kd) ops (snd (sc_map_init m cap load_fac)))))) \<and>
    map_of (sc_map_foreach (snd (run_ops (map_do kd) ops (snd (sc_map_init m cap load_fac))))) =
      snd (run_ops dict_do ops Map.empty)"
  using maps.run [OF sc_map_init_rep(2) [OF assms(1,2)] assms(3)] sc_map_foreach_rep by blast

theorem sc_map_refines_dictionary_witness:
  "fst (run_ops (map_do kind_64)
     [Map_put (Some 1) 5, Map_put None 7, Map_get (Some 1), Map_del (Some 1), Map_get (Some 1), Map_size]
     (snd (sc_map_init (sc_map_empty :: (u64, nat) sc_map) 0 0))) =
   [Found False 0, Found False 0, Found True 5, Found True 5, Found False 0, Sized 1]"
proof -
  let ?ops = "[Map_put (Some 1) 5, Map_put None 7, Map_get (Some 1), Map_del (Some 1), Map_get (Some 1), Map_size]
    :: (u64, nat) map_op list"
  have "run_ok dict_do dict_ok ?ops Map.empty" by simp
  moreover have "dom [None \<mapsto> (7 :: nat)] = {None :: u64 option}" by simp
  ultimately show ?thesis
    using sc_map_refines_dictionary [of 0 0 ?ops kind_64 sc_map_empty] by (simp add: or_zero_def)
qed

text \<open>
  Above the largest power of two the capacity wraps to zero: \<^verbatim>\<open>sc_map_init\<close> succeeds with an array that
  has no slot, and the first search runs out of it.
\<close>

theorem sc_map_init_wraps:
  assumes "2 ^ 31 < cap" "cap < 2 ^ 32"
  shows "fst (sc_map_init m cap 0) \<and> mp_cap (snd (sc_map_init m cap 0)) = 0 \<and>
    sc_map_get kd (snd (sc_map_init m cap 0)) (Some k) = None"
proof -
  let ?w = "word_of_nat cap - 1 :: u32"
  have u: "unat (word_of_nat cap :: u32) = cap" using unat_word_of_nat_small(1) [of cap] assms(2) by simp
  then have "(word_of_nat cap :: u32) \<noteq> 0" using assms(1) by auto
  then have v: "unat ?w = cap - 1" using u by (simp add: unat_minus_one)
  have "unat ?w div 2 ^ 31 = 1" unfolding v using assms by (simp add: div_nat_eqI)
  then have "bit (unat ?w) 31" by (simp only: bit_iff_odd) simp
  then have b: "bit ?w 31" by (simp add: bit_unsigned_iff)
  have "map_smear ?w = - 1"
    by (rule bit_word_eqI) (use b map_smear_bits in \<open>auto intro: exI [of _ 31]\<close>)
  then have "sc_map_alloc cap 1 = Some ([] :: ('a, 'b) sc_map_item list, 0)"
    using assms by (simp add: sc_map_alloc_def Let_def)
  then show ?thesis
    using assms by (simp add: sc_map_init_def Let_def sc_map_get_def map_find_def walk.simps)
qed

end
