(* ===== verification/Sql_Aux.thy ===== *)
theory Sql_Aux
  imports Server Sc_Map Sc_List "HOL-Library.Monad_Syntax"
begin

text \<open>
  The database layer: the functions that SQLite calls back into the state machine (\<^verbatim>\<open>state_config\<close>,
  \<^verbatim>\<open>state_randomness\<close>, \<^verbatim>\<open>state_max_page\<close> and others of \<^verbatim>\<open>src/state.c\<close>), the statements on the tables of
  the server (\<^verbatim>\<open>src/aux.c\<close>), what the server tells about its nodes (\<^verbatim>\<open>src/info.c\<close>) and client
  sessions (\<^verbatim>\<open>src/session.c\<close>).

  SQLite itself is a parameter, the record \<open>'db sqlite\<close> of the calls that are made: a database has
  the type \<open>'db\<close>, which includes the state of its prepared statements, and a statement is a number, with zero
  for the null pointer. A statement that does not return, or in which a callback crashes, has no
  result. The part of the state that callbacks read and write is \<open>state_ctx\<close>, which a step of a
  statement takes and returns.
\<close>

unbundle bit_operations_syntax

section \<open>What callbacks see of the state\<close>

definition str :: "string \<Rightarrow> cstring" where
  "str s = map of_char s"

record state_ctx =
  cx_cb :: "(server_job \<Rightarrow> cstring option) option"
  cx_client :: bool
  cx_readonly :: bool
  cx_full :: bool
  cx_max_page :: u64
  cx_timeout :: u64
  cx_realtime :: u64
  cx_wrand :: sc_rand
  cx_rrand :: sc_rand
  cx_jobs :: "server_job list"

datatype sql_value = SQL_INTEGER u64 | SQL_FLOAT u64 | SQL_TEXT bytes | SQL_BLOB bytes | SQL_NULL

datatype sql_result = Res_none | Res_text "cstring option" | Res_int u64 | Res_error cstring

text \<open>An argument of an SQL function: what \<^verbatim>\<open>sqlite3_value_text\<close> and \<^verbatim>\<open>sqlite3_value_int64\<close> return for it.\<close>

type_synonym sql_arg = "cstring option \<times> u64"

definition usage_default :: cstring where
  "usage_default = str ''usage : SELECT resql('' @ [39] @ str ''config-name'' @ [39] @ str '', '' @ [39] @ str ''param'' @ [39] @ str '');''"

definition usage_add_node :: cstring where
  "usage_add_node = str ''usage : SELECT resql('' @ [39] @ str ''add-node'' @ [39] @ str '', '' @ [39] @
     str ''tcp://name@127.0.0.1:8085'' @ [39] @ str '');''"

definition usage_remove_node :: cstring where
  "usage_remove_node = str ''usage : SELECT resql('' @ [39] @ str ''remove-node'' @ [39] @ str '', '' @ [39] @ str ''node0'' @ [39] @ str '');''"

definition usage_max_size :: cstring where
  "usage_max_size = str ''usage : SELECT resql('' @ [39] @ str ''max-size'' @ [39] @ str '', 5000000);''"

definition usage_session_timeout :: cstring where
  "usage_session_timeout = str ''usage : SELECT resql('' @ [39] @ str ''session-timeout'' @ [39] @ str '', 60000);''"

definition config_job :: "state_ctx \<Rightarrow> server_job \<Rightarrow> sql_result \<times> state_ctx" where
  "config_job c j =
     (case cx_cb c of
        None \<Rightarrow> (Res_none, c)
      | Some cb \<Rightarrow> (Res_text (cb j), c\<lparr>cx_jobs := cx_jobs c @ [j]\<rparr>))"

text \<open>The SQL function \<^verbatim>\<open>resql\<close>. Comparing a null pointer crashes.\<close>

definition state_config :: "state_ctx \<Rightarrow> sql_arg list \<Rightarrow> (sql_result \<times> state_ctx) option" where
  "state_config c argv =
     (if argv = [] then Some (Res_error usage_default, c)
      else case fst (argv ! 0) of
        None \<Rightarrow> None
      | Some cmd \<Rightarrow>
          if cmd = str ''add-node'' then
            Some (if length argv \<noteq> 2 then (Res_error usage_add_node, c)
                  else config_job c (SERVER_JOB_ADD_NODE, fst (argv ! 1)))
          else if cmd = str ''remove-node'' then
            Some (if length argv \<noteq> 2 then (Res_error usage_remove_node, c)
                  else config_job c (SERVER_JOB_REMOVE_NODE, fst (argv ! 1)))
          else if cmd = str ''shutdown'' then
            Some (if length argv \<noteq> 2 then (Res_error usage_remove_node, c)
                  else config_job c (SERVER_JOB_SHUTDOWN, fst (argv ! 1)))
          else if cmd = str ''max-size'' then
            Some (if length argv > 2 then (Res_error usage_max_size, c)
                  else if length argv = 2 \<and> sint (snd (argv ! 1)) < 0
                  then (Res_error (str ''Max size cannot be negative''), c)
                  else let c = (if length argv = 2 then c\<lparr>cx_max_page := snd (argv ! 1) div 4096\<rparr> else c)
                       in (Res_int (cx_max_page c * 4096), c))
          else if cmd = str ''session-timeout'' then
            Some (if length argv > 2 then (Res_error usage_session_timeout, c)
                  else if length argv = 2 \<and> sint (snd (argv ! 1)) < 30000
                  then (Res_error (str ''Timeout must be greater than 30 seconds''), c)
                  else let c = (if length argv = 2 then c\<lparr>cx_timeout := snd (argv ! 1)\<rparr> else c)
                       in (Res_int (cx_timeout c), c))
          else Some (Res_error (str ''Unknown command''), c))"

definition state_randomness :: "state_ctx \<Rightarrow> int \<Rightarrow> bytes \<times> state_ctx" where
  "state_randomness c sz =
     (if cx_readonly c
      then let (out, r) = sc_rand_read (cx_rrand c) sz in (out, c\<lparr>cx_rrand := r\<rparr>)
      else let (out, r) = sc_rand_read (cx_wrand c) sz in (out, c\<lparr>cx_wrand := r\<rparr>))"

definition state_currenttime :: "state_ctx \<Rightarrow> u64" where
  "state_currenttime c = 24405875 * 8640000 + cx_realtime c"

definition state_max_page :: "state_ctx \<Rightarrow> u32 \<Rightarrow> int \<times> state_ctx" where
  "state_max_page c pages =
     (if cx_client c \<and> uint pages > sint (cx_max_page c) then (- 1, c\<lparr>cx_full := True\<rparr>) else (0, c))"

definition aux_random :: "state_ctx \<Rightarrow> u64 \<times> state_ctx" where
  "aux_random c = (let (out, c) = state_randomness c 8 in (de64 out, c))"

text \<open>The length is cut to an \<^verbatim>\<open>int\<close> when it is passed on; allocating the bytes does not fail.\<close>

definition aux_randomblob :: "state_ctx \<Rightarrow> u64 \<Rightarrow> bytes \<times> state_ctx" where
  "aux_randomblob c n = state_randomness c (sint (ucast (if sint n < 1 then 1 else n) :: u32))"

text \<open>Which statements on the tables of the server a client may not run; \<^verbatim>\<open>SQLITE_READ\<close> falls through.\<close>

datatype auth_action =
    SQLITE_READ | SQLITE_ALTER_TABLE | SQLITE_CREATE_TABLE | SQLITE_DELETE | SQLITE_DROP_TABLE
  | SQLITE_INSERT | SQLITE_UPDATE | SQLITE_DROP_VTABLE | SQLITE_OTHER

datatype auth_rc = AUTH_OK | AUTH_DENY | AUTH_IGNORE

definition strncmp_eq :: "cstring \<Rightarrow> cstring \<Rightarrow> bool" where
  "strncmp_eq pre s \<longleftrightarrow> take (length pre) s = pre"

definition state_authorizer :: "state_ctx \<Rightarrow> auth_action \<Rightarrow> cstring \<Rightarrow> cstring \<Rightarrow> auth_rc" where
  "state_authorizer c action arg0 arg1 =
     (if \<not> cx_client c then AUTH_OK
      else if action = SQLITE_READ \<and> strncmp_eq (str ''resql_clients'') arg0 \<and> strncmp_eq (str ''resp'') arg1
      then AUTH_IGNORE
      else if action = SQLITE_OTHER then AUTH_OK
      else let arg0 = (if action = SQLITE_READ \<or> action = SQLITE_ALTER_TABLE then arg1 else arg0)
           in if strncmp_eq (str ''resql'') arg0 then AUTH_DENY else AUTH_OK)"

text \<open>What a statement can do to the state: any sequence of callbacks.\<close>

inductive callbacks :: "state_ctx \<Rightarrow> state_ctx \<Rightarrow> bool" where
  none: "callbacks c c"
| config: "callbacks c c1 \<Longrightarrow> state_config c1 argv = Some (r, c2) \<Longrightarrow> callbacks c c2"
| random: "callbacks c c1 \<Longrightarrow> state_randomness c1 n = (out, c2) \<Longrightarrow> callbacks c c2"
| page: "callbacks c c1 \<Longrightarrow> state_max_page c1 pages = (r, c2) \<Longrightarrow> callbacks c c2"

section \<open>SQLite\<close>

definition SQLITE_OK :: u32 where "SQLITE_OK = 0"
definition SQLITE_ERROR :: u32 where "SQLITE_ERROR = 1"
definition SQLITE_FULL :: u32 where "SQLITE_FULL = 13"
definition SQLITE_TOOBIG :: u32 where "SQLITE_TOOBIG = 18"
definition SQLITE_CONSTRAINT :: u32 where "SQLITE_CONSTRAINT = 19"
definition SQLITE_MISMATCH :: u32 where "SQLITE_MISMATCH = 20"
definition SQLITE_MISUSE :: u32 where "SQLITE_MISUSE = 21"
definition SQLITE_AUTH :: u32 where "SQLITE_AUTH = 23"
definition SQLITE_RANGE :: u32 where "SQLITE_RANGE = 25"
definition SQLITE_ROW :: u32 where "SQLITE_ROW = 100"
definition SQLITE_DONE :: u32 where "SQLITE_DONE = 101"

definition aux_rc :: "u32 \<Rightarrow> rs_rc" where
  "aux_rc rc =
     (if rc \<in> {SQLITE_OK, SQLITE_ROW, SQLITE_DONE} then RS_OK
      else if rc \<in> {SQLITE_ERROR, SQLITE_TOOBIG, SQLITE_CONSTRAINT, SQLITE_MISMATCH, SQLITE_AUTH, SQLITE_RANGE}
      then RS_ERROR
      else if rc = SQLITE_FULL then RS_FULL
      else RS_FATAL)"

record 'db sqlite =
  q_prepare :: "cstring option \<Rightarrow> state_ctx \<Rightarrow> 'db \<Rightarrow> u32 \<times> nat \<times> state_ctx \<times> 'db"
  q_step :: "nat \<Rightarrow> state_ctx \<Rightarrow> 'db \<Rightarrow> (u32 \<times> state_ctx \<times> 'db) option"
  q_finalize :: "nat \<Rightarrow> 'db \<Rightarrow> 'db"
  q_clear :: "nat \<Rightarrow> 'db \<Rightarrow> 'db"
  q_reset :: "nat \<Rightarrow> 'db \<Rightarrow> 'db"
  q_bind :: "nat \<Rightarrow> u32 \<Rightarrow> sql_value \<Rightarrow> 'db \<Rightarrow> u32 \<times> 'db"
  q_index :: "'db \<Rightarrow> nat \<Rightarrow> cstring option \<Rightarrow> u32"
  q_readonly :: "'db \<Rightarrow> nat \<Rightarrow> bool"
  q_sql :: "'db \<Rightarrow> nat \<Rightarrow> cstring option"
  q_names :: "'db \<Rightarrow> nat \<Rightarrow> cstring list"
  q_row :: "'db \<Rightarrow> nat \<Rightarrow> sql_value list"
  q_changes :: "'db \<Rightarrow> u32"
  q_rowid :: "'db \<Rightarrow> u64"
  q_errmsg :: "'db \<Rightarrow> cstring"
  q_text :: "sql_value \<Rightarrow> cstring option"
  q_int :: "sql_value \<Rightarrow> u64"
  q_blob :: "sql_value \<Rightarrow> bytes"
  q_close :: "'db \<Rightarrow> u32"
  q_localtime :: "u64 \<Rightarrow> cstring option"

record 'db aux =
  ax_db :: 'db
  ax_begin :: nat
  ax_commit :: nat
  ax_rollback :: nat
  ax_add_node :: nat
  ax_rm_node :: nat
  ax_add_session :: nat
  ax_rm_session :: nat
  ax_add_stmt :: nat
  ax_rm_stmt :: nat
  ax_rm_all_stmts :: nat
  ax_add_log :: nat
  ax_rotate_log :: nat

text \<open>A database with what its callbacks see, as the functions below pass them on.\<close>

type_synonym 'db link = "state_ctx \<times> 'db aux"

definition aux_step :: "'db sqlite \<Rightarrow> nat \<Rightarrow> 'db link \<Rightarrow> (u32 \<times> 'db link) option" where
  "aux_step q h = (\<lambda>(c, a). do {
     (rc, c, db) \<leftarrow> q_step q h c (ax_db a);
     Some (rc, c, a\<lparr>ax_db := db\<rparr>) })"

definition aux_prepared :: "'db sqlite \<Rightarrow> cstring option \<Rightarrow> 'db link \<Rightarrow> u32 \<times> nat \<times> 'db link" where
  "aux_prepared q sql = (\<lambda>(c, a). let (rc, h, c, db) = q_prepare q sql c (ax_db a) in (rc, h, c, a\<lparr>ax_db := db\<rparr>))"

definition aux_clear :: "'db sqlite \<Rightarrow> nat \<Rightarrow> 'db link \<Rightarrow> 'db link" where
  "aux_clear q h = (\<lambda>(c, a). (c, a\<lparr>ax_db := q_clear q h (ax_db a)\<rparr>))"

definition aux_finalize :: "'db sqlite \<Rightarrow> nat \<Rightarrow> 'db link \<Rightarrow> 'db link" where
  "aux_finalize q h = (\<lambda>(c, a). (c, a\<lparr>ax_db := q_finalize q h (ax_db a)\<rparr>))"

definition aux_reset :: "'db sqlite \<Rightarrow> nat \<Rightarrow> 'db link \<Rightarrow> 'db link" where
  "aux_reset q h = (\<lambda>(c, a). (c, a\<lparr>ax_db := q_reset q h (ax_db a)\<rparr>))"

text \<open>A sequence of \<^verbatim>\<open>rc |= sqlite3_bind_...\<close>, each with its position.\<close>

primrec aux_bind :: "'db sqlite \<Rightarrow> nat \<Rightarrow> (u32 \<times> sql_value) list \<Rightarrow> u32 \<Rightarrow> 'db link \<Rightarrow> u32 \<times> 'db link" where
  "aux_bind q h [] rc l = (rc, l)"
| "aux_bind q h (v # vs) rc l =
     (let (rc', db) = q_bind q h (fst v) (snd v) (ax_db (snd l))
      in aux_bind q h vs (rc OR rc') (fst l, (snd l)\<lparr>ax_db := db\<rparr>))"

text \<open>The handle stays in the record when the database is closed; nothing uses it any more.\<close>

definition aux_term :: "'db sqlite \<Rightarrow> 'db aux \<Rightarrow> rs_rc \<times> 'db aux" where
  "aux_term q a =
     (let db = foldl (\<lambda>db h. q_finalize q h db) (ax_db a)
            [ax_begin a, ax_commit a, ax_rollback a, ax_add_node a, ax_rm_node a, ax_add_session a, ax_rm_session a,
             ax_add_stmt a, ax_rm_stmt a, ax_rm_all_stmts a, ax_add_log a, ax_rotate_log a]
      in (aux_rc (q_close q db),
          \<lparr>ax_db = db, ax_begin = 0, ax_commit = 0, ax_rollback = 0, ax_add_node = 0, ax_rm_node = 0, ax_add_session = 0,
           ax_rm_session = 0, ax_add_stmt = 0, ax_rm_stmt = 0, ax_rm_all_stmts = 0, ax_add_log = 0, ax_rotate_log = 0\<rparr>))"

definition text_value :: "cstring option \<Rightarrow> sql_value" where
  "text_value s = (case s of None \<Rightarrow> SQL_NULL | Some t \<Rightarrow> SQL_TEXT t)"

section \<open>The tables of the server\<close>

definition aux_exec :: "'db sqlite \<Rightarrow> cstring \<Rightarrow> 'db link \<Rightarrow> (rs_rc \<times> 'db link) option" where
  "aux_exec q sql l =
     (let (rc, h, l) = aux_prepared q (Some sql) l
      in if rc \<noteq> SQLITE_OK then Some (aux_rc rc, l)
         else do {
           (rc, l) \<leftarrow> aux_step q h l;
           Some (aux_rc rc, aux_finalize q h l) })"

definition aux_clear_nodes :: "'db sqlite \<Rightarrow> 'db link \<Rightarrow> (rs_rc \<times> 'db link) option" where
  "aux_clear_nodes q = aux_exec q (str ''DELETE FROM resql_nodes'')"

definition aux_clear_sessions :: "'db sqlite \<Rightarrow> 'db link \<Rightarrow> (rs_rc \<times> 'db link) option" where
  "aux_clear_sessions q = aux_exec q (str ''DELETE FROM resql_clients'')"

record info =
  in_name :: "cstring option"
  in_urls :: "cstring option"
  in_connected :: "cstring option"
  in_role :: "cstring option"
  in_stats :: sc_buf

definition info_create :: "cstring option \<Rightarrow> info" where
  "info_create name =
     \<lparr>in_name = sc_str_create name, in_urls = None, in_connected = None, in_role = None, in_stats = sc_buf_init 1024\<rparr>"

definition info_set_connected :: "info \<Rightarrow> bool \<Rightarrow> info" where
  "info_set_connected n connected =
     n\<lparr>in_connected := snd (sc_str_set (in_connected n) (Some (if connected then str ''true'' else str ''false'')))\<rparr>"

definition info_set_role :: "info \<Rightarrow> cstring option \<Rightarrow> info" where
  "info_set_role n role = n\<lparr>in_role := snd (sc_str_set (in_role n) role)\<rparr>"

definition info_set_urls :: "info \<Rightarrow> cstring option \<Rightarrow> info" where
  "info_set_urls n urls = n\<lparr>in_urls := snd (sc_str_set (in_urls n) urls)\<rparr>"

definition info_set_stats :: "info \<Rightarrow> bytes \<Rightarrow> info" where
  "info_set_stats n data = n\<lparr>in_stats := sc_buf_put_raw (sc_buf_clear (in_stats n)) data\<rparr>"

primrec get_strs :: "nat \<Rightarrow> sc_buf \<Rightarrow> cstring option list \<times> sc_buf" where
  "get_strs 0 b = ([], b)"
| "get_strs (Suc n) b = (let (s, b) = sc_buf_get_str b; (ss, b) = get_strs n b in (s # ss, b))"

text \<open>A node is written with its statistics once: reading them moves their buffer.\<close>

definition aux_write_node :: "'db sqlite \<Rightarrow> info \<Rightarrow> 'db link \<Rightarrow> (rs_rc \<times> info \<times> 'db link) option" where
  "aux_write_node q n l =
     (let h = ax_add_node (snd l);
          vs = map text_value [in_name n, in_connected n, in_role n, in_urls n];
          (ss, b) = (if sc_buf_size (in_stats n) = 0 then ([], in_stats n) else get_strs 34 (in_stats n));
          (rc, l) = aux_bind q h (zip (map of_nat [1..<39]) (vs @ map text_value ss)) 0 l;
          n = n\<lparr>in_stats := b\<rparr>
      in if rc \<noteq> SQLITE_OK then Some (aux_rc rc, n, aux_clear q h l)
         else do {
           (rc, l) \<leftarrow> aux_step q h l;
           Some (aux_rc rc, n, aux_clear q h l) })"

definition aux_add_log ::
  "'db sqlite \<Rightarrow> u64 \<Rightarrow> cstring option \<Rightarrow> cstring option \<Rightarrow> 'db link \<Rightarrow> (rs_rc \<times> 'db link) option" where
  "aux_add_log q sid level log l =
     (let h = ax_add_log (snd l);
          r = ax_rotate_log (snd l);
          out = (\<lambda>rc l. Some (aux_rc rc, aux_clear q r (aux_clear q h l)));
          (rc, l) = aux_bind q h [(1, SQL_INTEGER sid), (2, text_value level), (3, text_value log)] 0 l
      in if rc \<noteq> SQLITE_OK then out rc l
         else do {
           (rc, l) \<leftarrow> aux_step q h l;
           if rc \<noteq> SQLITE_DONE then out rc l
           else do {
             (rc, l) \<leftarrow> aux_step q r l;
             out rc l } })"

definition aux_write_kv :: "'db sqlite \<Rightarrow> cstring \<Rightarrow> bytes \<Rightarrow> 'db link \<Rightarrow> (rs_rc \<times> 'db link) option" where
  "aux_write_kv q key val l =
     (let (rc, h, l) = aux_prepared q (Some (str ''INSERT OR REPLACE INTO resql_kv VALUES(?,?);'')) l
      in if rc \<noteq> SQLITE_OK then Some (aux_rc rc, l)
         else let (rc, l) = aux_bind q h [(1, SQL_TEXT key)] 0 l
           in if rc \<noteq> SQLITE_OK then Some (aux_rc rc, aux_finalize q h l)
              else let (rc, l) = aux_bind q h [(2, SQL_BLOB val)] 0 l
                in if rc \<noteq> SQLITE_OK then Some (aux_rc rc, aux_finalize q h l)
                   else do {
                     (rc, l) \<leftarrow> aux_step q h l;
                     Some (aux_rc rc, aux_finalize q h l) })"

definition aux_read_kv :: "'db sqlite \<Rightarrow> cstring \<Rightarrow> sc_buf \<Rightarrow> 'db link \<Rightarrow> (rs_rc \<times> sc_buf \<times> 'db link) option" where
  "aux_read_kv q key buf l =
     (let (rc, h, l) = aux_prepared q (Some (str ''SELECT value FROM resql_kv where key=?;'')) l
      in if rc \<noteq> SQLITE_OK then Some (aux_rc rc, buf, l)
         else let (rc, l) = aux_bind q h [(1, SQL_TEXT key)] 0 l
           in if rc \<noteq> SQLITE_OK then Some (aux_rc rc, buf, aux_finalize q h l)
              else do {
                (rc, l) \<leftarrow> aux_step q h l;
                if rc \<noteq> SQLITE_ROW then Some (aux_rc rc, buf, aux_finalize q h l)
                else Some (aux_rc rc, sc_buf_put_raw buf (q_blob q (q_row q (ax_db (snd l)) h ! 0)), aux_finalize q h l) })"

definition aux_add_stmt ::
  "'db sqlite \<Rightarrow> cstring option \<Rightarrow> u64 \<Rightarrow> u64 \<Rightarrow> cstring option \<Rightarrow> 'db link \<Rightarrow> (rs_rc \<times> 'db link) option" where
  "aux_add_stmt q client cid sid sql l =
     (let h = ax_add_stmt (snd l);
          (rc, l) = aux_bind q h [(1, SQL_INTEGER sid), (2, SQL_INTEGER cid), (3, text_value client), (4, text_value sql)] 0 l
      in if rc \<noteq> SQLITE_OK then Some (aux_rc rc, aux_clear q h l)
         else do {
           (rc, l) \<leftarrow> aux_step q h l;
           Some (aux_rc rc, aux_clear q h l) })"

definition aux_rm_stmt :: "'db sqlite \<Rightarrow> u64 \<Rightarrow> 'db link \<Rightarrow> (rs_rc \<times> 'db link) option" where
  "aux_rm_stmt q sid l =
     (let h = ax_rm_stmt (snd l);
          (rc, l) = aux_bind q h [(1, SQL_INTEGER sid)] 0 l
      in if rc \<noteq> SQLITE_OK then Some (aux_rc rc, aux_clear q h l)
         else do {
           (rc, l) \<leftarrow> aux_step q h l;
           Some (aux_rc rc, aux_clear q h l) })"

section \<open>Sessions\<close>

record sess =
  sn_name :: "cstring option"
  sn_local :: "cstring option"
  sn_remote :: "cstring option"
  sn_connect_time :: "cstring option"
  sn_id :: u64
  sn_seq :: u64
  sn_disconnect_time :: u64
  sn_resp :: sc_buf
  sn_stmts :: "(u64, nat) sc_map"

definition session_create :: "cstring option \<Rightarrow> u64 \<Rightarrow> sess" where
  "session_create name sid =
     \<lparr>sn_name = sc_str_create name, sn_local = Some [], sn_remote = Some [], sn_connect_time = None, sn_id = sid,
      sn_seq = 0, sn_disconnect_time = 0, sn_resp = sc_buf_init 64, sn_stmts = snd (sc_map_init sc_map_empty 0 0)\<rparr>"

text \<open>The statements of a session that ends; unlinking the session is with its owner.\<close>

definition session_destroy :: "'db sqlite \<Rightarrow> sess \<Rightarrow> 'db link \<Rightarrow> 'db link" where
  "session_destroy q s l = foldl (\<lambda>l x. aux_finalize q (snd x) l) l (sc_map_foreach (sn_stmts s))"

text \<open>The time is local time in text, the answer of \<^verbatim>\<open>localtime_r\<close> and \<^verbatim>\<open>strftime\<close>.\<close>

definition session_connected :: "'db sqlite \<Rightarrow> sess \<Rightarrow> cstring option \<Rightarrow> cstring option \<Rightarrow> u64 \<Rightarrow> sess" where
  "session_connected q s loc remote ts =
     (let s = s\<lparr>sn_disconnect_time := 0, sn_local := snd (sc_str_set (sn_local s) loc),
               sn_remote := snd (sc_str_set (sn_remote s) remote)\<rparr>
      in case q_localtime q (ts div 1000) of
           None \<Rightarrow> s
         | Some t \<Rightarrow> s\<lparr>sn_connect_time := snd (sc_str_set (sn_connect_time s) (Some t))\<rparr>)"

definition session_disconnected :: "sess \<Rightarrow> u64 \<Rightarrow> sess" where
  "session_disconnected s ts = s\<lparr>sn_disconnect_time := ts, sn_local := Some [], sn_remote := Some []\<rparr>"

definition id_of_key :: "u64 option \<Rightarrow> u64" where
  "id_of_key k = (case k of None \<Rightarrow> 0 | Some sid \<Rightarrow> sid)"

text \<open>Looking up a statement by its text; comparing with a null pointer crashes.\<close>

fun find_sql :: "'db sqlite \<Rightarrow> 'db \<Rightarrow> cstring option \<Rightarrow> (u64 option \<times> nat) list \<Rightarrow> u64 option" where
  "find_sql q db sql [] = Some 0"
| "find_sql q db sql ((sid, h) # r) =
     (if sql = None \<or> q_sql q db h = None then None
      else if sql = q_sql q db h then Some (id_of_key sid)
      else find_sql q db sql r)"

definition session_sql_to_id :: "'db sqlite \<Rightarrow> 'db \<Rightarrow> sess \<Rightarrow> cstring option \<Rightarrow> u64 option" where
  "session_sql_to_id q db s sql = find_sql q db sql (sc_map_foreach (sn_stmts s))"

definition session_add_stmt :: "sess \<Rightarrow> u64 \<Rightarrow> nat \<Rightarrow> sess option" where
  "session_add_stmt s sid h = do {
     (r, m) \<leftarrow> sc_map_put kind_64 (sn_stmts s) (key_64 sid) h;
     Some (s\<lparr>sn_stmts := m\<rparr>) }"

definition session_del_stmt :: "'db sqlite \<Rightarrow> sess \<Rightarrow> u64 \<Rightarrow> 'db link \<Rightarrow> (rs_rc \<times> sess \<times> 'db link) option" where
  "session_del_stmt q s sid l = do {
     (h, m) \<leftarrow> sc_map_del kind_64 (sn_stmts s) (key_64 sid);
     Some (if \<not> mp_found m then (RS_ERROR, s\<lparr>sn_stmts := m\<rparr>, l) else (RS_OK, s\<lparr>sn_stmts := m\<rparr>, aux_finalize q h l)) }"

definition session_get_stmt :: "sess \<Rightarrow> u64 \<Rightarrow> (nat \<times> sess) option" where
  "session_get_stmt s sid = do {
     (h, m) \<leftarrow> sc_map_get kind_64 (sn_stmts s) (key_64 sid);
     Some (if mp_found m then h else 0, s\<lparr>sn_stmts := m\<rparr>) }"

text \<open>The rows of the statements of a session; the first failure ends the loop.\<close>

fun write_stmts :: "'db sqlite \<Rightarrow> sess \<Rightarrow> (u64 option \<times> nat) list \<Rightarrow> u32 \<Rightarrow> 'db link \<Rightarrow> (u32 \<times> 'db link) option" where
  "write_stmts q s [] rc l = Some (rc, l)"
| "write_stmts q s ((sid, stmt) # r) rc l =
     (let h = ax_add_stmt (snd l);
          (rc, l) = aux_bind q h [(1, SQL_INTEGER (id_of_key sid)), (2, SQL_INTEGER (sn_id s)), (3, text_value (sn_name s)),
                                  (4, text_value (q_sql q (ax_db (snd l)) stmt))] 0 l
      in if rc \<noteq> SQLITE_OK then Some (rc, l)
         else do {
           (rc, l) \<leftarrow> aux_step q h l;
           if rc \<noteq> SQLITE_DONE then Some (rc, l)
           else write_stmts q s r rc (aux_clear q h l) })"

definition aux_write_session :: "'db sqlite \<Rightarrow> sess \<Rightarrow> 'db link \<Rightarrow> (rs_rc \<times> 'db link) option" where
  "aux_write_session q s l =
     (let h = ax_add_session (snd l);
          out = (\<lambda>rc l. Some (aux_rc rc, aux_clear q h (aux_clear q (ax_add_stmt (snd l)) l)));
          (rc, l) = aux_bind q h
            [(1, text_value (sn_name s)), (2, SQL_INTEGER (sn_id s)), (3, SQL_INTEGER (sn_seq s)), (4, text_value (sn_local s)),
             (5, text_value (sn_remote s)), (6, text_value (sn_connect_time s)), (7, SQL_BLOB (sc_buf_data (sn_resp s)))] 0 l
      in if rc \<noteq> SQLITE_OK then out rc l
         else do {
           (rc, l) \<leftarrow> aux_step q h l;
           if rc \<noteq> SQLITE_DONE then out rc l
           else do {
             (rc, l) \<leftarrow> write_stmts q s (sc_map_foreach (sn_stmts s)) rc (aux_clear q h l);
             out rc l } })"

partial_function (option) read_stmts ::
  "'db sqlite \<Rightarrow> nat \<Rightarrow> sess \<Rightarrow> 'db link \<Rightarrow> (u32 \<times> sess \<times> 'db link) option" where
  "read_stmts q tb s l = do {
     (rc, l) \<leftarrow> aux_step q tb l;
     if rc \<noteq> SQLITE_ROW then Some (rc, s, l)
     else let row = q_row q (ax_db (snd l)) tb;
              sid = q_int q (row ! 0);
              (rc, h, l) = aux_prepared q (q_text q (row ! 3)) l
          in if rc \<noteq> SQLITE_OK
             then if aux_rc rc \<noteq> RS_ERROR then Some (rc, s, l) else read_stmts q tb s l
             else do {
               s \<leftarrow> session_add_stmt s sid h;
               read_stmts q tb s l } }"

definition aux_read_session ::
  "'db sqlite \<Rightarrow> sess \<Rightarrow> nat \<Rightarrow> nat \<Rightarrow> 'db link \<Rightarrow> (rs_rc \<times> sess \<times> 'db link) option" where
  "aux_read_session q s sess_tb stmt_tb l =
     (let row = q_row q (ax_db (snd l)) sess_tb;
          s = s\<lparr>sn_name := snd (sc_str_set (sn_name s) (q_text q (row ! 0))), sn_id := q_int q (row ! 1), sn_seq := q_int q (row ! 2),
                sn_local := snd (sc_str_set (sn_local s) (q_text q (row ! 3))),
                sn_remote := snd (sc_str_set (sn_remote s) (q_text q (row ! 4))),
                sn_connect_time := snd (sc_str_set (sn_connect_time s) (q_text q (row ! 5))),
                sn_resp := sc_buf_put_raw (sc_buf_clear (sn_resp s)) (q_blob q (row ! 6))\<rparr>
      in if \<not> sc_buf_valid (sn_resp s) then Some (RS_ERROR, s\<lparr>sn_resp := sc_buf_clear (sn_resp s)\<rparr>, l)
         else let (rc, l) = aux_bind q stmt_tb [(1, SQL_INTEGER (sn_id s))] 0 l
           in if rc \<noteq> SQLITE_OK then Some (aux_rc rc, s, aux_clear q stmt_tb l)
              else do {
                (rc, s, l) \<leftarrow> read_stmts q stmt_tb s l;
                Some (aux_rc rc, s, aux_clear q stmt_tb l) })"

definition aux_del_session :: "'db sqlite \<Rightarrow> sess \<Rightarrow> 'db link \<Rightarrow> (rs_rc \<times> 'db link) option" where
  "aux_del_session q s l =
     (let h = ax_rm_session (snd l);
          r = ax_rm_all_stmts (snd l);
          out = (\<lambda>rc l. Some (aux_rc rc, aux_clear q r (aux_clear q h l)));
          (rc, l) = aux_bind q h [(1, text_value (sn_name s))] 0 (aux_reset q h l)
      in if rc \<noteq> SQLITE_OK then out rc l
         else do {
           (rc, l) \<leftarrow> aux_step q h l;
           if rc \<noteq> SQLITE_DONE then out rc l
           else let (rc, l) = aux_bind q r [(1, SQL_INTEGER (sn_id s))] 0 (aux_reset q r l)
             in if rc \<noteq> SQLITE_OK then out rc l
                else do {
                  (rc, l) \<leftarrow> aux_step q r l;
                  out rc l } })"

end
