(* ===== verification/State.thy ===== *)
theory State
  imports Sql_Aux
begin

text \<open>
  The state machine, \<^verbatim>\<open>src/state.c\<close>: what a committed entry does to the database and to the sessions
  of the clients. Sessions and node descriptions are objects: a pointer is a number, the state holds
  what it points to. The maps are the hash maps of \<open>Sc_Map\<close>, the list of disconnected sessions is the
  linked list of \<open>Sc_List\<close> with its head at address zero. No result means that the call does not
  return, because the process aborts or crashes or a statement runs forever.

  Opening a state from the files of a snapshot is not modelled; reading what a snapshot holds is.
\<close>

unbundle bit_operations_syntax

section \<open>The state\<close>

record 'db state =
  sx_ctx :: state_ctx
  sx_aux :: "'db aux"
  sx_last_err :: "cstring option"
  sx_meta :: meta
  sx_term :: u64
  sx_index :: u64
  sx_timestamp :: u64
  sx_monotonic :: u64
  sx_links :: sc_list
  sx_sess :: "nat \<Rightarrow> sess"
  sx_fresh :: nat
  sx_info :: "nat \<Rightarrow> info"
  sx_ifresh :: nat
  sx_nodes :: "(cstring, nat) sc_map"
  sx_names :: "(cstring, nat) sc_map"
  sx_ids :: "(u64, nat) sc_map"
  sx_tmp :: sc_buf
  sx_closed :: bool

definition link :: "'db state \<Rightarrow> 'db link" where
  "link st = (sx_ctx st, sx_aux st)"

definition relink :: "'db state \<Rightarrow> 'db link \<Rightarrow> 'db state" where
  "relink st l = st\<lparr>sx_ctx := fst l, sx_aux := snd l\<rparr>"

definition db_of :: "'db state \<Rightarrow> 'db" where
  "db_of st = ax_db (sx_aux st)"

text \<open>Running a function of the database layer.\<close>

definition on_aux :: "('db link \<Rightarrow> (rs_rc \<times> 'db link) option) \<Rightarrow> 'db state \<Rightarrow> (rs_rc \<times> 'db state) option" where
  "on_aux f st = do {
     (rc, l) \<leftarrow> f (link st);
     Some (rc, relink st l) }"

definition set_sess :: "'db state \<Rightarrow> nat \<Rightarrow> sess \<Rightarrow> 'db state" where
  "set_sess st p s = st\<lparr>sx_sess := (sx_sess st)(p := s)\<rparr>"

definition set_info :: "'db state \<Rightarrow> nat \<Rightarrow> info \<Rightarrow> 'db state" where
  "set_info st p n = st\<lparr>sx_info := (sx_info st)(p := n)\<rparr>"

definition set_client_flag :: "bool \<Rightarrow> 'db state \<Rightarrow> 'db state" where
  "set_client_flag b st = st\<lparr>sx_ctx := (sx_ctx st)\<lparr>cx_client := b\<rparr>\<rparr>"

definition rand_zero :: sc_rand where
  "rand_zero = \<lparr>r_i = 0, r_j = 0, r_init = replicate 256 0\<rparr>"

definition state_init :: "'db aux \<Rightarrow> (server_job \<Rightarrow> cstring option) option \<Rightarrow> cstring option \<Rightarrow> 'db state" where
  "state_init aux cb name =
     \<lparr>sx_ctx = \<lparr>cx_cb = cb, cx_client = False, cx_readonly = False, cx_full = False, cx_max_page = 4294967295,
        cx_timeout = 60000, cx_realtime = 0, cx_wrand = rand_zero, cx_rrand = rand_zero, cx_jobs = []\<rparr>,
      sx_aux = aux, sx_last_err = None, sx_meta = meta_init name, sx_term = 0, sx_index = 0, sx_timestamp = 0,
      sx_monotonic = 0, sx_links = sc_list_init \<lparr>nxt = (\<lambda>a. 0), prv = (\<lambda>a. 0)\<rparr> 0,
      sx_sess = (\<lambda>p. session_create None 0), sx_fresh = 1, sx_info = (\<lambda>p. info_create None), sx_ifresh = 1,
      sx_nodes = snd (sc_map_init sc_map_empty 16 0), sx_names = snd (sc_map_init sc_map_empty 16 0),
      sx_ids = snd (sc_map_init sc_map_empty 16 0), sx_tmp = sc_buf_init 1024, sx_closed = False\<rparr>"

section \<open>Writing and reading the state\<close>

primrec write_infos :: "'db sqlite \<Rightarrow> nat list \<Rightarrow> 'db state \<Rightarrow> (rs_rc \<times> 'db state) option" where
  "write_infos q [] st = Some (RS_OK, st)"
| "write_infos q (p # ps) st = do {
     (rc, n, l) \<leftarrow> aux_write_node q (sx_info st p) (link st);
     let st = set_info (relink st l) p n;
     if rc \<noteq> RS_OK then Some (rc, st) else write_infos q ps st }"

definition state_write_infos :: "'db sqlite \<Rightarrow> 'db state \<Rightarrow> (rs_rc \<times> 'db state) option" where
  "state_write_infos q st =
     ok_bind (on_aux (aux_clear_nodes q) st) (\<lambda>st. write_infos q (map snd (sc_map_foreach (sx_nodes st))) st)"

definition put_vars :: "'db state \<Rightarrow> sc_buf \<Rightarrow> sc_buf" where
  "put_vars st b =
     (let c = sx_ctx st;
          b = sc_buf_put_64 b (sx_term st);
          b = sc_buf_put_64 b (sx_index st);
          b = sc_buf_put_64 b (cx_max_page c);
          b = sc_buf_put_64 b (cx_timeout c);
          b = meta_encode (sx_meta st) b;
          b = sc_buf_put_64 b (sx_timestamp st);
          b = sc_buf_put_64 b (cx_realtime c);
          b = sc_buf_put_64 b (sx_monotonic st);
          b = sc_buf_put_8 b (r_i (cx_wrand c));
          b = sc_buf_put_8 b (r_j (cx_wrand c))
      in sc_buf_put_raw b (r_init (cx_wrand c)))"

definition state_write_vars :: "'db sqlite \<Rightarrow> 'db state \<Rightarrow> (rs_rc \<times> 'db state) option" where
  "state_write_vars q st =
     (let b = put_vars st (sc_buf_clear (sx_tmp st));
          st = st\<lparr>sx_tmp := b\<rparr>
      in ok_bind (on_aux (aux_write_kv q (str ''var'') (sc_buf_data b)) st) (\<lambda>st.
           let name = (case m_name (sx_meta st) of None \<Rightarrow> [] | Some s \<Rightarrow> s @ [0]);
               b = sc_buf_put_raw (sc_buf_clear (sx_tmp st)) name;
               st = st\<lparr>sx_tmp := b\<rparr>
           in on_aux (aux_write_kv q (str ''cluster_name'') (sc_buf_data b)) st))"

definition get_vars :: "'db state \<Rightarrow> sc_buf \<Rightarrow> ('db state \<times> sc_buf) option" where
  "get_vars st b =
     (let (term', b) = sc_buf_get_64 b;
          (index, b) = sc_buf_get_64 b;
          (max_page, b) = sc_buf_get_64 b;
          (timeout, b) = sc_buf_get_64 b
      in do {
        (m, b) \<leftarrow> meta_decode (sx_meta st) b;
        let (timestamp, b) = sc_buf_get_64 b;
        let (realtime, b) = sc_buf_get_64 b;
        let (monotonic, b) = sc_buf_get_64 b;
        let (i, b) = sc_buf_get_8 b;
        let (j, b) = sc_buf_get_8 b;
        let (ini, b) = sc_buf_get_data b 256;
        let c = (sx_ctx st)\<lparr>cx_max_page := max_page, cx_timeout := timeout, cx_realtime := realtime,
                  cx_wrand := \<lparr>r_i = i, r_j = j, r_init = ini\<rparr>, cx_rrand := sc_rand_init ini\<rparr>;
        Some (st\<lparr>sx_term := term', sx_index := index, sx_meta := m, sx_timestamp := timestamp,
                 sx_monotonic := monotonic, sx_ctx := c\<rparr>, b) })"

definition add_session :: "'db state \<Rightarrow> sess \<Rightarrow> nat \<times> 'db state" where
  "add_session st s =
     (let p = sx_fresh st
      in (p, (set_sess st p s)\<lparr>sx_fresh := p + 1, sx_links := sc_list_init (sx_links st) p\<rparr>))"

definition put_ids :: "'db state \<Rightarrow> u64 \<Rightarrow> nat \<Rightarrow> 'db state option" where
  "put_ids st sid p = do {
     (r, m) \<leftarrow> sc_map_put kind_64 (sx_ids st) (key_64 sid) p;
     Some (st\<lparr>sx_ids := m\<rparr>) }"

definition put_names :: "'db state \<Rightarrow> cstring option \<Rightarrow> nat \<Rightarrow> 'db state option" where
  "put_names st name p = do {
     (r, m) \<leftarrow> sc_map_put kind_str (sx_names st) name p;
     Some (st\<lparr>sx_names := m\<rparr>) }"

text \<open>The loop over the rows of the sessions; a row that cannot be read aborts.\<close>

partial_function (option) read_sessions :: "'db sqlite \<Rightarrow> nat \<Rightarrow> nat \<Rightarrow> 'db state \<Rightarrow> (u32 \<times> 'db state) option" where
  "read_sessions q tb stmts st = do {
     (rc, l) \<leftarrow> aux_step q tb (link st);
     let st = relink st l;
     if rc \<noteq> SQLITE_ROW then Some (rc, st)
     else do {
       (rc, s, l) \<leftarrow> aux_read_session q (session_create (Some []) 0) tb stmts (link st);
       if rc = RS_ERROR then None
       else do {
         let (p, st) = add_session (relink st l) s;
         st \<leftarrow> put_ids st (sn_id s) p;
         st \<leftarrow> put_names st (sn_name s) p;
         read_sessions q tb stmts st } } }"

definition state_read_vars :: "'db sqlite \<Rightarrow> 'db state \<Rightarrow> (rs_rc \<times> 'db state) option" where
  "state_read_vars q st = do {
     (rc, b, l) \<leftarrow> aux_read_kv q (str ''var'') (sc_buf_clear (sx_tmp st)) (link st);
     let st = (relink st l)\<lparr>sx_tmp := b\<rparr>;
     if rc \<noteq> RS_OK then Some (rc, st)
     else do {
       (st, b) \<leftarrow> get_vars st b;
       let (rc, tb, l) = aux_prepared q (Some (str ''SELECT * FROM resql_clients'')) (link st);
       let st = (relink st l)\<lparr>sx_tmp := b\<rparr>;
       if rc \<noteq> SQLITE_OK then Some (RS_ERROR, st)
       else do {
         let (rc, stmts, l) = aux_prepared q (Some (str ''SELECT * FROM resql_statements WHERE client_id = (?)'')) (link st);
         let st = relink st l;
         if rc \<noteq> SQLITE_OK then Some (RS_ERROR, st)
         else do {
           (rc, st) \<leftarrow> read_sessions q tb stmts st;
           if rc \<noteq> SQLITE_DONE then None
           else Some (RS_OK, relink st (aux_finalize q stmts (aux_finalize q tb (link st)))) } } } }"

section \<open>Clients\<close>

definition new_session :: "'db state \<Rightarrow> cstring option \<Rightarrow> (nat \<times> 'db state) option" where
  "new_session st name = do {
     let s = session_create name (sx_index st);
     let (p, st) = add_session st s;
     st \<leftarrow> put_names st (sn_name s) p;
     st \<leftarrow> put_ids st (sn_id s) p;
     Some (p, st) }"

definition state_on_client_connect ::
  "'db sqlite \<Rightarrow> 'db state \<Rightarrow> cstring option \<Rightarrow> cstring option \<Rightarrow> cstring option \<Rightarrow> (rs_rc \<times> nat \<times> 'db state) option" where
  "state_on_client_connect q st name loc remote = do {
     (p, m) \<leftarrow> sc_map_get kind_str (sx_names st) name;
     let st = st\<lparr>sx_names := m\<rparr>;
     (p, st) \<leftarrow> (if mp_found m then Some (p, st) else new_session st name);
     let s = session_connected q (sx_sess st p) loc remote (cx_realtime (sx_ctx st));
     let st = (set_sess st p s)\<lparr>sx_links := sc_list_del (sx_links st) p\<rparr>;
     (rc, st) \<leftarrow> on_aux (aux_write_session q s) st;
     Some (rc, p, st) }"

definition del_maps :: "'db state \<Rightarrow> cstring option \<Rightarrow> u64 \<Rightarrow> 'db state option" where
  "del_maps st name sid = do {
     (r, m) \<leftarrow> sc_map_del kind_str (sx_names st) name;
     (r, n) \<leftarrow> sc_map_del kind_64 (sx_ids st) (key_64 sid);
     Some (st\<lparr>sx_names := m, sx_ids := n\<rparr>) }"

text \<open>Unlinking and freeing a session.\<close>

definition drop_session :: "'db sqlite \<Rightarrow> 'db state \<Rightarrow> nat \<Rightarrow> 'db state" where
  "drop_session q st p =
     (relink st (session_destroy q (sx_sess st p) (link st)))\<lparr>sx_links := sc_list_del (sx_links st) p\<rparr>"

definition state_on_client_disconnect :: "'db sqlite \<Rightarrow> 'db state \<Rightarrow> cstring option \<Rightarrow> bool \<Rightarrow> (rs_rc \<times> 'db state) option" where
  "state_on_client_disconnect q st name clean = do {
     (p, m) \<leftarrow> sc_map_get kind_str (sx_names st) name;
     let st = st\<lparr>sx_names := m\<rparr>;
     if \<not> mp_found m then Some (RS_OK, st)
     else let s = session_disconnected (sx_sess st p) (sx_timestamp st);
              st = set_sess st p s
       in if clean
          then ok_bind (on_aux (aux_del_session q s) st) (\<lambda>st. do {
                 st \<leftarrow> del_maps st name (sn_id s);
                 Some (RS_OK, drop_session q st p) })
          else ok_bind (on_aux (aux_write_session q s) st)
                 (\<lambda>st. Some (RS_OK, st\<lparr>sx_links := sc_list_add_tail (sx_links st) 0 p\<rparr>)) }"

primrec disconnect_all :: "'db sqlite \<Rightarrow> cstring option list \<Rightarrow> 'db state \<Rightarrow> (rs_rc \<times> 'db state) option" where
  "disconnect_all q [] st = Some (RS_OK, st)"
| "disconnect_all q (n # ns) st = ok_bind (state_on_client_disconnect q st n False) (disconnect_all q ns)"

definition state_on_term_start :: "'db sqlite \<Rightarrow> 'db state \<Rightarrow> u64 \<Rightarrow> u64 \<Rightarrow> u64 \<Rightarrow> (rs_rc \<times> 'db state) option" where
  "state_on_term_start q st index realtime monotonic =
     (let c = sx_ctx st;
          st = st\<lparr>sx_ctx := c\<lparr>cx_realtime := if cx_realtime c > realtime then cx_realtime c else realtime\<rparr>,
                  sx_monotonic := monotonic\<rparr>
      in ok_bind (disconnect_all q (map fst (sc_map_foreach (sx_names st))) st)
           (on_aux (aux_add_log q index (Some (str ''INFO'')) (Some (str ''Term start'')))))"

text \<open>The loop over the disconnected sessions; \<open>n\<close> is read before the body.\<close>

partial_function (option) expire :: "'db sqlite \<Rightarrow> nat \<Rightarrow> nat \<Rightarrow> 'db state \<Rightarrow> (rs_rc \<times> 'db state) option" where
  "expire q p n st =
     (if p = 0 then Some (RS_OK, st)
      else if sx_timestamp st - sn_disconnect_time (sx_sess st p) > 60000
      then do {
        (rc, st) \<leftarrow> on_aux (aux_del_session q (sx_sess st p)) st;
        if rc \<noteq> RS_OK then Some (rc, st)
        else do {
          st \<leftarrow> del_maps st (sn_name (sx_sess st p)) (sn_id (sx_sess st p));
          let st = drop_session q st p;
          expire q n (nxt (sx_links st) n) st } }
      else expire q n (nxt (sx_links st) n) st)"

definition state_on_timestamp :: "'db sqlite \<Rightarrow> 'db state \<Rightarrow> u64 \<Rightarrow> u64 \<Rightarrow> (rs_rc \<times> 'db state) option" where
  "state_on_timestamp q st realtime monotonic =
     (let st = st\<lparr>sx_timestamp := sx_timestamp st + (monotonic - sx_monotonic st), sx_monotonic := monotonic,
                  sx_ctx := (sx_ctx st)\<lparr>cx_realtime := realtime\<rparr>\<rparr>;
          p = nxt (sx_links st) 0
      in expire q p (nxt (sx_links st) p) st)"

section \<open>Nodes\<close>

fun dec :: "nat \<Rightarrow> cstring" where
  "dec n = (if n < 10 then [48 + of_nat n] else dec (n div 10) @ [48 + of_nat (n mod 10)])"

text \<open>The names of the roles; another number is read past the end of the array.\<close>

definition meta_role_str :: "u8 \<Rightarrow> cstring option" where
  "meta_role_str r = (if r = META_LEADER then Some (str ''leader'') else if r = META_FOLLOWER then Some (str ''follower'') else None)"

definition update_info :: "'db state \<Rightarrow> meta_node \<Rightarrow> 'db state option" where
  "update_info st n = do {
     (p, m) \<leftarrow> sc_map_get kind_str (sx_nodes st) (mn_name n);
     let st = st\<lparr>sx_nodes := m\<rparr>;
     (p, st) \<leftarrow> (if mp_found m then Some (p, st)
                 else do {
                   let p = sx_ifresh st;
                   let i = info_create (mn_name n);
                   (r, m) \<leftarrow> sc_map_put kind_str (sx_nodes st) (in_name i) p;
                   Some (p, (set_info st p i)\<lparr>sx_ifresh := p + 1, sx_nodes := m\<rparr>) });
     role \<leftarrow> meta_role_str (mn_role n);
     if \<exists>u \<in> set (mn_uris n). u = None then None
     else let i = info_set_role (sx_info st p) (Some role);
              b = foldl (\<lambda>b u. sc_buf_put_text b (Some (u_str (the u)))) (sc_buf_clear (sx_tmp st)) (mn_uris n);
              i = info_set_urls i (Some (cstr_at (mem b) 0))
          in Some ((set_info st p i)\<lparr>sx_tmp := b\<rparr>) }"

primrec update_infos :: "'db state \<Rightarrow> meta_node list \<Rightarrow> 'db state option" where
  "update_infos st [] = Some st"
| "update_infos st (n # ns) = do { st \<leftarrow> update_info st n; update_infos st ns }"

definition state_update_info :: "'db state \<Rightarrow> 'db state option" where
  "state_update_info st = update_infos st (m_nodes (sx_meta st))"

primrec has_node :: "meta_node list \<Rightarrow> cstring option \<Rightarrow> bool option" where
  "has_node [] name = Some False"
| "has_node (n # ns) name =
     (if mn_name n = None \<or> name = None then None
      else if mn_name n = name then Some True else has_node ns name)"

text \<open>
  The loop over the descriptions of nodes, by position, that deletes those that are not in the
  cluster any more. Leaving the body leaves only the inner of the two loops of
  \<^verbatim>\<open>sc_map_foreach\<close>, so the loop goes on with the map as the deletion left it.
\<close>

definition prune_at :: "meta_node list \<Rightarrow> cstring option \<Rightarrow> (cstring, nat) sc_map \<Rightarrow> (cstring, nat) sc_map option" where
  "prune_at ns name m = do {
     found \<leftarrow> has_node ns name;
     if found then Some m else do { (r, m) \<leftarrow> sc_map_del kind_str m name; Some m } }"

primrec prune_from :: "meta_node list \<Rightarrow> nat list \<Rightarrow> (cstring, nat) sc_map \<Rightarrow> (cstring, nat) sc_map option" where
  "prune_from ns [] m = Some m"
| "prune_from ns (i # is) m = do {
     m \<leftarrow> (if mi_key (mp_mem m ! i) \<noteq> None then prune_at ns (mi_key (mp_mem m ! i)) m else Some m);
     prune_from ns is m }"

definition prune_nodes :: "meta_node list \<Rightarrow> (cstring, nat) sc_map \<Rightarrow> (cstring, nat) sc_map option" where
  "prune_nodes ns m = do {
     m \<leftarrow> (if mp_used m then prune_at ns None m else Some m);
     prune_from ns [0..<mp_cap m] m }"

definition meta_text :: "meta \<Rightarrow> sc_buf \<Rightarrow> sc_buf" where
  "meta_text m b =
     foldl (\<lambda>b n. sc_buf_put_text b (Some (str ''['' @ the_default [] (mn_name n) @ str '':'' @
               the_default [] (meta_role_str (mn_role n)) @ str ''] '')))
       (sc_buf_put_text b (Some (str ''Term['' @ dec (unat (m_term m)) @ str ''] : ''))) (m_nodes m)"

definition state_on_meta :: "'db sqlite \<Rightarrow> 'db state \<Rightarrow> u64 \<Rightarrow> meta \<Rightarrow> (rs_rc \<times> 'db state) option" where
  "state_on_meta q st index m = do {
     let st = st\<lparr>sx_meta := meta_copy m\<rparr>;
     ns \<leftarrow> prune_nodes (m_nodes (sx_meta st)) (sx_nodes st);
     st \<leftarrow> state_update_info (st\<lparr>sx_nodes := ns\<rparr>);
     ok_bind (state_write_infos q st) (\<lambda>st.
       ok_bind (state_write_vars q st) (\<lambda>st.
         let b = meta_text (sx_meta st) (sc_buf_clear (sx_tmp st));
             st = st\<lparr>sx_tmp := b\<rparr>
         in on_aux (aux_add_log q index (Some (str ''INFO'')) (Some (cstr_at (mem b) 0))) st)) }"

text \<open>A description that is cut off has no statistics to copy from.\<close>

partial_function (option) read_infos :: "'db state \<Rightarrow> sc_buf \<Rightarrow> 'db state option" where
  "read_infos st b =
     (if sc_buf_size b = 0 then Some st
      else let (name, b) = sc_buf_get_str b;
               (connected, b) = sc_buf_get_bool b;
               (len, b) = sc_buf_get_32 b;
               (ptr, b) = sc_buf_get_blob b (unat len)
           in do {
             (p, m) \<leftarrow> sc_map_get kind_str (sx_nodes st) name;
             let st = st\<lparr>sx_nodes := m\<rparr>;
             let i = info_set_connected (sx_info st p) connected;
             if mp_found m \<and> len \<noteq> 0 \<and> ptr = None then None
             else let i = (if len \<noteq> 0 then info_set_stats i (the ptr) else i)
               in read_infos (if mp_found m then set_info st p i else st) b })"

definition state_on_info :: "'db sqlite \<Rightarrow> 'db state \<Rightarrow> sc_buf \<Rightarrow> (rs_rc \<times> 'db state) option" where
  "state_on_info q st b = do {
     st \<leftarrow> read_infos st b;
     state_write_infos q st }"

section \<open>Closing\<close>

text \<open>Every session is written and freed; the code of the last failure is kept.\<close>

primrec close_sessions :: "'db sqlite \<Rightarrow> nat list \<Rightarrow> rs_rc \<Rightarrow> 'db state \<Rightarrow> (rs_rc \<times> 'db state) option" where
  "close_sessions q [] ret st = Some (ret, st)"
| "close_sessions q (p # ps) ret st = do {
     (rc, st) \<leftarrow> on_aux (aux_write_session q (sx_sess st p)) st;
     close_sessions q ps (if rc \<noteq> RS_OK then rc else ret) (drop_session q st p) }"

definition state_close :: "'db sqlite \<Rightarrow> 'db state \<Rightarrow> (rs_rc \<times> 'db state) option" where
  "state_close q st =
     (if sx_closed st then Some (RS_OK, st)
      else do {
        let st = st\<lparr>sx_closed := True, sx_ctx := (sx_ctx st)\<lparr>cx_client := False, cx_readonly := False\<rparr>\<rparr>;
        (rc, st) \<leftarrow> state_write_vars q st;
        let ret = rc;
        (rc, st) \<leftarrow> on_aux (aux_clear_sessions q) st;
        let ret = (if rc \<noteq> RS_OK then rc else ret);
        let ps = map snd (sc_map_foreach (sx_names st));
        let st = st\<lparr>sx_links := foldl sc_list_del (sx_links st) ps\<rparr>;
        (ret, st) \<leftarrow> close_sessions q ps ret st;
        let (rc, aux) = aux_term q (sx_aux st);
        Some (if rc \<noteq> RS_OK then rc else ret,
              st\<lparr>sx_aux := aux, sx_names := sc_map_term (sx_names st), sx_ids := sc_map_term (sx_ids st),
                 sx_nodes := sc_map_term (sx_nodes st), sx_meta := meta_term (sx_meta st)\<rparr>) })"

section \<open>Requests\<close>

definition MSG_FLAG_OK :: u8 where "MSG_FLAG_OK = 0"
definition MSG_FLAG_ERROR :: u8 where "MSG_FLAG_ERROR = 1"
definition MSG_FLAG_STMT :: u8 where "MSG_FLAG_STMT = 2"
definition MSG_FLAG_STMT_ID :: u8 where "MSG_FLAG_STMT_ID = 3"
definition MSG_FLAG_STMT_PREPARE :: u8 where "MSG_FLAG_STMT_PREPARE = 4"
definition MSG_FLAG_STMT_DEL_PREPARED :: u8 where "MSG_FLAG_STMT_DEL_PREPARED = 5"
definition MSG_FLAG_OP :: u8 where "MSG_FLAG_OP = 6"
definition MSG_FLAG_OP_END :: u8 where "MSG_FLAG_OP_END = 7"
definition MSG_FLAG_ROW :: u8 where "MSG_FLAG_ROW = 8"
definition MSG_FLAG_MSG_END :: u8 where "MSG_FLAG_MSG_END = 9"

definition MSG_PARAM_INTEGER :: u8 where "MSG_PARAM_INTEGER = 0"
definition MSG_PARAM_FLOAT :: u8 where "MSG_PARAM_FLOAT = 1"
definition MSG_PARAM_TEXT :: u8 where "MSG_PARAM_TEXT = 2"
definition MSG_PARAM_BLOB :: u8 where "MSG_PARAM_BLOB = 3"
definition MSG_PARAM_NULL :: u8 where "MSG_PARAM_NULL = 4"

definition MSG_BIND_NAME :: u8 where "MSG_BIND_NAME = 0"
definition MSG_BIND_INDEX :: u8 where "MSG_BIND_INDEX = 1"
definition MSG_BIND_END :: u8 where "MSG_BIND_END = 2"

lemmas msg_flags =
  MSG_FLAG_OK_def MSG_FLAG_ERROR_def MSG_FLAG_STMT_def MSG_FLAG_STMT_ID_def MSG_FLAG_STMT_PREPARE_def
  MSG_FLAG_STMT_DEL_PREPARED_def MSG_FLAG_OP_def MSG_FLAG_OP_END_def MSG_FLAG_ROW_def MSG_FLAG_MSG_END_def

lemmas msg_params =
  MSG_PARAM_INTEGER_def MSG_PARAM_FLOAT_def MSG_PARAM_TEXT_def MSG_PARAM_BLOB_def MSG_PARAM_NULL_def
  MSG_BIND_NAME_def MSG_BIND_INDEX_def MSG_BIND_END_def

definition set_err :: "string \<Rightarrow> 'db state \<Rightarrow> 'db state" where
  "set_err e st = st\<lparr>sx_last_err := Some (str e)\<rparr>"

definition state_errstr :: "'db sqlite \<Rightarrow> 'db state \<Rightarrow> cstring \<times> 'db state" where
  "state_errstr q st =
     (case sx_last_err st of
        Some e \<Rightarrow> (e, st\<lparr>sx_last_err := None\<rparr>)
      | None \<Rightarrow> (q_errmsg q (db_of st), st))"

text \<open>The value of a parameter; a text has the length of its header, a null pointer is bound as NULL.\<close>

definition bind_value :: "u8 \<Rightarrow> sc_buf \<Rightarrow> sql_value option \<times> sc_buf" where
  "bind_value ty req =
     (if ty = MSG_PARAM_INTEGER then let (v, req) = sc_buf_get_64 req in (Some (SQL_INTEGER v), req)
      else if ty = MSG_PARAM_FLOAT then let (v, req) = sc_buf_get_double req in (Some (SQL_FLOAT v), req)
      else if ty = MSG_PARAM_TEXT then
        let (len, req) = sc_buf_peek_32 req;
            (p, req) = sc_buf_get_str_pos req
        in (Some (case p of None \<Rightarrow> SQL_NULL | Some p \<Rightarrow> SQL_TEXT (slice (mem req) p (unat len))), req)
      else if ty = MSG_PARAM_BLOB then
        let (len, req) = sc_buf_get_32 req;
            (d, req) = sc_buf_get_blob req (unat len)
        in (Some (case d of None \<Rightarrow> SQL_NULL | Some d \<Rightarrow> SQL_BLOB d), req)
      else if ty = MSG_PARAM_NULL then (Some SQL_NULL, req)
      else (None, req))"

text \<open>Which parameter is bound: its position from one on, or what is wrong.\<close>

definition bind_index :: "'db sqlite \<Rightarrow> 'db state \<Rightarrow> nat \<Rightarrow> u8 \<Rightarrow> sc_buf \<Rightarrow> (string + u32) \<times> sc_buf" where
  "bind_index q st h ty req =
     (if ty = MSG_BIND_INDEX then let (i, req) = sc_buf_get_32 req in (Inr (i + 1), req)
      else if ty = MSG_BIND_NAME then
        let (name, req) = sc_buf_get_str req;
            i = q_index q (db_of st) h name
        in (if i = 0 then Inl ''Invalid parameter name'' else Inr i, req)
      else (Inl ''Invalid message'', req))"

partial_function (option) state_bind_params ::
  "'db sqlite \<Rightarrow> 'db state \<Rightarrow> sc_buf \<Rightarrow> nat \<Rightarrow> (rs_rc \<times> sc_buf \<times> 'db state) option" where
  "state_bind_params q st req h =
     (let (ty, req) = sc_buf_get_8 req
      in if ty = MSG_BIND_END then Some (RS_OK, req, st)
         else let (i, req) = bind_index q st h ty req
           in case i of
             Inl e \<Rightarrow> Some (RS_ERROR, req, set_err e st)
           | Inr i \<Rightarrow>
               let (ty, req) = sc_buf_get_8 req;
                   (v, req) = bind_value ty req
               in case v of
                 None \<Rightarrow> Some (RS_ERROR, req, set_err ''Invalid message'' st)
               | Some v \<Rightarrow>
                   let (rc, l) = aux_bind q h [(i, v)] 0 (link st);
                       st = relink st l
                   in if rc \<noteq> SQLITE_OK then Some (aux_rc rc, req, st) else state_bind_params q st req h)"

primrec encode_value :: "sql_value \<Rightarrow> sc_buf \<Rightarrow> sc_buf" where
  "encode_value (SQL_INTEGER v) b = sc_buf_put_64 (sc_buf_put_8 b MSG_PARAM_INTEGER) v"
| "encode_value (SQL_FLOAT v) b = sc_buf_put_double (sc_buf_put_8 b MSG_PARAM_FLOAT) v"
| "encode_value (SQL_TEXT t) b = sc_buf_put_str_len (sc_buf_put_8 b MSG_PARAM_TEXT) (Some t)"
| "encode_value (SQL_BLOB d) b = sc_buf_put_blob (sc_buf_put_8 b MSG_PARAM_BLOB) d"
| "encode_value SQL_NULL b = sc_buf_put_8 b MSG_PARAM_NULL"

definition state_encode_row :: "sql_value list \<Rightarrow> sc_buf \<Rightarrow> sc_buf" where
  "state_encode_row vs b = foldl (\<lambda>b v. encode_value v b) b vs"

partial_function (option) step_rows ::
  "'db sqlite \<Rightarrow> 'db state \<Rightarrow> nat \<Rightarrow> sc_buf \<Rightarrow> u32 \<Rightarrow> (u32 \<times> u32 \<times> sc_buf \<times> 'db state) option" where
  "step_rows q st h resp row = do {
     let row = row + 1;
     let resp = state_encode_row (q_row q (db_of st) h) resp;
     (rc, l) \<leftarrow> aux_step q h (link st);
     let st = relink st l;
     if rc = SQLITE_ROW then step_rows q st h resp row else Some (rc, row, resp, st) }"

definition state_step :: "'db sqlite \<Rightarrow> 'db state \<Rightarrow> nat \<Rightarrow> sc_buf \<Rightarrow> (rs_rc \<times> sc_buf \<times> 'db state) option" where
  "state_step q st h resp = do {
     (rc, l) \<leftarrow> aux_step q h (link st);
     let st = relink st l;
     let resp = sc_buf_put_64 (sc_buf_put_32 resp (q_changes q (db_of st))) (q_rowid q (db_of st));
     (rc, resp, st) \<leftarrow>
       (if rc = SQLITE_ROW then do {
          let names = q_names q (db_of st) h;
          let resp = sc_buf_put_32 (sc_buf_put_8 resp MSG_FLAG_ROW) (of_nat (length names));
          let resp = foldl (\<lambda>b n. sc_buf_put_str b (Some n)) resp names;
          let pos = wpos resp;
          (rc, row, resp, st) \<leftarrow> step_rows q st h (sc_buf_put_32 resp 0) 0;
          Some (rc, sc_buf_set_32_at resp pos row, st) }
        else Some (rc, resp, st));
     Some (if rc \<noteq> SQLITE_DONE then aux_rc rc else RS_OK, resp, st) }"

text \<open>From here on an operation has the request and the response: it returns both.\<close>

type_synonym 'db outcome = "(rs_rc \<times> sc_buf \<times> sc_buf \<times> 'db state) option"

definition state_exec_prepared_statement ::
  "'db sqlite \<Rightarrow> 'db state \<Rightarrow> nat \<Rightarrow> bool \<Rightarrow> sc_buf \<Rightarrow> sc_buf \<Rightarrow> 'db outcome" where
  "state_exec_prepared_statement q st h readonly req resp =
     (if readonly \<and> \<not> q_readonly q (db_of st) h
      then Some (RS_ERROR, req, resp, set_err ''Operation is not readonly.'' st)
      else do {
        (rc, req, st) \<leftarrow> state_bind_params q st req h;
        if rc \<noteq> RS_OK then Some (rc, req, resp, st)
        else do {
          (rc, resp, st) \<leftarrow> state_step q st h resp;
          Some (rc, req, resp, st) } })"

definition state_exec_stmt :: "'db sqlite \<Rightarrow> 'db state \<Rightarrow> bool \<Rightarrow> sc_buf \<Rightarrow> sc_buf \<Rightarrow> 'db outcome" where
  "state_exec_stmt q st readonly req resp =
     (let (len, req) = sc_buf_peek_32 req;
          (sql, req) = sc_buf_get_str req;
          (rc, h, l) = aux_prepared q sql (link st);
          st = relink st l
      in if rc \<noteq> SQLITE_OK then Some (aux_rc rc, req, resp, st)
         else do {
           (rc, req, resp, st) \<leftarrow> state_exec_prepared_statement q st h readonly req resp;
           Some (rc, req, resp, relink st (aux_finalize q h (link st))) })"

definition state_prepare_stmt ::
  "'db sqlite \<Rightarrow> 'db state \<Rightarrow> nat \<Rightarrow> u64 \<Rightarrow> sc_buf \<Rightarrow> sc_buf \<Rightarrow> 'db outcome" where
  "state_prepare_stmt q st p index req resp =
     (let (len, req) = sc_buf_peek_32 req;
          (sql, req) = sc_buf_get_str req
      in if \<not> sc_buf_valid req then Some (RS_ERROR, req, resp, set_err ''Corrupt message'' st)
         else do {
           sid \<leftarrow> session_sql_to_id q (db_of st) (sx_sess st p) sql;
           let (rc, h, l) = (if sid = 0 then aux_prepared q sql (link st) else (SQLITE_OK, 0, link st));
           let st = relink st l;
           if rc \<noteq> SQLITE_OK then Some (aux_rc rc, req, resp, st)
           else do {
             (sid, st) \<leftarrow> (if sid = 0 then do { s \<leftarrow> session_add_stmt (sx_sess st p) index h; Some (index, set_sess st p s) }
                           else Some (sid, st));
             let s = sx_sess st p;
             (rc, st) \<leftarrow> on_aux (aux_add_stmt q (sn_name s) (sn_id s) sid sql) (set_client_flag False st);
             Some (rc, req, sc_buf_put_64 resp sid, set_client_flag True st) } })"

definition state_del_prepared :: "'db sqlite \<Rightarrow> 'db state \<Rightarrow> nat \<Rightarrow> sc_buf \<Rightarrow> sc_buf \<Rightarrow> 'db outcome" where
  "state_del_prepared q st p req resp =
     (let (sid, req) = sc_buf_get_64 req
      in if \<not> sc_buf_valid req then Some (RS_ERROR, req, resp, set_err ''Corrupt message'' st)
         else do {
           (rc, s, l) \<leftarrow> session_del_stmt q (sx_sess st p) sid (link st);
           let st = set_sess (relink st l) p s;
           if rc \<noteq> RS_OK then Some (RS_ERROR, req, resp, set_err ''Prepared statement does not exist.'' st)
           else do {
             (rc, st) \<leftarrow> on_aux (aux_rm_stmt q sid) (set_client_flag False st);
             Some (rc, req, resp, set_client_flag True st) } })"

definition state_exec_stmt_id :: "'db sqlite \<Rightarrow> 'db state \<Rightarrow> nat \<Rightarrow> bool \<Rightarrow> sc_buf \<Rightarrow> sc_buf \<Rightarrow> 'db outcome" where
  "state_exec_stmt_id q st p readonly req resp =
     (let (sid, req) = sc_buf_get_64 req
      in if \<not> sc_buf_valid req then Some (RS_ERROR, req, resp, set_err ''Invalid message'' st)
         else do {
           (h, s) \<leftarrow> session_get_stmt (sx_sess st p) sid;
           let st = set_sess st p s;
           if h = 0 then Some (RS_ERROR, req, resp, set_err ''Prepared statement does not exist.'' st)
           else do {
             (rc, req, resp, st) \<leftarrow> state_exec_prepared_statement q st h readonly req resp;
             Some (rc, req, resp, relink st (aux_clear q h (link st))) } })"

definition state_encode_error :: "'db sqlite \<Rightarrow> 'db state \<Rightarrow> sc_buf \<Rightarrow> sc_buf \<times> 'db state" where
  "state_encode_error q st resp =
     (let resp = snd (msg_create_client_resp_header (sc_buf_clear resp));
          resp = sc_buf_put_8 resp MSG_FLAG_ERROR;
          (e, st) = state_errstr q st;
          resp = sc_buf_put_str resp (Some e);
          resp = sc_buf_put_8 resp MSG_FLAG_MSG_END
      in (snd (msg_finalize_client_resp resp), st))"

definition exec_op :: "'db sqlite \<Rightarrow> 'db state \<Rightarrow> nat \<Rightarrow> u64 \<Rightarrow> bool \<Rightarrow> u8 \<Rightarrow> sc_buf \<Rightarrow> sc_buf \<Rightarrow> 'db outcome" where
  "exec_op q st p index readonly flag req resp =
     (if flag = MSG_FLAG_STMT then state_exec_stmt q st readonly req resp
      else if flag = MSG_FLAG_STMT_ID then state_exec_stmt_id q st p readonly req resp
      else if flag = MSG_FLAG_STMT_PREPARE then state_prepare_stmt q st p index req resp
      else state_del_prepared q st p req resp)"

text \<open>
  The loop over the operations of a request. It ends with the flag after the last operation, or at the
  first operation that fails, with the result code that is kept.
\<close>

partial_function (option) exec_ops ::
  "'db sqlite \<Rightarrow> 'db state \<Rightarrow> nat \<Rightarrow> u64 \<Rightarrow> bool \<Rightarrow> sc_buf \<Rightarrow> sc_buf \<Rightarrow> ((rs_rc + u8) \<times> sc_buf \<times> sc_buf \<times> 'db state) option" where
  "exec_ops q st p index readonly req resp =
     (let (flag, req) = sc_buf_get_8 req
      in if flag \<noteq> MSG_FLAG_OP then Some (Inr flag, req, resp, st)
         else let resp = sc_buf_put_8 resp MSG_FLAG_OP;
                  pos = wpos resp;
                  resp = sc_buf_put_32 resp 0;
                  (flag, req) = sc_buf_get_8 req
           in if readonly \<and> (flag = MSG_FLAG_STMT_PREPARE \<or> flag = MSG_FLAG_STMT_DEL_PREPARED)
              then Some (Inl RS_OK, req, resp, set_err ''Not a readonly operation'' st)
              else if flag \<notin> {MSG_FLAG_STMT, MSG_FLAG_STMT_ID, MSG_FLAG_STMT_PREPARE, MSG_FLAG_STMT_DEL_PREPARED}
              then Some (Inl RS_OK, req, resp, set_err ''Invalid message'' st)
              else do {
                (rc, req, resp, st) \<leftarrow> exec_op q st p index readonly flag req resp;
                let (flag, req) = sc_buf_get_8 req;
                if rc \<noteq> RS_OK \<or> flag \<noteq> MSG_FLAG_OP_END then Some (Inl rc, req, resp, st)
                else let resp = sc_buf_put_8 resp MSG_FLAG_OP_END
                  in exec_ops q st p index readonly req (sc_buf_set_32_at resp pos (of_nat (sub32 (wpos resp) pos))) })"

text \<open>The label \<^verbatim>\<open>error\<close>: the response is an error message, the transaction is rolled back.\<close>

definition exec_failed :: "'db sqlite \<Rightarrow> 'db state \<Rightarrow> sc_buf \<Rightarrow> rs_rc \<Rightarrow> (rs_rc \<times> sc_buf \<times> 'db state) option" where
  "exec_failed q st resp rc = do {
     let (resp, st) = state_encode_error q st resp;
     (rv, l) \<leftarrow> aux_step q (ax_rollback (sx_aux st)) (link (set_client_flag False st));
     Some (if rc \<noteq> RS_FATAL then RS_OK else rc, resp, relink st l) }"

text \<open>The end of a request: commit, unless an operation failed or the request is malformed.\<close>

definition exec_commit :: "'db sqlite \<Rightarrow> 'db state \<Rightarrow> sc_buf \<Rightarrow> (rs_rc \<times> sc_buf \<times> 'db state) option" where
  "exec_commit q st resp = do {
     (rc, l) \<leftarrow> aux_step q (ax_commit (sx_aux st)) (link st);
     let st = relink st l;
     if rc \<noteq> SQLITE_DONE then exec_failed q st resp (aux_rc rc)
     else let resp = snd (msg_finalize_client_resp (sc_buf_put_8 resp MSG_FLAG_MSG_END))
       in if \<not> sc_buf_valid resp
          then exec_failed q (set_err (if err resp = SC_BUF_OOM then ''Response is too big.'' else ''Internal error.'') st) resp RS_OK
          else Some (RS_OK, resp, st) }"

definition exec_end ::
  "'db sqlite \<Rightarrow> (rs_rc + u8) \<Rightarrow> sc_buf \<Rightarrow> sc_buf \<Rightarrow> 'db state \<Rightarrow> (rs_rc \<times> sc_buf \<times> 'db state) option" where
  "exec_end q fin req resp st =
     (case fin of
        Inl rc \<Rightarrow> exec_failed q st resp rc
      | Inr flag \<Rightarrow>
          if flag \<noteq> MSG_FLAG_MSG_END \<or> \<not> sc_buf_valid req
          then exec_failed q (set_err ''Invalid message'' st) resp RS_OK
          else exec_commit q st resp)"

definition state_exec_request ::
  "'db sqlite \<Rightarrow> 'db state \<Rightarrow> nat \<Rightarrow> u64 \<Rightarrow> bool \<Rightarrow> sc_buf \<Rightarrow> sc_buf \<Rightarrow> (rs_rc \<times> sc_buf \<times> 'db state) option" where
  "state_exec_request q st p index readonly req resp = do {
     let resp = sc_buf_put_8 (snd (msg_create_client_resp_header (sc_buf_clear resp))) MSG_FLAG_OK;
     (rc, l) \<leftarrow> aux_step q (ax_begin (sx_aux st)) (link st);
     let st = relink st l;
     if rc \<noteq> SQLITE_DONE then Some (aux_rc rc, resp, st)
     else do {
       (fin, req, resp, st) \<leftarrow> exec_ops q st p index readonly req resp;
       exec_end q fin req resp st } }"

text \<open>A request whose number is that of the last one is answered with the stored response.\<close>

definition state_on_client_request ::
  "'db sqlite \<Rightarrow> 'db state \<Rightarrow> u64 \<Rightarrow> bytes \<Rightarrow> (rs_rc \<times> nat \<times> 'db state) option" where
  "state_on_client_request q st index e = do {
     let st = st\<lparr>sx_last_err := None\<rparr>;
     (p, m) \<leftarrow> sc_map_get kind_64 (sx_ids st) (key_64 (entry_cid e));
     let st = st\<lparr>sx_ids := m\<rparr>;
     if \<not> mp_found m then None
     else if entry_seq e = sn_seq (sx_sess st p)
     then Some (RS_OK, p, set_sess st p ((sx_sess st p)\<lparr>sn_resp := sc_buf_set_rpos (sn_resp (sx_sess st p)) 0\<rparr>))
     else do {
       let req = sc_buf_wrap (entry_data e) (entry_data_len e) SC_BUF_READ;
       (rc, resp, st) \<leftarrow> state_exec_request q st p index False req (sn_resp (sx_sess st p));
       let rc = (if rc = RS_FULL \<and> cx_full (sx_ctx st) then RS_OK else rc);
       let resp = snd (sc_buf_shrink resp (32 * 1024));
       Some (rc, p, set_sess st p ((sx_sess st p)\<lparr>sn_resp := resp, sn_seq := entry_seq e\<rparr>)) } }"

definition state_apply_readonly ::
  "'db sqlite \<Rightarrow> 'db state \<Rightarrow> u64 \<Rightarrow> bytes \<Rightarrow> sc_buf \<Rightarrow> (rs_rc \<times> sc_buf \<times> 'db state) option" where
  "state_apply_readonly q st cid buf resp = do {
     let req = sc_buf_wrap buf (length buf) SC_BUF_READ;
     let st = st\<lparr>sx_last_err := None, sx_ctx := (sx_ctx st)\<lparr>cx_client := True, cx_readonly := True, cx_full := False\<rparr>\<rparr>;
     (p, m) \<leftarrow> sc_map_get kind_64 (sx_ids st) (key_64 cid);
     let st = st\<lparr>sx_ids := m\<rparr>;
     if \<not> mp_found m
     then let (resp, st) = state_encode_error q (set_err ''Session does not exist.'' st) resp in Some (RS_OK, resp, st)
     else do {
       (rc, resp, st) \<leftarrow> state_exec_request q st p 0 True req resp;
       Some (if rc = RS_FULL then RS_OK else rc, resp, st) } }"

definition state_on_init :: "'db sqlite \<Rightarrow> 'db state \<Rightarrow> u64 \<Rightarrow> u64 \<Rightarrow> bytes \<Rightarrow> (rs_rc \<times> 'db state) option" where
  "state_on_init q st realtime monotonic rand =
     on_aux (aux_add_log q 0 (Some (str ''INFO'')) (Some (str ''Cluster init.'')))
       (st\<lparr>sx_monotonic := monotonic,
           sx_ctx := (sx_ctx st)\<lparr>cx_realtime := realtime, cx_wrand := sc_rand_init rand, cx_rrand := sc_rand_init rand\<rparr>\<rparr>)"

definition no_session :: "(rs_rc \<times> 'db state) option \<Rightarrow> (rs_rc \<times> nat option \<times> 'db state) option" where
  "no_session r = map_option (\<lambda>(rc, st). (rc, None, st)) r"

definition with_session :: "(rs_rc \<times> nat \<times> 'db state) option \<Rightarrow> (rs_rc \<times> nat option \<times> 'db state) option" where
  "with_session r = map_option (\<lambda>(rc, p, st). (rc, Some p, st)) r"

definition state_apply ::
  "'db sqlite \<Rightarrow> 'db state \<Rightarrow> u64 \<Rightarrow> bytes \<Rightarrow> (rs_rc \<times> nat option \<times> 'db state) option" where
  "state_apply q st index e =
     (let st = st\<lparr>sx_ctx := (sx_ctx st)\<lparr>cx_client := False, cx_readonly := False, cx_full := False\<rparr>,
                  sx_term := entry_term e, sx_index := index\<rparr>;
          buf = sc_buf_wrap (entry_data e) (entry_data_len e) SC_BUF_READ;
          ty = entry_flags e
      in if ty = CMD_INIT then
           let c = fst (cmd_decode_init buf) in no_session (state_on_init q st (ci_realtime c) (ci_monotonic c) (ci_rand c))
         else if ty = CMD_META then do {
           (m, buf) \<leftarrow> cmd_decode_meta buf;
           no_session (state_on_meta q st index m) }
         else if ty = CMD_TERM then
           let c = fst (cmd_decode_term buf) in no_session (state_on_term_start q st index (ct_realtime c) (ct_monotonic c))
         else if ty = CMD_REQUEST then with_session (state_on_client_request q (set_client_flag True st) index e)
         else if ty = CMD_CONNECT then
           let c = fst (cmd_decode_connect buf)
           in with_session (state_on_client_connect q st (cc_name c) (cc_local c) (cc_remote c))
         else if ty = CMD_DISCONNECT then
           let c = fst (cmd_decode_disconnect buf) in no_session (state_on_client_disconnect q st (cd_name c) (cd_clean c))
         else if ty = CMD_TIMESTAMP then
           let c = fst (cmd_decode_timestamp buf) in no_session (state_on_timestamp q st (cs_realtime c) (cs_monotonic c))
         else if ty = CMD_INFO then no_session (state_on_info q st buf)
         else if ty = CMD_LOG then
           let c = fst (cmd_decode_log buf) in no_session (on_aux (aux_add_log q index (cl_level c) (cl_log c)) st)
         else None)"

section \<open>The state machine of the server\<close>

definition session_view :: "'db state \<Rightarrow> nat \<Rightarrow> session" where
  "session_view st p =
     (let s = sx_sess st p
      in \<lparr>se_name = the_default [] (sn_name s), se_id = sn_id s, se_seq = sn_seq s, se_resp = sc_buf_data (sn_resp s)\<rparr>)"

definition no_jobs :: "'db state \<Rightarrow> 'db state" where
  "no_jobs st = st\<lparr>sx_ctx := (sx_ctx st)\<lparr>cx_jobs := []\<rparr>\<rparr>"

definition state_machine :: "'db sqlite \<Rightarrow> 'db state machine" where
  "state_machine q =
     \<lparr>sm_apply = (\<lambda>i e st. map_option (\<lambda>(rc, p, st). (rc, map_option (session_view st) p, cx_jobs (sx_ctx st), st))
        (state_apply q (no_jobs st) (of_nat i) e)),
      sm_read = (\<lambda>cid buf resp st. map_option (\<lambda>(rc, resp, st). (rc, resp, cx_jobs (sx_ctx st), st))
        (state_apply_readonly q (no_jobs st) cid buf resp)),
      sm_meta = sx_meta, sm_term = sx_term\<rparr>"

end
