(* ===== verification/State_Inv.thy ===== *)
theory State_Inv
  imports State
begin

text \<open>
  What holds of the state machine however entries follow each other: the two maps of sessions and the
  list of disconnected ones agree, and a session keeps the number and the response of its last
  request until its next one. The frame of a request is shown first: whatever its statements do, of the
  sessions it changes only the prepared statements of its own.
\<close>

section \<open>What a request changes\<close>

text \<open>The state without the database and what callbacks see of it, without the statements of one session.\<close>

definition core where
  "core p st = (sx_meta st, sx_term st, sx_index st, sx_timestamp st, sx_monotonic st, sx_links st, sx_fresh st,
     sx_info st, sx_ifresh st, sx_nodes st, sx_names st, sx_ids st, sx_closed st,
     (sx_sess st)(p := (sx_sess st p)\<lparr>sn_stmts := sc_map_empty\<rparr>))"

lemma core_frame [simp]:
  "core p (relink st l) = core p st" "core p (set_err e st) = core p st" "core p (set_client_flag b st) = core p st"
  "core p (st\<lparr>sx_last_err := x\<rparr>) = core p st" "core p (st\<lparr>sx_ctx := c\<rparr>) = core p st" "core p (st\<lparr>sx_tmp := b'\<rparr>) = core p st"
  by (simp_all add: core_def relink_def set_err_def set_client_flag_def)

lemma core_on_aux: "on_aux f st = Some (rc, st') \<Longrightarrow> core p st' = core p st"
  by (auto simp: on_aux_def bind_eq_Some_conv)

lemma sess_frame [simp]:
  "sx_sess (relink st l) = sx_sess st" "sx_sess (set_err e st) = sx_sess st" "sx_sess (set_client_flag b st) = sx_sess st"
  by (simp_all add: relink_def set_err_def set_client_flag_def)

lemma core_set_sess: "s\<lparr>sn_stmts := sc_map_empty\<rparr> = (sx_sess st p)\<lparr>sn_stmts := sc_map_empty\<rparr> \<Longrightarrow> core p (set_sess st p s) = core p st"
  by (simp add: core_def set_sess_def fun_upd_idem_iff)

lemma session_stmts_frame:
  "session_add_stmt s i h = Some s' \<Longrightarrow> s'\<lparr>sn_stmts := sc_map_empty\<rparr> = s\<lparr>sn_stmts := sc_map_empty\<rparr>"
  "session_get_stmt s i = Some (h', s') \<Longrightarrow> s'\<lparr>sn_stmts := sc_map_empty\<rparr> = s\<lparr>sn_stmts := sc_map_empty\<rparr>"
  "session_del_stmt q s i l = Some (rc, s', l') \<Longrightarrow> s'\<lparr>sn_stmts := sc_map_empty\<rparr> = s\<lparr>sn_stmts := sc_map_empty\<rparr>"
  by (auto simp: session_add_stmt_def session_get_stmt_def session_del_stmt_def bind_eq_Some_conv split: if_splits)

lemma core_bind_params:
  assumes "state_bind_params q st req h = Some r"
  shows "core p (snd (snd r)) = core p st"
proof (rule state_bind_params.raw_induct [where P = "\<lambda>q st req h r. core p (snd (snd r)) = core p st", OF _ assms], goal_cases)
  case (1 f q st req h r)
  show ?case
    using 1(2) by (auto simp: Let_def dest!: 1(1) split: prod.splits if_splits sum.splits option.splits)
qed

lemma core_step_rows:
  assumes "step_rows q st h resp row = Some r"
  shows "core p (snd (snd (snd r))) = core p st"
proof (rule step_rows.raw_induct [where P = "\<lambda>q st h resp row r. core p (snd (snd (snd r))) = core p st", OF _ assms], goal_cases)
  case (1 f q st h resp row r)
  show ?case using 1(2) by (auto simp: Let_def bind_eq_Some_conv dest!: 1(1) split: if_splits)
qed

lemma core_step: "state_step q st h resp = Some (rc, resp', st') \<Longrightarrow> core p st' = core p st"
  by (auto simp: state_step_def Let_def bind_eq_Some_conv split: if_splits dest!: core_step_rows [where p = p])

lemma core_exec_prepared:
  assumes "state_exec_prepared_statement q st h readonly req resp = Some (rc, req', resp', st')"
  shows "core p st' = core p st"
  using assms
  by (auto simp: state_exec_prepared_statement_def bind_eq_Some_conv split: if_splits
      dest!: core_bind_params [where p = p] core_step [where p = p])

lemma core_exec_stmt:
  assumes "state_exec_stmt q st readonly req resp = Some (rc, req', resp', st')"
  shows "core p st' = core p st"
  using assms
  by (auto simp: state_exec_stmt_def Let_def bind_eq_Some_conv split: if_splits prod.splits dest!: core_exec_prepared [where p = p])

lemma core_exec_stmt_id:
  assumes "state_exec_stmt_id q st p readonly req resp = Some (rc, req', resp', st')"
  shows "core p st' = core p st"
  using assms
  by (auto simp: state_exec_stmt_id_def Let_def bind_eq_Some_conv split: if_splits prod.splits
      simp: core_set_sess dest!: core_exec_prepared [where p = p] session_stmts_frame(2))

lemma core_prepare_stmt:
  assumes "state_prepare_stmt q st p index req resp = Some (rc, req', resp', st')"
  shows "core p st' = core p st"
  using assms
  by (auto simp: state_prepare_stmt_def Let_def bind_eq_Some_conv split: if_splits prod.splits
      simp: core_set_sess dest!: core_on_aux [where p = p] session_stmts_frame(1))

lemma core_del_prepared:
  assumes "state_del_prepared q st p req resp = Some (rc, req', resp', st')"
  shows "core p st' = core p st"
  using assms
  by (auto simp: state_del_prepared_def Let_def bind_eq_Some_conv split: if_splits prod.splits
      simp: core_set_sess dest!: core_on_aux [where p = p] session_stmts_frame(3))

lemma core_exec_op:
  assumes "exec_op q st p index readonly flag req resp = Some (rc, req', resp', st')"
  shows "core p st' = core p st"
proof -
  consider "state_exec_stmt q st readonly req resp = Some (rc, req', resp', st')"
    | "state_exec_stmt_id q st p readonly req resp = Some (rc, req', resp', st')"
    | "state_prepare_stmt q st p index req resp = Some (rc, req', resp', st')"
    | "state_del_prepared q st p req resp = Some (rc, req', resp', st')"
    using assms unfolding exec_op_def by (auto split: if_splits)
  then show ?thesis
    by cases (erule core_exec_stmt core_exec_stmt_id core_prepare_stmt core_del_prepared)+
qed

lemma core_exec_ops:
  assumes "exec_ops q st p index readonly req resp = Some r"
  shows "core p (snd (snd (snd r))) = core p st"
proof (rule exec_ops.raw_induct [where P = "\<lambda>q st p index readonly req resp r. core p (snd (snd (snd r))) = core p st", OF _ assms],
    goal_cases)
  case (1 f q st p index readonly req resp r)
  let ?g = "sc_buf_get_8 req" and ?o = "sc_buf_put_32 (sc_buf_put_8 resp MSG_FLAG_OP) 0"
  let ?h = "sc_buf_get_8 (snd ?g)"
  consider "\<exists>x e. snd (snd (snd r)) = st \<or> snd (snd (snd r)) = set_err e st"
    | rc req' resp' st' where "exec_op q st p index readonly (fst ?h) (snd ?h) ?o = Some (rc, req', resp', st')" "snd (snd (snd r)) = st'"
    | rc req' resp' st' b1 b2 where "exec_op q st p index readonly (fst ?h) (snd ?h) ?o = Some (rc, req', resp', st')"
        "f q st' p index readonly b1 b2 = Some r"
    using 1(2) by (force simp: Let_def case_prod_beta bind_eq_Some_conv split: if_splits)
  then show ?case
  proof cases
    case 3
    then show ?thesis using 1(1) core_exec_op by metis
  qed (auto dest: core_exec_op)
qed

lemma core_encode_error: "state_encode_error q st resp = (resp', st') \<Longrightarrow> core p st' = core p st"
  by (auto simp: state_encode_error_def state_errstr_def Let_def split: prod.splits option.splits)

lemma core_exec_failed:
  assumes "exec_failed q st resp rc = Some (rc', resp', st')"
  shows "core p st' = core p st"
proof -
  obtain r st1 where e: "state_encode_error q st resp = (r, st1)" by (cases "state_encode_error q st resp")
  have "\<exists>l. st' = relink st1 l" using assms e by (auto simp: exec_failed_def bind_eq_Some_conv)
  then show ?thesis using core_encode_error [OF e] by auto
qed

lemma core_exec_commit:
  assumes "exec_commit q st resp = Some (rc, resp', st')"
  shows "core p st' = core p st"
proof -
  obtain rc0 l where 1: "aux_step q (ax_commit (sx_aux st)) (link st) = Some (rc0, l)"
    using assms by (auto simp: exec_commit_def bind_eq_Some_conv)
  have "st' = relink st l \<or> (\<exists>r rc1. exec_failed q (relink st l) r rc1 = Some (rc, resp', st')) \<or>
      (\<exists>r rc1 m. exec_failed q (set_err m (relink st l)) r rc1 = Some (rc, resp', st'))"
    using assms 1 by (auto simp: exec_commit_def Let_def split: if_splits)
  then show ?thesis using core_exec_failed by fastforce
qed

lemma core_exec_end:
  assumes "exec_end q fin req resp st = Some (rc, resp', st')"
  shows "core p st' = core p st"
proof -
  consider rc1 where "exec_failed q st resp rc1 = Some (rc, resp', st')"
    | m where "exec_failed q (set_err m st) resp RS_OK = Some (rc, resp', st')"
    | "exec_commit q st resp = Some (rc, resp', st')"
    using assms by (auto simp: exec_end_def split: sum.splits if_splits)
  then show ?thesis by cases (auto dest: core_exec_failed [where p = p] core_exec_commit [where p = p])
qed

lemma core_exec_request:
  assumes "state_exec_request q st p index readonly req resp = Some (rc, resp', st')"
  shows "core p st' = core p st"
proof -
  let ?resp = "sc_buf_put_8 (snd (msg_create_client_resp_header (sc_buf_clear resp))) MSG_FLAG_OK"
  obtain rc0 l where 1: "aux_step q (ax_begin (sx_aux st)) (link st) = Some (rc0, l)"
    using assms by (auto simp: state_exec_request_def Let_def bind_eq_Some_conv)
  show ?thesis
  proof (cases "rc0 = SQLITE_DONE")
    case False
    then show ?thesis using assms 1 by (auto simp: state_exec_request_def)
  next
    case True
    then obtain fin req1 resp1 st1 where 2: "exec_ops q (relink st l) p index readonly req ?resp = Some (fin, req1, resp1, st1)"
      "exec_end q fin req1 resp1 st1 = Some (rc, resp', st')"
      using assms 1 by (auto simp: state_exec_request_def Let_def bind_eq_Some_conv)
    have "core p st1 = core p st" using core_exec_ops [OF 2(1)] by simp
    then show ?thesis using core_exec_end [OF 2(2), of p] by simp
  qed
qed

lemma coreD:
  assumes "core p st' = core p st"
  shows "sx_names st' = sx_names st" "sx_ids st' = sx_ids st" "sx_links st' = sx_links st" "sx_fresh st' = sx_fresh st"
    "sx_index st' = sx_index st" "p' \<noteq> p \<Longrightarrow> sx_sess st' p' = sx_sess st p'"
    "sx_sess st' p = (sx_sess st p)\<lparr>sn_stmts := sn_stmts (sx_sess st' p)\<rparr>"
proof -
  show "sx_names st' = sx_names st" "sx_ids st' = sx_ids st" "sx_links st' = sx_links st" "sx_fresh st' = sx_fresh st"
    "sx_index st' = sx_index st" using assms by (simp_all add: core_def)
  have e: "(sx_sess st')(p := (sx_sess st' p)\<lparr>sn_stmts := sc_map_empty\<rparr>) = (sx_sess st)(p := (sx_sess st p)\<lparr>sn_stmts := sc_map_empty\<rparr>)"
    using assms by (simp add: core_def)
  show "p' \<noteq> p \<Longrightarrow> sx_sess st' p' = sx_sess st p'" using fun_cong [OF e, of p'] by simp
  have "(sx_sess st' p)\<lparr>sn_stmts := sc_map_empty\<rparr> = (sx_sess st p)\<lparr>sn_stmts := sc_map_empty\<rparr>"
    using fun_cong [OF e, of p] by simp
  then show "sx_sess st' p = (sx_sess st p)\<lparr>sn_stmts := sn_stmts (sx_sess st' p)\<rparr>"
    by (cases "sx_sess st' p"; cases "sx_sess st p") simp
qed

section \<open>The invariant\<close>

text \<open>The session of a name and of a number.\<close>

abbreviation by_name :: "'db state \<Rightarrow> cstring option \<Rightarrow> nat option" where
  "by_name st \<equiv> dict_of (sx_names st)"

abbreviation by_id :: "'db state \<Rightarrow> u64 option \<Rightarrow> nat option" where
  "by_id st \<equiv> dict_of (sx_ids st)"

definition live_session :: "'db state \<Rightarrow> nat \<Rightarrow> bool" where
  "live_session st p \<longleftrightarrow> by_name st (sn_name (sx_sess st p)) = Some p"

definition state_inv :: "'db state \<Rightarrow> bool" where
  "state_inv st \<longleftrightarrow>
     0 < sx_fresh st \<and> map_ok kind_str (sx_names st) \<and> map_ok kind_64 (sx_ids st) \<and>
     (\<forall>k p. by_name st k = Some p \<longrightarrow> k = sn_name (sx_sess st p) \<and> 0 < p \<and> p < sx_fresh st \<and>
        by_id st (key_64 (sn_id (sx_sess st p))) = Some p \<and> unat (sn_id (sx_sess st p)) \<le> unat (sx_index st)) \<and>
     (\<forall>k p. by_id st k = Some p \<longrightarrow> k = key_64 (sn_id (sx_sess st p)) \<and> live_session st p) \<and>
     (\<exists>xs. seq (sx_links st) 0 {0<..<sx_fresh st} xs \<and> (\<forall>p \<in> set xs. live_session st p))"

text \<open>The number of the last request of a session and its stored response, whatever of it was read.\<close>

definition same_answer :: "sess \<Rightarrow> sess \<Rightarrow> bool" where
  "same_answer s s' \<longleftrightarrow> sn_seq s = sn_seq s' \<and> (sn_resp s)\<lparr>rpos := 0\<rparr> = (sn_resp s')\<lparr>rpos := 0\<rparr>"

text \<open>
  How the sessions of a later state come from those of an earlier one. A session is there since then,
  with its number, or it is new and its number is above \<open>n\<close>; and where the last request of session number \<open>cid\<close>
  was \<open>rq\<close>, it has that answer still.
\<close>

definition evolves :: "nat \<Rightarrow> u64 \<Rightarrow> u64 \<Rightarrow> 'db state \<Rightarrow> 'db state \<Rightarrow> bool" where
  "evolves n cid rq st st' \<longleftrightarrow>
     sx_fresh st \<le> sx_fresh st' \<and>
     (\<forall>p. live_session st' p \<longrightarrow>
        (if p < sx_fresh st
         then live_session st p \<and> sn_id (sx_sess st' p) = sn_id (sx_sess st p) \<and>
           (sn_id (sx_sess st p) = cid \<and> sn_seq (sx_sess st p) = rq \<longrightarrow> same_answer (sx_sess st' p) (sx_sess st p))
         else n < unat (sn_id (sx_sess st' p))))"

lemma state_inv_fresh: "state_inv st \<Longrightarrow> 0 < sx_fresh st"
  by (simp add: state_inv_def)

lemma state_inv_name:
  assumes "state_inv st" "by_name st k = Some p"
  shows "k = sn_name (sx_sess st p)" "live_session st p" "0 < p" "p < sx_fresh st"
    "by_id st (key_64 (sn_id (sx_sess st p))) = Some p" "unat (sn_id (sx_sess st p)) \<le> unat (sx_index st)"
proof -
  have "k = sn_name (sx_sess st p) \<and> 0 < p \<and> p < sx_fresh st \<and>
      by_id st (key_64 (sn_id (sx_sess st p))) = Some p \<and> unat (sn_id (sx_sess st p)) \<le> unat (sx_index st)"
    using assms unfolding state_inv_def by blast
  then show "k = sn_name (sx_sess st p)" "live_session st p" "0 < p" "p < sx_fresh st"
    "by_id st (key_64 (sn_id (sx_sess st p))) = Some p" "unat (sn_id (sx_sess st p)) \<le> unat (sx_index st)"
    using assms(2) unfolding live_session_def by simp_all
qed

lemma state_inv_live:
  assumes "state_inv st" "live_session st p"
  shows "0 < p" "p < sx_fresh st" "by_id st (key_64 (sn_id (sx_sess st p))) = Some p"
    "unat (sn_id (sx_sess st p)) \<le> unat (sx_index st)"
  using state_inv_name [OF assms(1) assms(2)[unfolded live_session_def]] by simp_all

lemma state_inv_id:
  assumes "state_inv st" "by_id st k = Some p"
  shows "k = key_64 (sn_id (sx_sess st p))" "live_session st p"
  using assms unfolding state_inv_def by blast+

lemma same_answer_refl [simp]: "same_answer s s"
  by (simp add: same_answer_def)

lemma evolves_refl: "state_inv st \<Longrightarrow> evolves n cid rq st st"
  using state_inv_live(2) unfolding evolves_def by (metis order_refl same_answer_refl)

lemma evolvesD:
  assumes "evolves n cid rq st st'" "live_session st' p"
  shows "p < sx_fresh st \<Longrightarrow> live_session st p" "p < sx_fresh st \<Longrightarrow> sn_id (sx_sess st' p) = sn_id (sx_sess st p)"
    "p < sx_fresh st \<Longrightarrow> sn_id (sx_sess st p) = cid \<Longrightarrow> sn_seq (sx_sess st p) = rq \<Longrightarrow> same_answer (sx_sess st' p) (sx_sess st p)"
    "\<not> p < sx_fresh st \<Longrightarrow> n < unat (sn_id (sx_sess st' p))"
  using assms unfolding evolves_def by presburger+

lemma evolves_trans:
  assumes 1: "evolves n cid rq st st1" and 2: "evolves m cid rq st1 st2" and "n \<le> m"
  shows "evolves n cid rq st st2"
  unfolding evolves_def
proof (intro conjI allI impI)
  show "sx_fresh st \<le> sx_fresh st2" using 1 2 unfolding evolves_def by linarith
  fix p assume l: "live_session st2 p"
  have f: "sx_fresh st \<le> sx_fresh st1" using 1 unfolding evolves_def by blast
  show "if p < sx_fresh st then live_session st p \<and> sn_id (sx_sess st2 p) = sn_id (sx_sess st p) \<and>
      (sn_id (sx_sess st p) = cid \<and> sn_seq (sx_sess st p) = rq \<longrightarrow> same_answer (sx_sess st2 p) (sx_sess st p))
    else n < unat (sn_id (sx_sess st2 p))"
  proof (cases "p < sx_fresh st1")
    case True
    note l1 = evolvesD(1) [OF 2 l True] and i1 = evolvesD(2) [OF 2 l True] and a1 = evolvesD(3) [OF 2 l True]
    show ?thesis
    proof (cases "p < sx_fresh st")
      case True
      note l2 = evolvesD(1) [OF 1 l1 True] and i2 = evolvesD(2) [OF 1 l1 True] and a2 = evolvesD(3) [OF 1 l1 True]
      have "same_answer (sx_sess st2 p) (sx_sess st p)" if "sn_id (sx_sess st p) = cid" "sn_seq (sx_sess st p) = rq"
        using a1 a2 [OF that] i2 that by (simp add: same_answer_def)
      then show ?thesis using True l2 i1 i2 by simp
    next
      case False
      then show ?thesis using evolvesD(4) [OF 1 l1 False] i1 by simp
    qed
  next
    case False
    then show ?thesis using evolvesD(4) [OF 2 l False] assms(3) f by simp
  qed
qed

section \<open>Operations that keep the sessions\<close>

lemma relink_fields [simp]:
  "sx_names (relink st l) = sx_names st" "sx_ids (relink st l) = sx_ids st" "sx_links (relink st l) = sx_links st"
  "sx_fresh (relink st l) = sx_fresh st" "sx_index (relink st l) = sx_index st" "sx_timestamp (relink st l) = sx_timestamp st"
  by (simp_all add: relink_def)

lemma set_sess_fields [simp]:
  "sx_names (set_sess st p s) = sx_names st" "sx_ids (set_sess st p s) = sx_ids st" "sx_links (set_sess st p s) = sx_links st"
  "sx_fresh (set_sess st p s) = sx_fresh st" "sx_index (set_sess st p s) = sx_index st"
  "sx_sess (set_sess st p s) = (sx_sess st)(p := s)" "sx_timestamp (set_sess st p s) = sx_timestamp st"
  by (simp_all add: set_sess_def)

lemma on_auxE:
  assumes "on_aux f st = Some (rc, st')"
  obtains l where "st' = relink st l"
  using assms by (auto simp: on_aux_def bind_eq_Some_conv)

text \<open>Same maps, same names and numbers: what else of the sessions changes is not in the invariant.\<close>

definition same_sessions :: "'db state \<Rightarrow> 'db state \<Rightarrow> bool" where
  "same_sessions st st' \<longleftrightarrow>
     map_ok kind_str (sx_names st') \<and> map_ok kind_64 (sx_ids st') \<and> by_name st' = by_name st \<and> by_id st' = by_id st \<and>
     sx_fresh st' = sx_fresh st \<and> unat (sx_index st) \<le> unat (sx_index st') \<and>
     (\<forall>p. sn_name (sx_sess st' p) = sn_name (sx_sess st p) \<and> sn_id (sx_sess st' p) = sn_id (sx_sess st p))"

lemma same_sessions_live: "same_sessions st st' \<Longrightarrow> live_session st' p \<longleftrightarrow> live_session st p"
  by (simp add: same_sessions_def live_session_def)

lemma same_sessions_inv:
  assumes i: "state_inv st" and s: "same_sessions st st'"
    and l: "seq (sx_links st') 0 {0<..<sx_fresh st} xs" "\<forall>p \<in> set xs. live_session st p"
  shows "state_inv st'"
proof -
  have "unat (sn_id (sx_sess st p)) \<le> unat (sx_index st')" if "by_name st k = Some p" for k p
    using state_inv_name(6) [OF i that] s unfolding same_sessions_def by linarith
  moreover have "\<exists>xs. seq (sx_links st') 0 {0<..<sx_fresh st'} xs \<and> (\<forall>p \<in> set xs. live_session st' p)"
    using l s same_sessions_live [OF s] unfolding same_sessions_def by auto
  ultimately show ?thesis
    using s state_inv_fresh [OF i] state_inv_name [OF i] state_inv_id [OF i] same_sessions_live [OF s]
    unfolding same_sessions_def state_inv_def by simp
qed

lemma same_sessions_evolves:
  assumes i: "state_inv st" and s: "same_sessions st st'"
    and a: "\<And>p. live_session st p \<Longrightarrow> sn_id (sx_sess st p) = cid \<Longrightarrow> sn_seq (sx_sess st p) = rq \<Longrightarrow> same_answer (sx_sess st' p) (sx_sess st p)"
  shows "evolves n cid rq st st'"
  using s same_sessions_live [OF s] state_inv_live(2) [OF i] a unfolding evolves_def same_sessions_def by auto

lemma state_inv_maps: "state_inv st \<Longrightarrow> map_ok kind_str (sx_names st)" "state_inv st \<Longrightarrow> map_ok kind_64 (sx_ids st)"
  by (simp_all add: state_inv_def)

lemma state_inv_links:
  assumes "state_inv st"
  obtains xs where "seq (sx_links st) 0 {0<..<sx_fresh st} xs" "\<forall>p \<in> set xs. live_session st p"
  using assms unfolding state_inv_def by blast

end
