(* ===== verification/Spec2Isabelle.thy ===== *)
theory Spec2Isabelle
  imports Sc_Buf Sc_Crc32 Entry Msg Raft_Commit Sc_List State_Inv
begin

text \<open>
  A verification library for resql, a server that replicates an SQLite database with the Raft protocol.
  Clients send requests to the leader, which appends them to its log, replicates the log to the other
  nodes, and applies what a majority holds to the state machine: a database with the sessions of the
  clients. Below, paths are those of the repository under \<^verbatim>\<open>src/\<close>, and definitions have the names of the C
  functions and types they translate; a helper that stands for a part of a function, such as the body of
  a loop, is defined directly before it.

  \<^bold>\<open>Conventions.\<close> A function that changes an object takes it and returns it. Positions, sizes and indexes are
  natural numbers, with the wrap-around of the C expression written out (\<open>add32\<close>, \<open>sub32\<close>, \<open>add64\<close>, \<open>sub64\<close>)
  where it can occur; values that are only stored, compared and encoded are words. A C string is its bytes
  without the terminator, a pointer that may be null is an option, a pointer to an object that others share
  is an address, with the memory it points into as part of the state. A result code is a value of \<open>rs_rc\<close>.
  A function of an option type has no result where the C function does not return: the process aborts or
  crashes in it, or a loop of it does not end. Loops that may not end are partial functions in the option
  monad, without a bound or fuel, and the properties say where they do return. Allocation does not fail:
  the program aborts where it does. Assertions that the production build leaves out are not part of the
  definitions. What the operating system, the clocks and SQLite answer are arguments.

  \<^bold>\<open>The library \<^verbatim>\<open>lib/sc\<close>.\<close>
  \<^item> \<open>Resql_Prelude\<close>: machine types, arithmetic with wrap-around, little-endian images of integers, slices of
    memory, the result codes (\<^verbatim>\<open>src/rs.h\<close>), and the collections of lemmas that the other theories use.
    \<open>Refinement\<close>: runs of operations and the locale \<open>refines\<close>, an implementation that simulates an
    abstract component operation by operation.
  \<^item> \<open>Sc_Buf\<close>, \<^verbatim>\<open>sc_buf.c\<close>: the byte buffer that every encoding goes through. The invariant of the cursors; a
    buffer is a queue of typed items; reading arbitrary bytes stays within the buffer. \<open>Codec\<close> has the
    lemmas by which decoders are read item by item.
  \<^item> \<open>Sc_Crc32\<close>, \<^verbatim>\<open>sc_crc32.c\<close>: the table-driven checksum equals CRC-32C and detects bursts.
  \<^item> \<open>Sc_Core\<close>, \<^verbatim>\<open>sc.c\<close>: the random number generator and powers of two.
  \<^item> \<open>Sc_Str\<close> and \<open>Sc_Uri\<close>, \<^verbatim>\<open>sc_str.c\<close> and \<^verbatim>\<open>sc_uri.c\<close>: strings and addresses; tokens, replacement, and parsing a
    URI that was printed.
  \<^item> \<open>Sc_List\<close>, \<^verbatim>\<open>sc_list.c\<close>: circular linked lists on an explicit memory of links refine sequences.
  \<^item> \<open>Sc_Map\<close>, \<^verbatim>\<open>sc_map.c\<close>: hash maps with open addressing refine dictionaries.

  \<^bold>\<open>The log.\<close>
  \<^item> \<open>Entry\<close>, \<^verbatim>\<open>src/entry.c\<close>: the image of a log entry, its round trip, and that a torn or corrupted one is refused.
  \<^item> \<open>Page\<close>, \<open>Page_Recovery\<close> and \<open>Page_Log\<close>, \<^verbatim>\<open>src/page.c\<close>: a memory-mapped page of entries. The page refines a log;
    it is recovered from its bytes; what \<open>page_fsync\<close> wrote survives a crash. The locale \<open>log_page\<close> is what the
    store relies on, interpreted on the operations of a page.
  \<^item> \<open>Store\<close>, \<^verbatim>\<open>src/store.c\<close>: the log in two pages refines one list of entries, also over a restart and after a
    snapshot took the first page.

  \<^bold>\<open>Messages, configuration, connections.\<close>
  \<^item> \<open>Msg\<close>, \<^verbatim>\<open>src/msg.c\<close>: messages and the loop that takes them from a stream, on intact and on arbitrary bytes.
  \<^item> \<open>Meta\<close> and \<open>Cmd\<close>, \<^verbatim>\<open>src/meta.c\<close> and \<^verbatim>\<open>src/cmd.c\<close>: the configuration of the cluster with its changes, and the
    commands that entries hold, with their encodings.
  \<^item> \<open>Conn\<close> and \<open>Node\<close>, \<^verbatim>\<open>src/conn.c\<close>, \<^verbatim>\<open>src/node.c\<close> and \<^verbatim>\<open>src/client.c\<close>: the buffers of a connection, what is sent and
    received through them, and what the server keeps of its peers.
  \<^item> \<open>Snapshot\<close>, \<^verbatim>\<open>src/snapshot.c\<close>: a snapshot received in chunks is the file that was sent.

  \<^bold>\<open>The server\<close>, \<^verbatim>\<open>src/server.c\<close>.
  \<^item> \<open>Server\<close>, \<open>Server_Election\<close>, \<open>Server_Log\<close>, \<open>Server_Loop\<close>: the state of the server and its handlers, in the order of
    the protocol: elections, replication, then clients and the work after each round of events. A
    handler takes the server with its environment \<open>env\<close>, an oracle for everything that it asks, and returns
    a result code with the server. The state machine is a parameter of the server, the record \<open>machine\<close>.
  \<^item> \<open>Raft_Log\<close>: an append request merges its entries into the log by the rule of Raft, is refused where it has
    to be, and applies what it commits once and in order.
  \<^item> \<open>Raft_Vote\<close>: one vote in a term, on disk before it is answered; becoming the leader; and the run in which
    an old pre-vote makes a server vote twice.
  \<^item> \<open>Raft_Commit\<close>: the leader commits only what a majority holds.

  \<^bold>\<open>The state machine.\<close>
  \<^item> \<open>Sql_Aux\<close>, \<^verbatim>\<open>src/aux.c\<close>, \<^verbatim>\<open>src/info.c\<close>, \<^verbatim>\<open>src/session.c\<close>: the tables of the server, the descriptions of nodes, the
    sessions, and the functions that SQLite calls. SQLite is the record \<open>sqlite\<close> of the calls that are made.
  \<^item> \<open>State\<close>, \<^verbatim>\<open>src/state.c\<close>: every command of an entry, requests and their statements, reading and writing the
    variables; \<open>state_machine\<close> is the instance of the server's parameter.
  \<^item> \<open>State_Inv\<close>: what a request leaves as it is, and how sessions evolve.

  \<^bold>\<open>Not modelled.\<close> SQLite, which is a parameter. Opening a snapshot file and creating the tables of a new
  database; starting, stopping and restarting the server; taking a snapshot on its thread: these are
  sequences of calls on files and of SQLite. Timers, sockets and threads, whose events and answers are
  inputs. Logging, metrics, configuration files, the command line, the client libraries and the tests.
\<close>

end
